(* ===== verification/Prelude.thy ===== *)
theory Prelude
  imports Main "HOL-Library.Word" "HOL-Library.List_Lexorder"
begin

text \<open>
  The prelude of the development: the vocabulary that every component shares.

  \<^item> Go byte strings.  A Go \<^verbatim>\<open>string\<close> or \<^verbatim>\<open>[]byte\<close> is a list of 8-bit words
    (\<open>gostring\<close>), compared lexicographically by unsigned byte as the language does (the
    order of \<^verbatim>\<open>HOL-Library.List_Lexorder\<close> on lists of words); \<open>lit\<close> turns an
    Isabelle string literal into its bytes.
  \<^item> Errors and panics.  A fallible operation returns a value of a sum type, \<open>Inl\<close> for the
    error or the panic; \<open>bindE\<close> sequences such operations and \<open>foldE\<close> runs one over the
    elements of a slice, stopping at the first failure, as the Go control flow does.
  \<^item> The collections \<open>go_simps\<close> (rewrites for sequencing) and \<open>inv_intros\<close>
    (preservation of component invariants), which the component theories extend.
\<close>

named_theorems go_simps "rewrite rules for the sequencing combinators"
named_theorems inv_intros "introduction rules for component invariants"

section \<open>Byte strings\<close>

type_synonym byte = "8 word"
type_synonym gostring = "byte list"

definition byte_of :: "char \<Rightarrow> byte" where
  "byte_of c = of_char c"

definition lit :: "string \<Rightarrow> gostring" where
  "lit s = map byte_of s"

lemma lit_Nil [simp]: "lit [] = []"
  by (simp add: lit_def)

lemma lit_Cons [simp]: "lit (c # s) = byte_of c # lit s"
  by (simp add: lit_def)

lemma length_lit [simp]: "length (lit s) = length s"
  by (simp add: lit_def)

text \<open>An extension of a string is never smaller than the string.\<close>

lemma le_append [simp]: "(p::gostring) \<le> p @ s"
  by (induction p) auto

lemma append_less_cancel [simp]: "(p @ a < p @ b) \<longleftrightarrow> (a < (b::gostring))"
  by (induction p) auto

lemma append_le_cancel [simp]: "(p @ a \<le> p @ b) \<longleftrightarrow> (a \<le> (b::gostring))"
  by (induction p) auto

section \<open>Errors, panics and their sequencing\<close>

definition bindE :: "'e + 'a \<Rightarrow> ('a \<Rightarrow> 'e + 'b) \<Rightarrow> 'e + 'b" where
  "bindE m f = (case m of Inl e \<Rightarrow> Inl e | Inr x \<Rightarrow> f x)"

lemma bindE_simps [simp, go_simps]:
  "bindE (Inl e) f = Inl e"
  "bindE (Inr x) f = f x"
  by (simp_all add: bindE_def)

lemma bindE_eq_Inr [go_simps]: "bindE m f = Inr y \<longleftrightarrow> (\<exists>x. m = Inr x \<and> f x = Inr y)"
  by (cases m) auto

lemma bindE_eq_Inl [go_simps]:
  "bindE m f = Inl e \<longleftrightarrow> m = Inl e \<or> (\<exists>x. m = Inr x \<and> f x = Inl e)"
  by (cases m) auto

lemma bindE_assoc: "bindE (bindE m f) g = bindE m (\<lambda>x. bindE (f x) g)"
  by (cases m) auto

lemma bindE_split: "P (bindE m f) \<longleftrightarrow> (\<forall>e. m = Inl e \<longrightarrow> P (Inl e)) \<and> (\<forall>x. m = Inr x \<longrightarrow> P (f x))"
  by (cases m) auto

primrec foldE :: "('a \<Rightarrow> 's \<Rightarrow> 'e + 's) \<Rightarrow> 'a list \<Rightarrow> 's \<Rightarrow> 'e + 's" where
  "foldE f [] s = Inr s"
| "foldE f (x # xs) s = bindE (f x s) (foldE f xs)"

lemma foldE_append: "foldE f (xs @ ys) s = bindE (foldE f xs s) (foldE f ys)"
  by (induction xs arbitrary: s) (auto simp: bindE_def split: sum.splits)

text \<open>An invariant that every iteration keeps holds after the loop.\<close>

lemma foldE_invariant:
  assumes "foldE f xs s = Inr t" and "I s"
    and "\<And>x s t. x \<in> set xs \<Longrightarrow> I s \<Longrightarrow> f x s = Inr t \<Longrightarrow> I t"
  shows "I t"
  using assms
proof (induction xs arbitrary: s)
  case Nil
  then show ?case by simp
next
  case (Cons x xs)
  from Cons.prems(1) obtain u where u: "f x s = Inr u" "foldE f xs u = Inr t"
    by (auto simp: go_simps)
  with Cons.prems have "I u" by auto
  with u(2) show ?case by (rule Cons.IH) (use Cons.prems(3) in auto)
qed

text \<open>A loop whose body never fails where the invariant holds never fails.\<close>

lemma foldE_total:
  assumes "I s"
    and "\<And>x s. x \<in> set xs \<Longrightarrow> I s \<Longrightarrow> \<exists>t. f x s = Inr t \<and> I t"
  shows "\<exists>t. foldE f xs s = Inr t \<and> I t"
  using assms
proof (induction xs arbitrary: s)
  case Nil
  then show ?case by simp
next
  case (Cons x xs)
  from Cons.prems(2) [of x s] Cons.prems(1) obtain u where u: "f x s = Inr u" "I u"
    by auto
  from u(2) Cons.prems(2) have "\<exists>t. foldE f xs u = Inr t \<and> I t"
    by (intro Cons.IH) auto
  with u(1) show ?case by simp
qed

section \<open>Counting in lists\<close>

definition count_if :: "('a \<Rightarrow> bool) \<Rightarrow> 'a list \<Rightarrow> int" where
  "count_if P xs = int (length (filter P xs))"

lemma count_if_Nil [simp]: "count_if P [] = 0"
  by (simp add: count_if_def)

lemma count_if_Cons [simp]: "count_if P (x # xs) = (if P x then 1 else 0) + count_if P xs"
  by (simp add: count_if_def)

lemma count_if_append [simp]: "count_if P (xs @ ys) = count_if P xs + count_if P ys"
  by (simp add: count_if_def)

lemma count_if_nonneg [simp]: "0 \<le> count_if P xs"
  by (simp add: count_if_def)

text \<open>Overwriting one element moves a count by what that element contributed.\<close>

lemma count_if_update:
  "i < length xs \<Longrightarrow>
   count_if P (xs[i := y]) = count_if P xs - (if P (xs ! i) then 1 else 0) + (if P y then 1 else 0)"
proof (induction xs arbitrary: i)
  case Nil
  then show ?case by simp
next
  case (Cons x xs)
  then show ?case by (cases i) auto
qed

lemma count_if_pos: "i < length xs \<Longrightarrow> P (xs ! i) \<Longrightarrow> 1 \<le> count_if P xs"
proof (induction xs arbitrary: i)
  case Nil
  then show ?case by simp
next
  case (Cons x xs)
  show ?case
  proof (cases i)
    case 0
    with Cons.prems show ?thesis by simp
  next
    case (Suc k)
    with Cons have "1 \<le> count_if P xs" by auto
    then show ?thesis by simp
  qed
qed

end
