(* ===== verification/Jobs.thy ===== *)
theory Jobs
  imports Prelude
begin

text \<open>
  The job engine of the raster catalogue (\<^verbatim>\<open>src/internal/raster/geocube\<close>): the persistence
  state of an entity (\<^verbatim>\<open>state.go\<close>), tasks (\<^verbatim>\<open>task.go\<close>), job and task events
  (\<^verbatim>\<open>consolidation_event.go\<close>), the errors they raise (\<^verbatim>\<open>geocubeerrors.go\<close>) and the
  job itself (\<^verbatim>\<open>job.go\<close>): its state machine (\<open>Trigger\<close>), its tasks and their
  counters, its logs and its dataset locks.

  Conventions.  A Go panic is \<open>Inl message\<close>.  A clock reading is an argument \<open>now\<close>, one
  per operation (the code calls \<^verbatim>\<open>time.Now()\<close> at every use).  The uuid generator and the
  gob encoder are not part of the repository: the fresh identifier and the encoder are
  arguments.  The consolidation parameters a job owns are opaque (type \<open>'p\<close>).
\<close>

section \<open>Persistence state (state.go)\<close>

datatype persistenceState =
    persistenceStateUNKNOWN | persistenceStateNEW | persistenceStateCLEAN
  | persistenceStateDIRTY | persistenceStateTODELETE | persistenceStateDELETED

definition ps_IsDirty :: "persistenceState \<Rightarrow> bool" where
  "ps_IsDirty p \<longleftrightarrow> p = persistenceStateDIRTY"

definition ps_IsToDelete :: "persistenceState \<Rightarrow> bool" where
  "ps_IsToDelete p \<longleftrightarrow> p = persistenceStateTODELETE"

definition ps_IsNew :: "persistenceState \<Rightarrow> bool" where
  "ps_IsNew p \<longleftrightarrow> p = persistenceStateNEW"

definition ps_IsClean :: "persistenceState \<Rightarrow> bool" where
  "ps_IsClean p \<longleftrightarrow> p = persistenceStateCLEAN"

definition ps_IsActive :: "persistenceState \<Rightarrow> bool" where
  "ps_IsActive p \<longleftrightarrow>
     p = persistenceStateNEW \<or> p = persistenceStateCLEAN \<or> p = persistenceStateDIRTY"

definition ps_IsDeleted :: "persistenceState \<Rightarrow> bool" where
  "ps_IsDeleted p \<longleftrightarrow> p = persistenceStateDELETED"

definition mustNotBeDeleted :: "persistenceState \<Rightarrow> string + unit" where
  "mustNotBeDeleted p =
     (if p = persistenceStateDELETED then Inl ''Entity is deleted'' else Inr ())"

definition ps_Clean :: "persistenceState \<Rightarrow> string + persistenceState" where
  "ps_Clean p = bindE (mustNotBeDeleted p) (\<lambda>_.
     Inr (if p \<noteq> persistenceStateTODELETE then persistenceStateCLEAN else p))"

definition ps_Deleted :: "persistenceState \<Rightarrow> persistenceState" where
  "ps_Deleted p = persistenceStateDELETED"

definition ps_dirty :: "persistenceState \<Rightarrow> string + persistenceState" where
  "ps_dirty p = bindE (mustNotBeDeleted p) (\<lambda>_.
     Inr (if p = persistenceStateCLEAN \<or> p = persistenceStateUNKNOWN
          then persistenceStateDIRTY else p))"

definition ps_toDelete :: "persistenceState \<Rightarrow> string + persistenceState" where
  "ps_toDelete p = bindE (mustNotBeDeleted p) (\<lambda>_. Inr persistenceStateTODELETE)"

section \<open>Errors (geocubeerrors.go)\<close>

datatype ErrorCode =
    EntityValidationError | EntityNotFound | EntityAlreadyExists
  | DependencyStillExists | UnhandledEvent | ShouldNeverHappen

record GeocubeError =
  err_code :: ErrorCode
  err_details :: "string list"

text \<open>The index guard of \<open>Detail\<close> is \<^verbatim>\<open>i > len(e.details)\<close>; reading past the end panics.\<close>

definition err_Detail :: "GeocubeError \<Rightarrow> nat \<Rightarrow> string + string" where
  "err_Detail e i =
     (if i > length (err_details e) then Inr []
      else if i < length (err_details e) then Inr (err_details e ! i)
      else Inl ''index out of range'')"

definition NewValidationError :: GeocubeError where
  "NewValidationError = \<lparr>err_code = EntityValidationError, err_details = []\<rparr>"

definition NewEntityNotFound :: "string \<Rightarrow> string \<Rightarrow> string \<Rightarrow> GeocubeError" where
  "NewEntityNotFound entity keyID key =
     \<lparr>err_code = EntityNotFound, err_details = [entity, keyID, key]\<rparr>"

definition NewUnhandledEvent :: GeocubeError where
  "NewUnhandledEvent = \<lparr>err_code = UnhandledEvent, err_details = []\<rparr>"

section \<open>Tasks (task.go) and task events (consolidation_event.go)\<close>

datatype TaskState =
  TaskStateFAILED | TaskStateCANCELLED | TaskStateDONE | TaskStatePENDING | TaskStateNEW

record Task =
  task_ps :: persistenceState
  task_ID :: string
  task_State :: TaskState
  task_Payload :: string

datatype TaskStatus = TaskSuccessful | TaskFailed | TaskIgnored | TaskCancelled | TaskSent

record TaskEvent =
  tev_JobID :: string
  tev_TaskID :: string
  tev_Status :: TaskStatus
  tev_Error :: string

text \<open>\<^verbatim>\<open>TaskStatus.String\<close> names three of the five statuses and panics on the others.\<close>

fun TaskStatus_String :: "TaskStatus \<Rightarrow> string + string" where
  "TaskStatus_String TaskFailed = Inr ''TaskFailed''"
| "TaskStatus_String TaskSuccessful = Inr ''TaskSuccessful''"
| "TaskStatus_String TaskCancelled = Inr ''TaskCancelled''"
| "TaskStatus_String _ = Inl ''undefined task status''"

definition newConsolidationTask ::
  "(string \<Rightarrow> 'v \<Rightarrow> string + string) \<Rightarrow> string \<Rightarrow> 'v \<Rightarrow> string + Task" where
  "newConsolidationTask marshal uuid evt =
     (case marshal uuid evt of
        Inl err \<Rightarrow> Inl err
      | Inr payload \<Rightarrow>
          Inr \<lparr>task_ps = persistenceStateNEW, task_ID = uuid, task_State = TaskStateNEW,
               task_Payload = payload\<rparr>)"

definition newDeletionTask :: "string \<Rightarrow> string \<Rightarrow> Task" where
  "newDeletionTask uuid containerURI =
     \<lparr>task_ps = persistenceStateNEW, task_ID = uuid, task_State = TaskStateNEW,
      task_Payload = containerURI\<rparr>"

definition DeletionPayload :: "Task \<Rightarrow> string" where
  "DeletionPayload t = task_Payload t"

definition task_setState :: "Task \<Rightarrow> TaskState \<Rightarrow> string + (Task \<times> bool)" where
  "task_setState t newState =
     (if task_State t \<noteq> newState
      then bindE (ps_dirty (task_ps t)) (\<lambda>p.
             Inr (t\<lparr>task_State := newState, task_ps := p\<rparr>, True))
      else Inr (t, False))"

fun taskStateFromStatus :: "TaskStatus \<Rightarrow> TaskState" where
  "taskStateFromStatus TaskSent = TaskStatePENDING"
| "taskStateFromStatus TaskFailed = TaskStateFAILED"
| "taskStateFromStatus TaskIgnored = TaskStateCANCELLED"
| "taskStateFromStatus TaskCancelled = TaskStateCANCELLED"
| "taskStateFromStatus TaskSuccessful = TaskStateDONE"

section \<open>Job events (consolidation_event.go)\<close>

datatype JobStatus =
    JobCreated | OrdersPrepared | PrepareOrdersFailed | SendOrdersFailed
  | ConsolidationDone | ConsolidationFailed | ConsolidationRetryFailed
  | ConsolidationIndexed | ConsolidationIndexingFailed
  | DatasetsSwapped | SwapDatasetsFailed | DeletionStarted | StartDeletionFailed
  | DeletionReady | DeletionNotReady | RemovalDone | DeletionDone | RemovalFailed
  | DeletionFailed
  | CancelledByUser | CancelledByUserForced | CancellationFailed | CancellationDone
  | RollbackFailed | RollbackDone | Retried | RetryForced | Continue

record JobEvent =
  jev_JobID :: string
  jev_Status :: JobStatus
  jev_Error :: string

fun statusWithError :: "JobStatus \<Rightarrow> bool" where
  "statusWithError PrepareOrdersFailed = True"
| "statusWithError SendOrdersFailed = True"
| "statusWithError ConsolidationFailed = True"
| "statusWithError ConsolidationRetryFailed = True"
| "statusWithError ConsolidationIndexingFailed = True"
| "statusWithError CancellationFailed = True"
| "statusWithError SwapDatasetsFailed = True"
| "statusWithError StartDeletionFailed = True"
| "statusWithError RemovalFailed = True"
| "statusWithError DeletionFailed = True"
| "statusWithError DeletionNotReady = True"
| "statusWithError RollbackFailed = True"
| "statusWithError _ = False"

definition NewJobEvent :: "string \<Rightarrow> JobStatus \<Rightarrow> string \<Rightarrow> string + JobEvent" where
  "NewJobEvent jobID status err =
     (if statusWithError status \<noteq> (err \<noteq> [])
      then Inl ''Status & error are not compatible''
      else Inr \<lparr>jev_JobID = jobID, jev_Status = status, jev_Error = err\<rparr>)"

definition NewTaskEvent :: "string \<Rightarrow> string \<Rightarrow> TaskStatus \<Rightarrow> string option \<Rightarrow> TaskEvent" where
  "NewTaskEvent jobID taskID eventStatus err =
     \<lparr>tev_JobID = jobID, tev_TaskID = taskID, tev_Status = eventStatus,
      tev_Error = (case err of None \<Rightarrow> [] | Some e \<Rightarrow> e)\<rparr>"


section \<open>Jobs (job.go)\<close>

subsection \<open>Data\<close>

datatype JobType = JobTypeCONSOLIDATION | JobTypeINGESTION | JobTypeDELETION

datatype JobState =
    JobStateNEW | JobStateCREATED
  | JobStateCONSOLIDATIONINPROGRESS | JobStateCONSOLIDATIONDONE
  | JobStateCONSOLIDATIONINDEXED | JobStateCONSOLIDATIONEFFECTIVE
  | JobStateCONSOLIDATIONFAILED | JobStateCONSOLIDATIONRETRYING
  | JobStateCONSOLIDATIONFORCERETRYING | JobStateCONSOLIDATIONCANCELLING
  | JobStateDELETIONINPROGRESS | JobStateDELETIONEFFECTIVE | JobStateDELETIONFAILED
  | JobStateDONE
  | JobStateFAILED | JobStateINITIALISATIONFAILED | JobStateCANCELLATIONFAILED
  | JobStateABORTED | JobStateROLLBACKFAILED | JobStateDONEBUTUNTIDY

fun JobState_String :: "JobState \<Rightarrow> string" where
  "JobState_String JobStateNEW = ''NEW''"
| "JobState_String JobStateCREATED = ''CREATED''"
| "JobState_String JobStateCONSOLIDATIONINPROGRESS = ''CONSOLIDATIONINPROGRESS''"
| "JobState_String JobStateCONSOLIDATIONDONE = ''CONSOLIDATIONDONE''"
| "JobState_String JobStateCONSOLIDATIONINDEXED = ''CONSOLIDATIONINDEXED''"
| "JobState_String JobStateCONSOLIDATIONEFFECTIVE = ''CONSOLIDATIONEFFECTIVE''"
| "JobState_String JobStateCONSOLIDATIONFAILED = ''CONSOLIDATIONFAILED''"
| "JobState_String JobStateCONSOLIDATIONRETRYING = ''CONSOLIDATIONRETRYING''"
| "JobState_String JobStateCONSOLIDATIONFORCERETRYING = ''CONSOLIDATIONFORCERETRYING''"
| "JobState_String JobStateCONSOLIDATIONCANCELLING = ''CONSOLIDATIONCANCELLING''"
| "JobState_String JobStateDELETIONINPROGRESS = ''DELETIONINPROGRESS''"
| "JobState_String JobStateDELETIONEFFECTIVE = ''DELETIONEFFECTIVE''"
| "JobState_String JobStateDELETIONFAILED = ''DELETIONFAILED''"
| "JobState_String JobStateDONE = ''DONE''"
| "JobState_String JobStateFAILED = ''FAILED''"
| "JobState_String JobStateINITIALISATIONFAILED = ''INITIALISATIONFAILED''"
| "JobState_String JobStateCANCELLATIONFAILED = ''CANCELLATIONFAILED''"
| "JobState_String JobStateABORTED = ''ABORTED''"
| "JobState_String JobStateROLLBACKFAILED = ''ROLLBACKFAILED''"
| "JobState_String JobStateDONEBUTUNTIDY = ''DONEBUTUNTIDY''"

datatype ExecutionLevel =
    ExecutionSynchronous | ExecutionAsynchronous
  | StepByStepCritical | StepByStepMajor | StepByStepAll | StepByStepNever

fun ExecutionLevel_num :: "ExecutionLevel \<Rightarrow> nat" where
  "ExecutionLevel_num ExecutionSynchronous = 0"
| "ExecutionLevel_num ExecutionAsynchronous = 1"
| "ExecutionLevel_num StepByStepCritical = 2"
| "ExecutionLevel_num StepByStepMajor = 3"
| "ExecutionLevel_num StepByStepAll = 4"
| "ExecutionLevel_num StepByStepNever = 5"

lemma ExecutionLevel_num_inj: "ExecutionLevel_num a = ExecutionLevel_num b \<Longrightarrow> a = b"
  by (cases a; cases b) auto

text \<open>The levels are Go integers (\<^verbatim>\<open>iota\<close>) and are compared as such.\<close>

instantiation ExecutionLevel :: linorder
begin

definition less_eq_ExecutionLevel :: "ExecutionLevel \<Rightarrow> ExecutionLevel \<Rightarrow> bool" where
  "less_eq_ExecutionLevel a b \<longleftrightarrow> ExecutionLevel_num a \<le> ExecutionLevel_num b"

definition less_ExecutionLevel :: "ExecutionLevel \<Rightarrow> ExecutionLevel \<Rightarrow> bool" where
  "less_ExecutionLevel a b \<longleftrightarrow> ExecutionLevel_num a < ExecutionLevel_num b"

instance
  by standard
    (auto simp: less_eq_ExecutionLevel_def less_ExecutionLevel_def dest: ExecutionLevel_num_inj)

end

record JobStateInfo =
  info_Level :: ExecutionLevel
  info_RetryForced :: bool

fun jobStateInfo :: "JobState \<Rightarrow> JobStateInfo" where
  "jobStateInfo JobStateNEW = \<lparr>info_Level = StepByStepAll, info_RetryForced = True\<rparr>"
| "jobStateInfo JobStateCREATED = \<lparr>info_Level = StepByStepMajor, info_RetryForced = True\<rparr>"
| "jobStateInfo JobStateCONSOLIDATIONINPROGRESS =
     \<lparr>info_Level = StepByStepCritical, info_RetryForced = False\<rparr>"
| "jobStateInfo JobStateCONSOLIDATIONDONE =
     \<lparr>info_Level = StepByStepMajor, info_RetryForced = True\<rparr>"
| "jobStateInfo JobStateCONSOLIDATIONINDEXED =
     \<lparr>info_Level = StepByStepAll, info_RetryForced = True\<rparr>"
| "jobStateInfo JobStateCONSOLIDATIONEFFECTIVE =
     \<lparr>info_Level = StepByStepCritical, info_RetryForced = True\<rparr>"
| "jobStateInfo JobStateCONSOLIDATIONFAILED =
     \<lparr>info_Level = StepByStepAll, info_RetryForced = False\<rparr>"
| "jobStateInfo JobStateCONSOLIDATIONRETRYING =
     \<lparr>info_Level = StepByStepMajor, info_RetryForced = True\<rparr>"
| "jobStateInfo JobStateCONSOLIDATIONFORCERETRYING =
     \<lparr>info_Level = StepByStepMajor, info_RetryForced = True\<rparr>"
| "jobStateInfo JobStateCONSOLIDATIONCANCELLING =
     \<lparr>info_Level = StepByStepMajor, info_RetryForced = True\<rparr>"
| "jobStateInfo JobStateDELETIONINPROGRESS =
     \<lparr>info_Level = StepByStepCritical, info_RetryForced = True\<rparr>"
| "jobStateInfo JobStateDELETIONEFFECTIVE =
     \<lparr>info_Level = StepByStepMajor, info_RetryForced = True\<rparr>"
| "jobStateInfo JobStateDELETIONFAILED =
     \<lparr>info_Level = StepByStepAll, info_RetryForced = False\<rparr>"
| "jobStateInfo JobStateDONE = \<lparr>info_Level = StepByStepNever, info_RetryForced = False\<rparr>"
| "jobStateInfo JobStateFAILED = \<lparr>info_Level = StepByStepNever, info_RetryForced = False\<rparr>"
| "jobStateInfo JobStateINITIALISATIONFAILED =
     \<lparr>info_Level = StepByStepAll, info_RetryForced = False\<rparr>"
| "jobStateInfo JobStateCANCELLATIONFAILED =
     \<lparr>info_Level = StepByStepAll, info_RetryForced = False\<rparr>"
| "jobStateInfo JobStateABORTED = \<lparr>info_Level = StepByStepMajor, info_RetryForced = True\<rparr>"
| "jobStateInfo JobStateROLLBACKFAILED =
     \<lparr>info_Level = StepByStepAll, info_RetryForced = False\<rparr>"
| "jobStateInfo JobStateDONEBUTUNTIDY =
     \<lparr>info_Level = StepByStepNever, info_RetryForced = False\<rparr>"

datatype LogSeverity = DEBUG | INFO | WARN | ERROR

record JobLog =
  log_Severity :: LogSeverity
  log_Msg :: string
  log_Status :: string
  log_Date :: int

record JobPayload =
  pay_Layout :: string
  pay_InstanceID :: string
  pay_ParamsID :: string
  pay_CollapseRecordId :: string

datatype LockFlag = LockFlagALL | LockFlagINIT | LockFlagTODELETE | LockFlagNEW

text \<open>The array index of a flag; \<open>LockFlagALL\<close> is \<open>-1\<close> in the code and is never an index.\<close>

fun LockFlag_index :: "LockFlag \<Rightarrow> int" where
  "LockFlag_index LockFlagALL = -1"
| "LockFlag_index LockFlagINIT = 0"
| "LockFlag_index LockFlagTODELETE = 1"
| "LockFlag_index LockFlagNEW = 2"

record LockedDatasets =
  ld_ps :: persistenceState
  ld_newDatasetsID :: "string set option"

definition ld_zero :: LockedDatasets where
  "ld_zero = \<lparr>ld_ps = persistenceStateUNKNOWN, ld_newDatasetsID = None\<rparr>"

record 'p Job =
  job_ps :: persistenceState
  job_State :: JobState
  job_ID :: string
  job_Name :: string
  job_Type :: JobType
  job_CreationTime :: int
  job_occTime :: int
  job_LastUpdateTime :: int
  job_Payload :: JobPayload
  job_Logs :: "JobLog list"
  job_LogsCount :: int
  job_NewLogs :: "JobLog list"
  job_ActiveTasks :: int
  job_FailedTasks :: int
  job_ExecutionLevel :: ExecutionLevel
  job_Waiting :: bool
  job_Tasks :: "Task list"
  job_Params :: "(persistenceState \<times> 'p) option"
  job_LockedDatasets :: "LockedDatasets list"

subsection \<open>Construction, persistence and logs\<close>

definition empty_payload :: JobPayload where
  "empty_payload = \<lparr>pay_Layout = [], pay_InstanceID = [], pay_ParamsID = [],
     pay_CollapseRecordId = []\<rparr>"

text \<open>\<^verbatim>\<open>&Job{ID: id}\<close>: every other field has its zero value (the zero time is written \<open>0\<close>).\<close>

definition NewJob :: "string \<Rightarrow> 'p Job" where
  "NewJob ident =
     \<lparr>job_ps = persistenceStateUNKNOWN, job_State = JobStateNEW, job_ID = ident,
      job_Name = [], job_Type = JobTypeCONSOLIDATION, job_CreationTime = 0,
      job_occTime = 0, job_LastUpdateTime = 0, job_Payload = empty_payload,
      job_Logs = [], job_LogsCount = 0, job_NewLogs = [], job_ActiveTasks = 0,
      job_FailedTasks = 0, job_ExecutionLevel = ExecutionSynchronous, job_Waiting = False,
      job_Tasks = [], job_Params = None, job_LockedDatasets = replicate 3 ld_zero\<rparr>"

definition NewConsolidationJob ::
  "string \<Rightarrow> int \<Rightarrow> string \<Rightarrow> string \<Rightarrow> string \<Rightarrow> string \<Rightarrow> ExecutionLevel
     \<Rightarrow> GeocubeError + 'p Job" where
  "NewConsolidationJob uuid now jobName layout instanceID collapseRecordId executionLevel =
     (if executionLevel = ExecutionSynchronous then Inl NewValidationError
      else Inr ((NewJob uuid)
        \<lparr>job_ps := persistenceStateNEW, job_Name := jobName,
         job_Type := JobTypeCONSOLIDATION, job_CreationTime := now,
         job_LastUpdateTime := now,
         job_Payload := \<lparr>pay_Layout = layout, pay_InstanceID = instanceID,
           pay_ParamsID = uuid, pay_CollapseRecordId = collapseRecordId\<rparr>,
         job_NewLogs := [\<lparr>log_Severity = INFO, log_Msg = ''Create Job Consolidation'',
           log_Status = JobState_String JobStateNEW, log_Date = now\<rparr>],
         job_ExecutionLevel := executionLevel\<rparr>))"

definition NewDeletionJob :: "string \<Rightarrow> int \<Rightarrow> string \<Rightarrow> ExecutionLevel \<Rightarrow> 'p Job" where
  "NewDeletionJob uuid now jobName executionLevel =
     (NewJob uuid)
       \<lparr>job_ps := persistenceStateNEW, job_Name := jobName, job_Type := JobTypeDELETION,
        job_CreationTime := now, job_LastUpdateTime := now,
        job_NewLogs := [\<lparr>log_Severity = INFO, log_Msg = ''Create Job Deletion'',
          log_Status = JobState_String JobStateNEW, log_Date = now\<rparr>],
        job_ExecutionLevel := executionLevel\<rparr>"

definition SetParams :: "'p Job \<Rightarrow> 'p \<Rightarrow> string + 'p Job" where
  "SetParams j params =
     (if \<not> ps_IsNew (job_ps j)
      then Inl ''job.setParams: cannot set params to a job that is not new''
      else Inr (j\<lparr>job_Params := Some (persistenceStateNEW, params)\<rparr>))"

definition job_dirty :: "int \<Rightarrow> 'p Job \<Rightarrow> string + 'p Job" where
  "job_dirty now j = bindE (ps_dirty (job_ps j)) (\<lambda>p.
     Inr (j\<lparr>job_LastUpdateTime := now, job_ps := p\<rparr>))"

definition LogMsg :: "int \<Rightarrow> 'p Job \<Rightarrow> LogSeverity \<Rightarrow> string \<Rightarrow> string + 'p Job" where
  "LogMsg now j severity msg =
     (let log = \<lparr>log_Severity = severity, log_Msg = msg,
                 log_Status = JobState_String (job_State j), log_Date = now\<rparr>
      in job_dirty now (j\<lparr>job_NewLogs := job_NewLogs j @ [log],
                          job_Logs := job_Logs j @ [log],
                          job_LogsCount := job_LogsCount j + 1\<rparr>))"

definition ClearPersistedLogs :: "'p Job \<Rightarrow> 'p Job" where
  "ClearPersistedLogs j = j\<lparr>job_NewLogs := []\<rparr>"

definition LogErr :: "int \<Rightarrow> 'p Job \<Rightarrow> string \<Rightarrow> string + 'p Job" where
  "LogErr now j err = (if err = [] then Inr j else LogMsg now j ERROR err)"

subsection \<open>Triggers\<close>

definition changeState :: "int \<Rightarrow> 'p Job \<Rightarrow> JobState \<Rightarrow> string + ('p Job \<times> bool)" where
  "changeState now j newState =
     bindE (job_dirty now (j\<lparr>job_State := newState,
              job_Waiting := job_ExecutionLevel j \<ge> info_Level (jobStateInfo newState)\<rparr>))
       (\<lambda>j'. Inr (j', True))"

text \<open>The code's \<open>LogMsg\<close> followed by \<open>changeState\<close>.\<close>

definition logThenChange ::
  "int \<Rightarrow> 'p Job \<Rightarrow> LogSeverity \<Rightarrow> string \<Rightarrow> JobState \<Rightarrow> string + ('p Job \<times> bool)" where
  "logThenChange now j severity msg newState =
     bindE (LogMsg now j severity msg) (\<lambda>j'. changeState now j' newState)"

abbreviation (input) unhandled :: "'p Job \<Rightarrow> string + ('p Job \<times> bool)" where
  "unhandled j \<equiv> Inr (j, False)"

definition triggerConsolidation ::
  "int \<Rightarrow> 'p Job \<Rightarrow> JobEvent \<Rightarrow> string + ('p Job \<times> bool)" where
  "triggerConsolidation now j evt =
     (case job_State j of
        JobStateNEW \<Rightarrow>
          (case jev_Status evt of
             CancelledByUserForced \<Rightarrow> changeState now j JobStateABORTED
           | CancelledByUser \<Rightarrow>
               (if job_Waiting j then changeState now j JobStateABORTED else unhandled j)
           | JobCreated \<Rightarrow> changeState now j JobStateCREATED
           | _ \<Rightarrow> unhandled j)
      | JobStateCREATED \<Rightarrow>
          (case jev_Status evt of
             CancelledByUserForced \<Rightarrow> changeState now j JobStateABORTED
           | CancelledByUser \<Rightarrow>
               (if job_Waiting j then changeState now j JobStateABORTED else unhandled j)
           | PrepareOrdersFailed \<Rightarrow> changeState now j JobStateINITIALISATIONFAILED
           | OrdersPrepared \<Rightarrow> changeState now j JobStateCONSOLIDATIONINPROGRESS
           | _ \<Rightarrow> unhandled j)
      | JobStateCONSOLIDATIONINPROGRESS \<Rightarrow>
          (case jev_Status evt of
             RetryForced \<Rightarrow> changeState now j JobStateCONSOLIDATIONFORCERETRYING
           | Retried \<Rightarrow> changeState now j JobStateCONSOLIDATIONRETRYING
           | CancelledByUser \<Rightarrow>
               logThenChange now j INFO ''Cancelled by user'' JobStateCONSOLIDATIONCANCELLING
           | CancelledByUserForced \<Rightarrow>
               logThenChange now j INFO ''Cancelled by user'' JobStateCONSOLIDATIONCANCELLING
           | ConsolidationFailed \<Rightarrow> changeState now j JobStateCONSOLIDATIONFAILED
           | SendOrdersFailed \<Rightarrow> changeState now j JobStateCONSOLIDATIONFAILED
           | ConsolidationDone \<Rightarrow> changeState now j JobStateCONSOLIDATIONDONE
           | _ \<Rightarrow> unhandled j)
      | JobStateCONSOLIDATIONDONE \<Rightarrow>
          (case jev_Status evt of
             CancelledByUserForced \<Rightarrow> changeState now j JobStateABORTED
           | CancelledByUser \<Rightarrow>
               (if job_Waiting j then changeState now j JobStateABORTED else unhandled j)
           | ConsolidationIndexingFailed \<Rightarrow> changeState now j JobStateCONSOLIDATIONFAILED
           | ConsolidationIndexed \<Rightarrow> changeState now j JobStateCONSOLIDATIONINDEXED
           | _ \<Rightarrow> unhandled j)
      | JobStateCONSOLIDATIONINDEXED \<Rightarrow>
          (case jev_Status evt of
             CancelledByUserForced \<Rightarrow> changeState now j JobStateABORTED
           | CancelledByUser \<Rightarrow>
               (if job_Waiting j then changeState now j JobStateABORTED else unhandled j)
           | SwapDatasetsFailed \<Rightarrow> changeState now j JobStateCONSOLIDATIONFAILED
           | DatasetsSwapped \<Rightarrow> changeState now j JobStateCONSOLIDATIONEFFECTIVE
           | _ \<Rightarrow> unhandled j)
      | JobStateCONSOLIDATIONEFFECTIVE \<Rightarrow>
          (case jev_Status evt of
             StartDeletionFailed \<Rightarrow> changeState now j JobStateDONEBUTUNTIDY
           | DeletionStarted \<Rightarrow> changeState now j JobStateDONE
           | _ \<Rightarrow> unhandled j)
      | JobStateDONE \<Rightarrow> unhandled j
      | JobStateDONEBUTUNTIDY \<Rightarrow>
          (case jev_Status evt of
             RetryForced \<Rightarrow>
               logThenChange now j INFO ''Retried by user'' JobStateCONSOLIDATIONEFFECTIVE
           | Retried \<Rightarrow>
               logThenChange now j INFO ''Retried by user'' JobStateCONSOLIDATIONEFFECTIVE
           | _ \<Rightarrow> unhandled j)
      | JobStateCONSOLIDATIONCANCELLING \<Rightarrow>
          (case jev_Status evt of
             CancellationFailed \<Rightarrow> changeState now j JobStateCANCELLATIONFAILED
           | CancellationDone \<Rightarrow> changeState now j JobStateABORTED
           | _ \<Rightarrow> unhandled j)
      | JobStateCANCELLATIONFAILED \<Rightarrow>
          (case jev_Status evt of
             Retried \<Rightarrow>
               logThenChange now j INFO ''Retried by user'' JobStateCONSOLIDATIONCANCELLING
           | RetryForced \<Rightarrow>
               logThenChange now j INFO ''Retried by user'' JobStateCONSOLIDATIONCANCELLING
           | _ \<Rightarrow> unhandled j)
      | JobStateINITIALISATIONFAILED \<Rightarrow>
          (case jev_Status evt of
             Retried \<Rightarrow> logThenChange now j INFO ''Retried by user'' JobStateCREATED
           | RetryForced \<Rightarrow> logThenChange now j INFO ''Retried by user'' JobStateCREATED
           | CancelledByUser \<Rightarrow> changeState now j JobStateABORTED
           | CancelledByUserForced \<Rightarrow> changeState now j JobStateABORTED
           | _ \<Rightarrow> unhandled j)
      | JobStateCONSOLIDATIONFAILED \<Rightarrow>
          (case jev_Status evt of
             Retried \<Rightarrow> changeState now j JobStateCONSOLIDATIONRETRYING
           | RetryForced \<Rightarrow> changeState now j JobStateCONSOLIDATIONRETRYING
           | CancelledByUser \<Rightarrow> changeState now j JobStateABORTED
           | CancelledByUserForced \<Rightarrow> changeState now j JobStateABORTED
           | _ \<Rightarrow> unhandled j)
      | JobStateABORTED \<Rightarrow>
          (case jev_Status evt of
             RollbackFailed \<Rightarrow> changeState now j JobStateROLLBACKFAILED
           | RollbackDone \<Rightarrow> changeState now j JobStateFAILED
           | _ \<Rightarrow> unhandled j)
      | JobStateROLLBACKFAILED \<Rightarrow>
          (case jev_Status evt of
             RetryForced \<Rightarrow> logThenChange now j INFO ''Retried by user'' JobStateABORTED
           | Retried \<Rightarrow> logThenChange now j INFO ''Retried by user'' JobStateABORTED
           | CancelledByUserForced \<Rightarrow> changeState now j JobStateFAILED
           | _ \<Rightarrow> unhandled j)
      | JobStateCONSOLIDATIONRETRYING \<Rightarrow>
          (case jev_Status evt of
             ConsolidationRetryFailed \<Rightarrow> changeState now j JobStateCONSOLIDATIONFAILED
           | OrdersPrepared \<Rightarrow> changeState now j JobStateCONSOLIDATIONINPROGRESS
           | _ \<Rightarrow> unhandled j)
      | JobStateCONSOLIDATIONFORCERETRYING \<Rightarrow>
          (case jev_Status evt of
             ConsolidationRetryFailed \<Rightarrow> changeState now j JobStateCONSOLIDATIONFAILED
           | OrdersPrepared \<Rightarrow> changeState now j JobStateCONSOLIDATIONINPROGRESS
           | _ \<Rightarrow> unhandled j)
      | JobStateFAILED \<Rightarrow> unhandled j
      | _ \<Rightarrow> Inl (''trigger: Unknown state :'' @ JobState_String (job_State j)))"

definition triggerDeletion ::
  "int \<Rightarrow> 'p Job \<Rightarrow> JobEvent \<Rightarrow> string + ('p Job \<times> bool)" where
  "triggerDeletion now j evt =
     (case job_State j of
        JobStateNEW \<Rightarrow>
          (case jev_Status evt of
             CancelledByUserForced \<Rightarrow> changeState now j JobStateABORTED
           | CancelledByUser \<Rightarrow>
               (if job_Waiting j then changeState now j JobStateABORTED else unhandled j)
           | JobCreated \<Rightarrow> changeState now j JobStateCREATED
           | _ \<Rightarrow> unhandled j)
      | JobStateCREATED \<Rightarrow>
          (case jev_Status evt of
             CancelledByUserForced \<Rightarrow> changeState now j JobStateABORTED
           | CancelledByUser \<Rightarrow>
               (if job_Waiting j then changeState now j JobStateABORTED else unhandled j)
           | DeletionNotReady \<Rightarrow> changeState now j JobStateINITIALISATIONFAILED
           | DeletionReady \<Rightarrow> changeState now j JobStateDELETIONINPROGRESS
           | _ \<Rightarrow> unhandled j)
      | JobStateDELETIONINPROGRESS \<Rightarrow>
          (case jev_Status evt of
             CancelledByUserForced \<Rightarrow> changeState now j JobStateABORTED
           | CancelledByUser \<Rightarrow>
               (if job_Waiting j then changeState now j JobStateABORTED else unhandled j)
           | RemovalFailed \<Rightarrow> changeState now j JobStateDELETIONFAILED
           | RemovalDone \<Rightarrow> changeState now j JobStateDELETIONEFFECTIVE
           | _ \<Rightarrow> unhandled j)
      | JobStateDELETIONEFFECTIVE \<Rightarrow>
          (case jev_Status evt of
             CancelledByUserForced \<Rightarrow>
               bindE (if \<not> job_Waiting j
                      then LogMsg now j WARN
                        ''Deletion has been cancelled, but files may have already been deleted''
                      else Inr j)
                 (\<lambda>j'. changeState now j' JobStateABORTED)
           | DeletionFailed \<Rightarrow> changeState now j JobStateDONEBUTUNTIDY
           | DeletionDone \<Rightarrow> changeState now j JobStateDONE
           | _ \<Rightarrow> unhandled j)
      | JobStateDONE \<Rightarrow> unhandled j
      | JobStateDONEBUTUNTIDY \<Rightarrow>
          (case jev_Status evt of
             RetryForced \<Rightarrow>
               logThenChange now j INFO ''Retried by user'' JobStateDELETIONEFFECTIVE
           | _ \<Rightarrow> unhandled j)
      | JobStateDELETIONFAILED \<Rightarrow>
          (case jev_Status evt of
             Retried \<Rightarrow>
               logThenChange now j INFO ''Retried by user'' JobStateDELETIONINPROGRESS
           | RetryForced \<Rightarrow>
               logThenChange now j INFO ''Retried by user'' JobStateDELETIONINPROGRESS
           | CancelledByUser \<Rightarrow> changeState now j JobStateABORTED
           | CancelledByUserForced \<Rightarrow> changeState now j JobStateABORTED
           | _ \<Rightarrow> unhandled j)
      | JobStateABORTED \<Rightarrow>
          (case jev_Status evt of
             RollbackFailed \<Rightarrow> changeState now j JobStateROLLBACKFAILED
           | RollbackDone \<Rightarrow> changeState now j JobStateFAILED
           | _ \<Rightarrow> unhandled j)
      | JobStateROLLBACKFAILED \<Rightarrow>
          (case jev_Status evt of
             RetryForced \<Rightarrow> logThenChange now j INFO ''Retried by user'' JobStateABORTED
           | Retried \<Rightarrow> logThenChange now j INFO ''Retried by user'' JobStateABORTED
           | CancelledByUserForced \<Rightarrow> changeState now j JobStateFAILED
           | _ \<Rightarrow> unhandled j)
      | JobStateINITIALISATIONFAILED \<Rightarrow>
          (case jev_Status evt of
             RetryForced \<Rightarrow> logThenChange now j INFO ''Retried by user'' JobStateCREATED
           | Retried \<Rightarrow> logThenChange now j INFO ''Retried by user'' JobStateCREATED
           | CancelledByUserForced \<Rightarrow> changeState now j JobStateFAILED
           | _ \<Rightarrow> unhandled j)
      | JobStateFAILED \<Rightarrow> unhandled j
      | _ \<Rightarrow> Inl (''trigger: Unknown state :'' @ JobState_String (job_State j)))"

definition triggerIngestion :: "'p Job \<Rightarrow> JobEvent \<Rightarrow> string + ('p Job \<times> bool)" where
  "triggerIngestion j evt = Inl ''TODO Ingestion Not Implemented''"

definition dispatch :: "int \<Rightarrow> 'p Job \<Rightarrow> JobEvent \<Rightarrow> string + ('p Job \<times> bool)" where
  "dispatch now j evt =
     (case job_Type j of
        JobTypeCONSOLIDATION \<Rightarrow> triggerConsolidation now j evt
      | JobTypeDELETION \<Rightarrow> triggerDeletion now j evt
      | JobTypeINGESTION \<Rightarrow> triggerIngestion j evt)"

text \<open>The first half of \<open>Trigger\<close>: the job after the event, and whether it was handled.\<close>

definition handleEvent :: "int \<Rightarrow> 'p Job \<Rightarrow> JobEvent \<Rightarrow> string + ('p Job \<times> bool)" where
  "handleEvent now j evt =
     (if jev_Status evt = Continue
      then (if job_Waiting j
            then bindE (job_dirty now (j\<lparr>job_Waiting := False\<rparr>)) (\<lambda>j'. Inr (j', True))
            else Inr (j, False))
      else if jev_Status evt = RetryForced \<and> info_RetryForced (jobStateInfo (job_State j))
      then bindE (LogMsg now j INFO ''Retried by user'') (\<lambda>j'. Inr (j', True))
      else bindE (if jev_Error evt \<noteq> [] then LogErr now j (jev_Error evt) else Inr j)
             (\<lambda>j'. dispatch now j' evt))"

text \<open>
  The second half: announce the new state, or report the event as unhandled.  The job is
  returned with the error: an event that is not handled may still have appended its error
  to the log.
\<close>

definition announce ::
  "int \<Rightarrow> 'p Job \<times> bool \<Rightarrow> string + ('p Job \<times> GeocubeError option)" where
  "announce now = (\<lambda>(j, handled).
     if handled
     then bindE (if job_Waiting j
                 then LogMsg now j INFO (''New state: '' @ JobState_String (job_State j)
                        @ '': waiting for user action'')
                 else LogMsg now j INFO (''New state: '' @ JobState_String (job_State j)))
            (\<lambda>j'. Inr (j', None))
     else Inr (j, Some NewUnhandledEvent))"

definition Trigger ::
  "int \<Rightarrow> 'p Job \<Rightarrow> JobEvent \<Rightarrow> string + ('p Job \<times> GeocubeError option)" where
  "Trigger now j evt = bindE (handleEvent now j evt) (announce now)"

subsection \<open>Tasks\<close>

text \<open>The code holds tasks by pointer; the model holds the position in the slice.\<close>

definition CreateConsolidationTask ::
  "int \<Rightarrow> (string \<Rightarrow> 'v \<Rightarrow> string + string) \<Rightarrow> string \<Rightarrow> 'p Job \<Rightarrow> 'v
     \<Rightarrow> string + ('p Job \<times> string option)" where
  "CreateConsolidationTask now marshal uuid j evt =
     (case newConsolidationTask marshal uuid evt of
        Inl err \<Rightarrow> Inr (j, Some err)
      | Inr t \<Rightarrow>
          bindE (job_dirty now (j\<lparr>job_ActiveTasks := job_ActiveTasks j + 1,
                                   job_Tasks := job_Tasks j @ [t]\<rparr>))
            (\<lambda>j'. Inr (j', None)))"

definition CreateDeletionTask :: "int \<Rightarrow> string \<Rightarrow> 'p Job \<Rightarrow> string \<Rightarrow> string + 'p Job" where
  "CreateDeletionTask now uuid j containerURI =
     job_dirty now (j\<lparr>job_ActiveTasks := job_ActiveTasks j + 1,
                      job_Tasks := job_Tasks j @ [newDeletionTask uuid containerURI]\<rparr>)"

definition updateTaskCounters :: "int \<Rightarrow> 'p Job \<Rightarrow> TaskState \<Rightarrow> int \<Rightarrow> string + 'p Job" where
  "updateTaskCounters now j state inc =
     bindE (case state of
              TaskStatePENDING \<Rightarrow> job_dirty now (j\<lparr>job_ActiveTasks := job_ActiveTasks j + inc\<rparr>)
            | TaskStateNEW \<Rightarrow> job_dirty now (j\<lparr>job_ActiveTasks := job_ActiveTasks j + inc\<rparr>)
            | TaskStateFAILED \<Rightarrow> job_dirty now (j\<lparr>job_FailedTasks := job_FailedTasks j + inc\<rparr>)
            | _ \<Rightarrow> Inr j)
       (\<lambda>j'. if job_ActiveTasks j' < 0 then Inl ''Active tasks number cannot be negative''
             else if job_FailedTasks j' < 0 then Inl ''Failed tasks number cannot be negative''
             else Inr j')"

definition setTaskState ::
  "int \<Rightarrow> 'p Job \<Rightarrow> nat \<Rightarrow> TaskState \<Rightarrow> string + ('p Job \<times> bool)" where
  "setTaskState now j i newState =
     bindE (task_setState (job_Tasks j ! i) newState) (\<lambda>(t, changed).
       if changed
       then let oldState = task_State (job_Tasks j ! i) in
            bindE (updateTaskCounters now (j\<lparr>job_Tasks := (job_Tasks j)[i := t]\<rparr>) oldState (-1))
              (\<lambda>j'. bindE (updateTaskCounters now j' newState 1) (\<lambda>j''. Inr (j'', True)))
       else Inr (j, False))"

fun task_index :: "Task list \<Rightarrow> string \<Rightarrow> nat option" where
  "task_index [] taskID = None"
| "task_index (t # ts) taskID =
     (if task_ID t = taskID then Some 0 else map_option Suc (task_index ts taskID))"

definition UpdateTask ::
  "int \<Rightarrow> 'p Job \<Rightarrow> TaskEvent \<Rightarrow> string + ('p Job \<times> GeocubeError option)" where
  "UpdateTask now j evt =
     (case task_index (job_Tasks j) (tev_TaskID evt) of
        None \<Rightarrow> Inr (j, Some (NewEntityNotFound ''Task'' ''id'' (tev_TaskID evt)))
      | Some i \<Rightarrow>
          let task = job_Tasks j ! i; newState = taskStateFromStatus (tev_Status evt);
              refuse = bindE (TaskStatus_String (tev_Status evt))
                         (\<lambda>_. Inr (j, Some NewUnhandledEvent))
          in if newState = task_State task then Inr (j, None)
             else if job_State j \<noteq> JobStateCONSOLIDATIONINPROGRESS
                   \<and> job_State j \<noteq> JobStateDELETIONEFFECTIVE
                   \<and> job_State j \<noteq> JobStateCONSOLIDATIONCANCELLING
             then refuse
             else if task_State task = TaskStateDONE then refuse
             else if (task_State task = TaskStateFAILED \<or> task_State task = TaskStateCANCELLED)
                     \<and> newState \<noteq> TaskStateDONE
             then Inr (j, None)
             else bindE (setTaskState now j i newState) (\<lambda>(j', _).
                    bindE (if newState = TaskStateFAILED
                           then LogErr now j' (''Task '' @ tev_TaskID evt @ '' failed: ''
                                  @ tev_Error evt)
                           else Inr j')
                      (\<lambda>j''. Inr (j'', None))))"

definition task_contains :: "TaskState \<Rightarrow> TaskState list \<Rightarrow> bool" where
  "task_contains status listStatus = list_ex (\<lambda>s. status = s) listStatus"

text \<open>A \<open>nil\<close> slice of states is \<open>None\<close>: every task is reset.\<close>

definition ResetTasks :: "int \<Rightarrow> 'p Job \<Rightarrow> TaskState list option \<Rightarrow> string + 'p Job" where
  "ResetTasks now j states =
     foldE (\<lambda>i j.
        if (case states of None \<Rightarrow> True
            | Some l \<Rightarrow> task_contains (task_State (job_Tasks j ! i)) l)
        then bindE (setTaskState now j i TaskStateNEW) (\<lambda>(j', _). Inr j')
        else Inr j) [0..<length (job_Tasks j)] j"

definition CancelTask :: "int \<Rightarrow> 'p Job \<Rightarrow> nat \<Rightarrow> string + 'p Job" where
  "CancelTask now j index =
     (if index < length (job_Tasks j)
      then bindE (setTaskState now j index TaskStateCANCELLED) (\<lambda>(j', _). Inr j')
      else Inl ''index out of range'')"

definition DeleteTask :: "int \<Rightarrow> 'p Job \<Rightarrow> nat \<Rightarrow> string + 'p Job" where
  "DeleteTask now j index =
     (if index < length (job_Tasks j)
      then bindE (if ps_IsActive (task_ps (job_Tasks j ! index))
                  then bindE (setTaskState now j index TaskStateCANCELLED) (\<lambda>(j', _). Inr j')
                  else Inr j)
             (\<lambda>j'. bindE (ps_toDelete (task_ps (job_Tasks j' ! index))) (\<lambda>p.
                Inr (j'\<lparr>job_Tasks :=
                       (job_Tasks j')[index := (job_Tasks j' ! index)\<lparr>task_ps := p\<rparr>]\<rparr>)))
      else Inl ''index out of range'')"

definition DeleteAllTasks :: "int \<Rightarrow> 'p Job \<Rightarrow> string + 'p Job" where
  "DeleteAllTasks now j = foldE (\<lambda>i j. DeleteTask now j i) [0..<length (job_Tasks j)] j"

subsection \<open>Dataset locks, deletion and cleaning\<close>

definition LockDatasets :: "'p Job \<Rightarrow> string list \<Rightarrow> LockFlag \<Rightarrow> string + 'p Job" where
  "LockDatasets j datasetsID flag =
     (if flag = LockFlagALL \<or> datasetsID = [] then Inr j
      else let i = nat (LockFlag_index flag); l = job_LockedDatasets j ! i in
           bindE (ps_dirty (ld_ps l)) (\<lambda>p.
             Inr (j\<lparr>job_LockedDatasets := (job_LockedDatasets j)[i :=
                    \<lparr>ld_ps = p,
                     ld_newDatasetsID = Some (fold insert datasetsID
                       (case ld_newDatasetsID l of None \<Rightarrow> {} | Some s \<Rightarrow> s))\<rparr>]\<rparr>)))"

definition ld_toDelete :: "'p Job \<Rightarrow> nat \<Rightarrow> string + 'p Job" where
  "ld_toDelete j i =
     bindE (ps_toDelete (ld_ps (job_LockedDatasets j ! i))) (\<lambda>p.
       Inr (j\<lparr>job_LockedDatasets :=
              (job_LockedDatasets j)[i := (job_LockedDatasets j ! i)\<lparr>ld_ps := p\<rparr>]\<rparr>))"

definition ReleaseDatasets :: "'p Job \<Rightarrow> LockFlag \<Rightarrow> string + 'p Job" where
  "ReleaseDatasets j flag =
     (if flag = LockFlagALL
      then foldE (\<lambda>i j. ld_toDelete j i) [0..<length (job_LockedDatasets j)] j
      else ld_toDelete j (nat (LockFlag_index flag)))"

definition ld_Clean :: "LockedDatasets \<Rightarrow> string + LockedDatasets" where
  "ld_Clean l = bindE (ps_Clean (ld_ps l)) (\<lambda>p. Inr \<lparr>ld_ps = p, ld_newDatasetsID = None\<rparr>)"

definition NewIDs :: "LockedDatasets \<Rightarrow> string set" where
  "NewIDs l = (case ld_newDatasetsID l of None \<Rightarrow> {} | Some s \<Rightarrow> s)"

definition job_Clean :: "'p Job \<Rightarrow> bool \<Rightarrow> string + 'p Job" where
  "job_Clean j all =
     bindE (if all
            then bindE (foldE (\<lambda>i j. bindE (ld_Clean (job_LockedDatasets j ! i)) (\<lambda>l.
                          Inr (j\<lparr>job_LockedDatasets := (job_LockedDatasets j)[i := l]\<rparr>)))
                        [0..<length (job_LockedDatasets j)] j)
                   (\<lambda>j1. foldE (\<lambda>i j. bindE (ps_Clean (task_ps (job_Tasks j ! i))) (\<lambda>p.
                           Inr (j\<lparr>job_Tasks :=
                                  (job_Tasks j)[i := (job_Tasks j ! i)\<lparr>task_ps := p\<rparr>]\<rparr>)))
                         [0..<length (job_Tasks j1)] j1)
            else Inr j)
       (\<lambda>j2. bindE (ps_Clean (job_ps j2)) (\<lambda>p.
          Inr (j2\<lparr>job_occTime := job_LastUpdateTime j2, job_ps := p\<rparr>)))"

text \<open>
  The loop of \<open>ToDelete\<close>: at the first active task the operation returns \<open>false\<close> unless
  \<open>all\<close>; the tasks before it have not been touched then.
\<close>

fun mark_tasks :: "bool \<Rightarrow> Task list \<Rightarrow> string + (Task list option)" where
  "mark_tasks all [] = Inr (Some [])"
| "mark_tasks all (t # ts) =
     (if ps_IsActive (task_ps t)
      then (if \<not> all then Inr None
            else bindE (ps_toDelete (task_ps t)) (\<lambda>p.
                   bindE (mark_tasks all ts) (\<lambda>r.
                     Inr (map_option (\<lambda>ts'. t\<lparr>task_ps := p\<rparr> # ts') r))))
      else bindE (mark_tasks all ts) (\<lambda>r. Inr (map_option (\<lambda>ts'. t # ts') r)))"

definition job_ToDelete :: "'p Job \<Rightarrow> bool \<Rightarrow> string + ('p Job \<times> bool)" where
  "job_ToDelete j all =
     bindE (mark_tasks all (job_Tasks j)) (\<lambda>r.
       case r of
         None \<Rightarrow> Inr (j, False)
       | Some ts \<Rightarrow>
           bindE (ReleaseDatasets (j\<lparr>job_Tasks := ts\<rparr>) LockFlagALL) (\<lambda>j1.
             bindE (ps_toDelete (job_ps j1)) (\<lambda>p. Inr (j1\<lparr>job_ps := p\<rparr>, True))))"

end
