(* ===== verification/Job_Lifecycle.thy ===== *)
theory Job_Lifecycle
  imports Jobs "HOL-Library.Sublist"
begin

text \<open>
  The life cycle of a job.  The two state machines of \<^verbatim>\<open>job.go\<close> are given as abstract automata
  (\<open>consolidation_edges\<close>, \<open>deletion_edges\<close>, \<open>job_step\<close>), \<open>Trigger\<close> is shown to implement them,
  and the properties of runs follow: no sequence of events makes a job panic, the two
  terminal states are final, a consolidation that is done went through every stage, a
  consolidation whose datasets are swapped is never rolled back, and a job can always be
  brought to an end.
\<close>

section \<open>What a trigger does\<close>

lemma ps_dirty_alive:
  "p \<noteq> persistenceStateDELETED \<Longrightarrow> \<exists>q. ps_dirty p = Inr q \<and> q \<noteq> persistenceStateDELETED"
  by (auto simp: ps_dirty_def mustNotBeDeleted_def)

lemma ps_dirty_deleted [simp]: "ps_dirty persistenceStateDELETED = Inl ''Entity is deleted''"
  by (simp add: ps_dirty_def mustNotBeDeleted_def)

text \<open>The fields that neither logging nor a change of state may touch.\<close>

definition same_frame :: "'p Job \<Rightarrow> 'p Job \<Rightarrow> bool" where
  "same_frame j j' \<longleftrightarrow>
     job_ID j' = job_ID j \<and> job_Name j' = job_Name j \<and> job_Type j' = job_Type j
   \<and> job_CreationTime j' = job_CreationTime j \<and> job_occTime j' = job_occTime j
   \<and> job_Payload j' = job_Payload j \<and> job_ActiveTasks j' = job_ActiveTasks j
   \<and> job_FailedTasks j' = job_FailedTasks j \<and> job_ExecutionLevel j' = job_ExecutionLevel j
   \<and> job_Tasks j' = job_Tasks j \<and> job_Params j' = job_Params j
   \<and> job_LockedDatasets j' = job_LockedDatasets j"

lemma same_frame_refl [simp]: "same_frame j j"
  by (simp add: same_frame_def)

lemma same_frame_trans [trans]: "same_frame i j \<Longrightarrow> same_frame j k \<Longrightarrow> same_frame i k"
  by (simp add: same_frame_def)

abbreviation alive :: "'p Job \<Rightarrow> bool" where
  "alive j \<equiv> job_ps j \<noteq> persistenceStateDELETED"

text \<open>A job after logging: same state, same frame, log lists one entry longer.\<close>

definition logged :: "'p Job \<Rightarrow> 'p Job \<Rightarrow> bool" where
  "logged j j' \<longleftrightarrow> alive j' \<and> same_frame j j' \<and> job_State j' = job_State j
     \<and> job_Waiting j' = job_Waiting j"

lemma LogMsg_alive:
  assumes "alive j"
  shows "\<exists>j'. LogMsg now j sev msg = Inr j' \<and> logged j j'
           \<and> job_LogsCount j' = job_LogsCount j + 1
           \<and> job_Logs j' = job_Logs j @ [\<lparr>log_Severity = sev, log_Msg = msg,
                log_Status = JobState_String (job_State j), log_Date = now\<rparr>]"
  using ps_dirty_alive [OF assms]
  by (auto simp: LogMsg_def job_dirty_def Let_def logged_def same_frame_def)

lemma LogErr_alive: "alive j \<Longrightarrow> \<exists>j'. LogErr now j err = Inr j' \<and> logged j j'"
  using LogMsg_alive [of j now ERROR err] by (auto simp: LogErr_def logged_def)

text \<open>A job moved to a state: the pause is decided by the execution level.\<close>

definition moved :: "'p Job \<Rightarrow> JobState \<Rightarrow> 'p Job \<Rightarrow> bool" where
  "moved j s j' \<longleftrightarrow> alive j' \<and> same_frame j j' \<and> job_State j' = s
     \<and> job_Waiting j' = (job_ExecutionLevel j \<ge> info_Level (jobStateInfo s))"

lemma changeState_alive:
  assumes "alive j"
  shows "\<exists>j'. changeState now j s = Inr (j', True) \<and> moved j s j'"
  using ps_dirty_alive [OF assms]
  by (auto simp: changeState_def job_dirty_def moved_def same_frame_def)

lemma moved_after_log: "logged i j \<Longrightarrow> moved j s k \<Longrightarrow> moved i s k"
  by (auto simp: logged_def moved_def same_frame_def)

lemma logThenChange_alive:
  assumes "alive j"
  shows "\<exists>j'. logThenChange now j sev msg s = Inr (j', True) \<and> moved j s j'"
proof -
  obtain k where k: "LogMsg now j sev msg = Inr k" "logged j k"
    using LogMsg_alive [OF assms] by blast
  then obtain l where "changeState now k s = Inr (l, True)" "moved k s l"
    using changeState_alive by (metis logged_def)
  with k show ?thesis by (auto simp: logThenChange_def intro: moved_after_log)
qed

subsection \<open>The life cycles as automata\<close>

text \<open>
  The abstract specification of the two state machines: for each kind of job the edges
  (state, event, next state).
\<close>

definition consolidation_edges :: "(JobState \<times> JobStatus \<times> JobState) set" where
  "consolidation_edges = {
     (JobStateNEW, JobCreated, JobStateCREATED),
     (JobStateNEW, CancelledByUser, JobStateABORTED),
     (JobStateNEW, CancelledByUserForced, JobStateABORTED),
     (JobStateCREATED, OrdersPrepared, JobStateCONSOLIDATIONINPROGRESS),
     (JobStateCREATED, PrepareOrdersFailed, JobStateINITIALISATIONFAILED),
     (JobStateCREATED, CancelledByUser, JobStateABORTED),
     (JobStateCREATED, CancelledByUserForced, JobStateABORTED),
     (JobStateINITIALISATIONFAILED, Retried, JobStateCREATED),
     (JobStateINITIALISATIONFAILED, RetryForced, JobStateCREATED),
     (JobStateINITIALISATIONFAILED, CancelledByUser, JobStateABORTED),
     (JobStateINITIALISATIONFAILED, CancelledByUserForced, JobStateABORTED),
     (JobStateCONSOLIDATIONINPROGRESS, ConsolidationDone, JobStateCONSOLIDATIONDONE),
     (JobStateCONSOLIDATIONINPROGRESS, ConsolidationFailed, JobStateCONSOLIDATIONFAILED),
     (JobStateCONSOLIDATIONINPROGRESS, SendOrdersFailed, JobStateCONSOLIDATIONFAILED),
     (JobStateCONSOLIDATIONINPROGRESS, Retried, JobStateCONSOLIDATIONRETRYING),
     (JobStateCONSOLIDATIONINPROGRESS, RetryForced, JobStateCONSOLIDATIONFORCERETRYING),
     (JobStateCONSOLIDATIONINPROGRESS, CancelledByUser, JobStateCONSOLIDATIONCANCELLING),
     (JobStateCONSOLIDATIONINPROGRESS, CancelledByUserForced, JobStateCONSOLIDATIONCANCELLING),
     (JobStateCONSOLIDATIONRETRYING, OrdersPrepared, JobStateCONSOLIDATIONINPROGRESS),
     (JobStateCONSOLIDATIONRETRYING, ConsolidationRetryFailed, JobStateCONSOLIDATIONFAILED),
     (JobStateCONSOLIDATIONFORCERETRYING, OrdersPrepared, JobStateCONSOLIDATIONINPROGRESS),
     (JobStateCONSOLIDATIONFORCERETRYING, ConsolidationRetryFailed, JobStateCONSOLIDATIONFAILED),
     (JobStateCONSOLIDATIONFAILED, Retried, JobStateCONSOLIDATIONRETRYING),
     (JobStateCONSOLIDATIONFAILED, RetryForced, JobStateCONSOLIDATIONRETRYING),
     (JobStateCONSOLIDATIONFAILED, CancelledByUser, JobStateABORTED),
     (JobStateCONSOLIDATIONFAILED, CancelledByUserForced, JobStateABORTED),
     (JobStateCONSOLIDATIONCANCELLING, CancellationDone, JobStateABORTED),
     (JobStateCONSOLIDATIONCANCELLING, CancellationFailed, JobStateCANCELLATIONFAILED),
     (JobStateCANCELLATIONFAILED, Retried, JobStateCONSOLIDATIONCANCELLING),
     (JobStateCANCELLATIONFAILED, RetryForced, JobStateCONSOLIDATIONCANCELLING),
     (JobStateCONSOLIDATIONDONE, ConsolidationIndexed, JobStateCONSOLIDATIONINDEXED),
     (JobStateCONSOLIDATIONDONE, ConsolidationIndexingFailed, JobStateCONSOLIDATIONFAILED),
     (JobStateCONSOLIDATIONDONE, CancelledByUser, JobStateABORTED),
     (JobStateCONSOLIDATIONDONE, CancelledByUserForced, JobStateABORTED),
     (JobStateCONSOLIDATIONINDEXED, DatasetsSwapped, JobStateCONSOLIDATIONEFFECTIVE),
     (JobStateCONSOLIDATIONINDEXED, SwapDatasetsFailed, JobStateCONSOLIDATIONFAILED),
     (JobStateCONSOLIDATIONINDEXED, CancelledByUser, JobStateABORTED),
     (JobStateCONSOLIDATIONINDEXED, CancelledByUserForced, JobStateABORTED),
     (JobStateCONSOLIDATIONEFFECTIVE, DeletionStarted, JobStateDONE),
     (JobStateCONSOLIDATIONEFFECTIVE, StartDeletionFailed, JobStateDONEBUTUNTIDY),
     (JobStateDONEBUTUNTIDY, Retried, JobStateCONSOLIDATIONEFFECTIVE),
     (JobStateDONEBUTUNTIDY, RetryForced, JobStateCONSOLIDATIONEFFECTIVE),
     (JobStateABORTED, RollbackDone, JobStateFAILED),
     (JobStateABORTED, RollbackFailed, JobStateROLLBACKFAILED),
     (JobStateROLLBACKFAILED, Retried, JobStateABORTED),
     (JobStateROLLBACKFAILED, RetryForced, JobStateABORTED),
     (JobStateROLLBACKFAILED, CancelledByUserForced, JobStateFAILED)}"

definition deletion_edges :: "(JobState \<times> JobStatus \<times> JobState) set" where
  "deletion_edges = {
     (JobStateNEW, JobCreated, JobStateCREATED),
     (JobStateNEW, CancelledByUser, JobStateABORTED),
     (JobStateNEW, CancelledByUserForced, JobStateABORTED),
     (JobStateCREATED, DeletionReady, JobStateDELETIONINPROGRESS),
     (JobStateCREATED, DeletionNotReady, JobStateINITIALISATIONFAILED),
     (JobStateCREATED, CancelledByUser, JobStateABORTED),
     (JobStateCREATED, CancelledByUserForced, JobStateABORTED),
     (JobStateINITIALISATIONFAILED, Retried, JobStateCREATED),
     (JobStateINITIALISATIONFAILED, RetryForced, JobStateCREATED),
     (JobStateINITIALISATIONFAILED, CancelledByUserForced, JobStateFAILED),
     (JobStateDELETIONINPROGRESS, RemovalDone, JobStateDELETIONEFFECTIVE),
     (JobStateDELETIONINPROGRESS, RemovalFailed, JobStateDELETIONFAILED),
     (JobStateDELETIONINPROGRESS, CancelledByUser, JobStateABORTED),
     (JobStateDELETIONINPROGRESS, CancelledByUserForced, JobStateABORTED),
     (JobStateDELETIONFAILED, Retried, JobStateDELETIONINPROGRESS),
     (JobStateDELETIONFAILED, RetryForced, JobStateDELETIONINPROGRESS),
     (JobStateDELETIONFAILED, CancelledByUser, JobStateABORTED),
     (JobStateDELETIONFAILED, CancelledByUserForced, JobStateABORTED),
     (JobStateDELETIONEFFECTIVE, DeletionDone, JobStateDONE),
     (JobStateDELETIONEFFECTIVE, DeletionFailed, JobStateDONEBUTUNTIDY),
     (JobStateDELETIONEFFECTIVE, CancelledByUserForced, JobStateABORTED),
     (JobStateDONEBUTUNTIDY, RetryForced, JobStateDELETIONEFFECTIVE),
     (JobStateABORTED, RollbackDone, JobStateFAILED),
     (JobStateABORTED, RollbackFailed, JobStateROLLBACKFAILED),
     (JobStateROLLBACKFAILED, Retried, JobStateABORTED),
     (JobStateROLLBACKFAILED, RetryForced, JobStateABORTED),
     (JobStateROLLBACKFAILED, CancelledByUserForced, JobStateFAILED)}"

fun job_edges :: "JobType \<Rightarrow> (JobState \<times> JobStatus \<times> JobState) set" where
  "job_edges JobTypeCONSOLIDATION = consolidation_edges"
| "job_edges JobTypeDELETION = deletion_edges"
| "job_edges JobTypeINGESTION = {}"

text \<open>The states of each kind of job: the others make the trigger panic.\<close>

definition deletion_only :: "JobState set" where
  "deletion_only =
     {JobStateDELETIONINPROGRESS, JobStateDELETIONEFFECTIVE, JobStateDELETIONFAILED}"

definition consolidation_only :: "JobState set" where
  "consolidation_only =
     {JobStateCONSOLIDATIONINPROGRESS, JobStateCONSOLIDATIONDONE, JobStateCONSOLIDATIONINDEXED,
      JobStateCONSOLIDATIONEFFECTIVE, JobStateCONSOLIDATIONFAILED,
      JobStateCONSOLIDATIONRETRYING, JobStateCONSOLIDATIONFORCERETRYING,
      JobStateCONSOLIDATIONCANCELLING, JobStateCANCELLATIONFAILED}"

fun foreign_states :: "JobType \<Rightarrow> JobState set" where
  "foreign_states JobTypeCONSOLIDATION = deletion_only"
| "foreign_states JobTypeDELETION = consolidation_only"
| "foreign_states JobTypeINGESTION = UNIV"

text \<open>
  The states in which the user can cancel a job only while it is paused; elsewhere the edge for
  \<open>CancelledByUser\<close> is always open.
\<close>

fun cancel_if_paused :: "JobType \<Rightarrow> JobState set" where
  "cancel_if_paused JobTypeCONSOLIDATION =
     {JobStateNEW, JobStateCREATED, JobStateCONSOLIDATIONDONE, JobStateCONSOLIDATIONINDEXED}"
| "cancel_if_paused JobTypeDELETION = {JobStateNEW, JobStateCREATED, JobStateDELETIONINPROGRESS}"
| "cancel_if_paused JobTypeINGESTION = {}"

definition open_edge :: "JobType \<Rightarrow> JobState \<times> bool \<Rightarrow> JobStatus \<Rightarrow> JobState \<Rightarrow> bool" where
  "open_edge ty = (\<lambda>(s, paused) e s'. (s, e, s') \<in> job_edges ty
     \<and> (e = CancelledByUser \<and> s \<in> cancel_if_paused ty \<longrightarrow> paused))"

abbreviation config :: "'p Job \<Rightarrow> JobState \<times> bool" where
  "config j \<equiv> (job_State j, job_Waiting j)"

lemma triggerConsolidation_effect:
  assumes "alive j" and "job_State j \<notin> deletion_only"
  shows "(\<exists>j' s. triggerConsolidation now j evt = Inr (j', True) \<and> moved j s j'
            \<and> open_edge JobTypeCONSOLIDATION (config j) (jev_Status evt) s)
       \<or> triggerConsolidation now j evt = Inr (j, False)
          \<and> (\<forall>s. \<not> open_edge JobTypeCONSOLIDATION (config j) (jev_Status evt) s)"
  using assms changeState_alive [OF assms(1), of now] logThenChange_alive [OF assms(1), of now]
  by (cases "job_State j"; simp add: triggerConsolidation_def consolidation_edges_def deletion_only_def open_edge_def;
      cases "jev_Status evt"; simp)

lemma triggerDeletion_effect:
  assumes "alive j" and "job_State j \<notin> consolidation_only"
  shows "(\<exists>j' s. triggerDeletion now j evt = Inr (j', True) \<and> moved j s j'
            \<and> open_edge JobTypeDELETION (config j) (jev_Status evt) s)
       \<or> triggerDeletion now j evt = Inr (j, False)
          \<and> (\<forall>s. \<not> open_edge JobTypeDELETION (config j) (jev_Status evt) s)"
  using assms changeState_alive [OF assms(1), of now] logThenChange_alive [OF assms(1), of now]
    logThenChange_alive [OF assms(1), of now, unfolded logThenChange_def]
  by (cases "job_State j"; simp add: triggerDeletion_def deletion_edges_def consolidation_only_def open_edge_def;
      cases "jev_Status evt"; simp)

text \<open>A job that its own triggers accept: not deleted, and in a state of its kind.\<close>

definition job_ok :: "'p Job \<Rightarrow> bool" where
  "job_ok j \<longleftrightarrow> alive j \<and> job_State j \<notin> foreign_states (job_Type j)"

lemma job_edges_ok:
  "(s, e, s') \<in> job_edges ty \<Longrightarrow> s' \<notin> foreign_states ty"
  by (cases ty)
     (auto simp: consolidation_edges_def deletion_edges_def consolidation_only_def
       deletion_only_def)

lemma dispatch_effect:
  assumes "job_ok j"
  shows "(\<exists>j' s. dispatch now j evt = Inr (j', True) \<and> moved j s j'
            \<and> open_edge (job_Type j) (config j) (jev_Status evt) s)
       \<or> dispatch now j evt = Inr (j, False)
          \<and> (\<forall>s. \<not> open_edge (job_Type j) (config j) (jev_Status evt) s)"
  using assms triggerConsolidation_effect [of j now evt] triggerDeletion_effect [of j now evt]
  by (cases "job_Type j") (simp_all add: dispatch_def job_ok_def)

text \<open>
  One step of the automaton.  A configuration is a state and whether the job is paused: a paused
  job is resumed by \<open>Continue\<close>, in some states \<open>RetryForced\<close> only starts the current work
  again, and every other step goes along an open edge and pauses if the execution
  level asks for it.  An event without a step is refused.
\<close>

definition restartable :: "JobState set" where
  "restartable =
     {JobStateNEW, JobStateCREATED, JobStateCONSOLIDATIONDONE, JobStateCONSOLIDATIONINDEXED,
      JobStateCONSOLIDATIONEFFECTIVE, JobStateCONSOLIDATIONRETRYING,
      JobStateCONSOLIDATIONFORCERETRYING, JobStateCONSOLIDATIONCANCELLING,
      JobStateDELETIONINPROGRESS, JobStateDELETIONEFFECTIVE, JobStateABORTED}"

inductive job_step ::
  "JobType \<Rightarrow> ExecutionLevel \<Rightarrow> JobState \<times> bool \<Rightarrow> JobStatus \<Rightarrow> JobState \<times> bool \<Rightarrow> bool"
  for ty level where
  resume: "job_step ty level (s, True) Continue (s, False)"
| restart: "s \<in> restartable \<Longrightarrow> job_step ty level (s, paused) RetryForced (s, paused)"
| move: "open_edge ty (s, paused) e s' \<Longrightarrow>
    job_step ty level (s, paused) e (s', level \<ge> info_Level (jobStateInfo s'))"

inductive_simps job_step_simps: "job_step ty level (s, paused) e c"

lemma restartable_info: "info_RetryForced (jobStateInfo s) \<longleftrightarrow> s \<in> restartable"
  by (cases s) (simp_all add: restartable_def)

lemma job_edges_unique: "(s, e, s1) \<in> job_edges ty \<Longrightarrow> \<forall>s2. (s, e, s2) \<in> job_edges ty \<longrightarrow> s2 = s1"
proof (cases ty)
  case JobTypeCONSOLIDATION
  show "(s, e, s1) \<in> job_edges ty \<Longrightarrow> ?thesis"
    unfolding JobTypeCONSOLIDATION job_edges.simps consolidation_edges_def by (elim insertE emptyE) simp_all
next
  case JobTypeDELETION
  show "(s, e, s1) \<in> job_edges ty \<Longrightarrow> ?thesis"
    unfolding JobTypeDELETION job_edges.simps deletion_edges_def by (elim insertE emptyE) simp_all
qed simp

lemma job_edges_events:
  "(s, Continue, s') \<notin> job_edges ty"
  "s \<in> restartable \<Longrightarrow> (s, RetryForced, s') \<notin> job_edges ty"
  by (cases ty; simp add: consolidation_edges_def deletion_edges_def;
      cases s; simp add: restartable_def)+

lemma job_step_determ:
  "job_step ty level c e c1 \<Longrightarrow> job_step ty level c e c2 \<Longrightarrow> c1 = c2"
  by (cases c) (auto simp: job_step_simps open_edge_def job_edges_events dest: job_edges_unique)

text \<open>
  The effect of \<open>Trigger\<close> on a job, in one relation: the state after an accepted event
  (\<open>accepted\<close>), or the refusal, which leaves everything but the log as it was.
\<close>

definition accepted :: "'p Job \<Rightarrow> JobStatus \<Rightarrow> 'p Job \<Rightarrow> bool" where
  "accepted j e j' \<longleftrightarrow> job_step (job_Type j) (job_ExecutionLevel j) (config j) e (config j')"

definition refused :: "'p Job \<Rightarrow> JobStatus \<Rightarrow> 'p Job \<Rightarrow> bool" where
  "refused j e j' \<longleftrightarrow>
     logged j j' \<and> (\<forall>c. \<not> job_step (job_Type j) (job_ExecutionLevel j) (config j) e c)"

lemma job_ok_logged: "logged j j' \<Longrightarrow> job_ok j \<Longrightarrow> job_ok j'"
  by (auto simp: logged_def job_ok_def same_frame_def)

text \<open>The log entry that announces an accepted event.\<close>

definition announcement :: "'p Job \<Rightarrow> string" where
  "announcement j = ''New state: '' @ JobState_String (job_State j)
     @ (if job_Waiting j then '': waiting for user action'' else [])"

lemma announce_alive:
  assumes "alive j"
  shows "\<exists>j'. announce now (j, True) = Inr (j', None) \<and> logged j j'
           \<and> log_Msg (last (job_Logs j')) = announcement j'"
proof -
  have step: "announce now (j, True) =
      bindE (LogMsg now j INFO (announcement j)) (\<lambda>j'. Inr (j', None))"
    by (simp add: announce_def announcement_def)
  obtain k where k: "LogMsg now j INFO (announcement j) = Inr k" "logged j k"
    "job_Logs k = job_Logs j @ [\<lparr>log_Severity = INFO, log_Msg = announcement j,
       log_Status = JobState_String (job_State j), log_Date = now\<rparr>]"
    using LogMsg_alive [OF assms] by blast
  have "announcement k = announcement j"
    using k(2) unfolding announcement_def logged_def by simp
  with k(3) have "log_Msg (last (job_Logs k)) = announcement k" by simp
  with k(1,2) step show ?thesis by simp
qed

lemma handleEvent_effect:
  assumes ok: "job_ok j"
  shows "(\<exists>j'. handleEvent now j evt = Inr (j', True) \<and> accepted j (jev_Status evt) j'
            \<and> same_frame j j' \<and> job_ok j')
       \<or> (\<exists>j'. handleEvent now j evt = Inr (j', False) \<and> refused j (jev_Status evt) j')"
proof -
  from ok have al: "alive j" by (simp add: job_ok_def)
  obtain p where p: "ps_dirty (job_ps j) = Inr p" "p \<noteq> persistenceStateDELETED"
    using ps_dirty_alive [OF al] by blast
  obtain k where k: "LogMsg now j INFO ''Retried by user'' = Inr k" "logged j k"
    using LogMsg_alive [OF al] by blast
  obtain i where i: "LogErr now j (jev_Error evt) = Inr i" "logged j i"
    using LogErr_alive [OF al] by blast
  consider (cont) "jev_Status evt = Continue"
    | (retry) "jev_Status evt = RetryForced" "info_RetryForced (jobStateInfo (job_State j))"
    | (other) "jev_Status evt \<noteq> Continue"
        "\<not> (jev_Status evt = RetryForced \<and> info_RetryForced (jobStateInfo (job_State j)))"
    by auto
  then show ?thesis
  proof cases
    case cont
    with p ok show ?thesis
      by (auto simp: handleEvent_def job_dirty_def accepted_def refused_def job_ok_def
          same_frame_def logged_def job_step_simps open_edge_def job_edges_events)
  next
    case retry
    with k ok show ?thesis
      by (auto simp: handleEvent_def accepted_def job_ok_def logged_def same_frame_def
          restartable_info job_step_simps)
  next
    case other
    have ok_i: "job_ok i" using i(2) ok by (rule job_ok_logged)
    have step: "handleEvent now j evt = dispatch now i evt"
      using other i(1) by (auto simp: handleEvent_def LogErr_def)
    have eqs: "job_State i = job_State j" "job_Waiting i = job_Waiting j"
      "job_Type i = job_Type j" "job_ExecutionLevel i = job_ExecutionLevel j" "same_frame j i"
      using i(2) by (auto simp: logged_def same_frame_def)
    from dispatch_effect [OF ok_i, of now evt, unfolded eqs] show ?thesis
    proof (elim disjE exE conjE)
      fix k s
      assume k: "dispatch now i evt = Inr (k, True)" "moved i s k"
        "open_edge (job_Type j) (config j) (jev_Status evt) s"
      then have "accepted j (jev_Status evt) k"
        using job_step.move [OF k(3), of "job_ExecutionLevel j"] eqs by (simp add: accepted_def moved_def)
      moreover have "same_frame j k" "job_ok k"
        using k(2,3) eqs(3,5) same_frame_trans job_edges_ok
        by (auto simp: moved_def job_ok_def same_frame_def open_edge_def)
      ultimately show ?thesis using k(1) step by auto
    next
      assume "dispatch now i evt = Inr (i, False)"
        "\<forall>s. \<not> open_edge (job_Type j) (config j) (jev_Status evt) s"
      then show ?thesis using i(2) other step by (auto simp: refused_def job_step_simps restartable_info)
    qed
  qed
qed

lemma Trigger_effect:
  assumes ok: "job_ok j"
  shows "(\<exists>j'. Trigger now j evt = Inr (j', None) \<and> accepted j (jev_Status evt) j'
            \<and> same_frame j j' \<and> job_ok j' \<and> log_Msg (last (job_Logs j')) = announcement j')
       \<or> (\<exists>j'. Trigger now j evt = Inr (j', Some NewUnhandledEvent)
            \<and> refused j (jev_Status evt) j')"
  using handleEvent_effect [OF ok, of now evt]
proof (elim disjE exE conjE)
  fix k
  assume k: "handleEvent now j evt = Inr (k, True)" "accepted j (jev_Status evt) k"
    "same_frame j k" "job_ok k"
  then obtain l where l: "announce now (k, True) = Inr (l, None)" "logged k l"
    "log_Msg (last (job_Logs l)) = announcement l"
    using announce_alive by (metis job_ok_def)
  have "accepted j (jev_Status evt) l" "same_frame j l"
    using k(2,3) l(2) by (auto simp: accepted_def logged_def same_frame_def)
  with k l job_ok_logged [OF l(2)] show ?thesis by (auto simp: Trigger_def)
next
  fix k
  assume "handleEvent now j evt = Inr (k, False)" "refused j (jev_Status evt) k"
  then show ?thesis by (auto simp: Trigger_def announce_def)
qed

section \<open>Runs\<close>

definition run_event :: "int \<times> JobEvent \<Rightarrow> 'p Job \<Rightarrow> string + 'p Job" where
  "run_event = (\<lambda>(now, evt) j. bindE (Trigger now j evt) (\<lambda>(j', _). Inr j'))"

definition run_events :: "(int \<times> JobEvent) list \<Rightarrow> 'p Job \<Rightarrow> string + 'p Job" where
  "run_events evts j = foldE run_event evts j"

abbreviation statuses :: "(int \<times> JobEvent) list \<Rightarrow> JobStatus list" where
  "statuses evts \<equiv> map (\<lambda>(_, evt). jev_Status evt) evts"

lemma run_events_simps [simp]:
  "run_events [] j = Inr j"
  "run_events (e # es) j = bindE (run_event e j) (run_events es)"
  by (simp_all add: run_events_def fun_eq_iff bindE_def split: sum.splits)

text \<open>One event, handled or not: the job stays sound and its state moves along an edge or not at all.\<close>

lemma run_event_step:
  assumes "job_ok j"
  shows "\<exists>j'. run_event (now, evt) j = Inr j' \<and> job_ok j' \<and> same_frame j j'
           \<and> (job_State j' = job_State j
              \<or> (job_State j, jev_Status evt, job_State j') \<in> job_edges (job_Type j))"
  using Trigger_effect [OF assms, of now evt]
proof (elim disjE exE conjE)
  fix k
  assume "Trigger now j evt = Inr (k, None)" "accepted j (jev_Status evt) k" "same_frame j k"
    "job_ok k"
  then show ?thesis by (auto simp: run_event_def accepted_def job_step_simps open_edge_def)
next
  fix k
  assume k: "Trigger now j evt = Inr (k, Some NewUnhandledEvent)" "refused j (jev_Status evt) k"
  then have "logged j k" by (simp add: refused_def)
  with k(1) job_ok_logged [OF this assms] show ?thesis
    by (auto simp: run_event_def logged_def)
qed

text \<open>An invariant of the state along the edges of a kind of job is an invariant of its runs.\<close>

lemma run_events_invariant:
  assumes "job_ok j" and "I (job_State j)"
    and "\<And>s e s'. (s, e, s') \<in> job_edges (job_Type j) \<Longrightarrow> I s \<Longrightarrow> I s'"
  shows "\<exists>j'. run_events evts j = Inr j' \<and> job_ok j' \<and> same_frame j j' \<and> I (job_State j')"
  using assms
proof (induction evts arbitrary: j)
  case Nil
  then show ?case by simp
next
  case (Cons e evts)
  obtain now evt where e: "e = (now, evt)" by (cases e)
  obtain k where k: "run_event e j = Inr k" "job_ok k" "same_frame j k"
    "job_State k = job_State j
     \<or> (job_State j, jev_Status evt, job_State k) \<in> job_edges (job_Type j)"
    using run_event_step [OF Cons.prems(1), of now evt] e by blast
  have ty: "job_Type k = job_Type j" using k(3) by (simp add: same_frame_def)
  have "I (job_State k)" using k(4) Cons.prems(2,3) by auto
  then obtain l where "run_events evts k = Inr l" "job_ok l" "same_frame k l" "I (job_State l)"
    using Cons.IH [OF k(2)] Cons.prems(3) ty by auto
  with k(1,3) show ?case by (auto intro: same_frame_trans)
qed

subsection \<open>Runs of a new job\<close>

lemma NewConsolidationJob_ok:
  "NewConsolidationJob uuid now nm ly inst coll lvl = Inr j \<Longrightarrow>
   job_ok j \<and> job_Type j = JobTypeCONSOLIDATION \<and> job_State j = JobStateNEW
   \<and> job_ExecutionLevel j = lvl"
  by (auto simp: NewConsolidationJob_def NewJob_def job_ok_def deletion_only_def split: if_splits)

lemma NewDeletionJob_ok:
  "job_ok (NewDeletionJob uuid now nm lvl)
   \<and> job_Type (NewDeletionJob uuid now nm lvl) = JobTypeDELETION
   \<and> job_State (NewDeletionJob uuid now nm lvl) = JobStateNEW"
  by (auto simp: NewDeletionJob_def NewJob_def job_ok_def consolidation_only_def)

text \<open>
  What must have happened before a consolidation job is in a state: the events of the stages
  it went through, oldest first.
\<close>

fun milestones :: "JobState \<Rightarrow> JobStatus list" where
  "milestones JobStateCREATED = [JobCreated]"
| "milestones JobStateINITIALISATIONFAILED = [JobCreated]"
| "milestones JobStateCONSOLIDATIONINPROGRESS = [JobCreated, OrdersPrepared]"
| "milestones JobStateCONSOLIDATIONRETRYING = [JobCreated, OrdersPrepared]"
| "milestones JobStateCONSOLIDATIONFORCERETRYING = [JobCreated, OrdersPrepared]"
| "milestones JobStateCONSOLIDATIONFAILED = [JobCreated, OrdersPrepared]"
| "milestones JobStateCONSOLIDATIONCANCELLING = [JobCreated, OrdersPrepared]"
| "milestones JobStateCANCELLATIONFAILED = [JobCreated, OrdersPrepared]"
| "milestones JobStateCONSOLIDATIONDONE = [JobCreated, OrdersPrepared, ConsolidationDone]"
| "milestones JobStateCONSOLIDATIONINDEXED =
     [JobCreated, OrdersPrepared, ConsolidationDone, ConsolidationIndexed]"
| "milestones JobStateCONSOLIDATIONEFFECTIVE =
     [JobCreated, OrdersPrepared, ConsolidationDone, ConsolidationIndexed, DatasetsSwapped]"
| "milestones JobStateDONEBUTUNTIDY =
     [JobCreated, OrdersPrepared, ConsolidationDone, ConsolidationIndexed, DatasetsSwapped]"
| "milestones JobStateDONE =
     [JobCreated, OrdersPrepared, ConsolidationDone, ConsolidationIndexed, DatasetsSwapped,
      DeletionStarted]"
| "milestones _ = []"

lemma milestones_edge:
  "(s, e, s') \<in> consolidation_edges \<Longrightarrow> subseq (milestones s') (milestones s @ [e])"
  unfolding consolidation_edges_def by (elim insertE emptyE) simp_all

lemma milestones_run:
  assumes "job_ok j" and "job_Type j = JobTypeCONSOLIDATION"
    and "subseq (milestones (job_State j)) hist" and "run_events evts j = Inr j'"
  shows "subseq (milestones (job_State j')) (hist @ statuses evts)"
  using assms
proof (induction evts arbitrary: j hist)
  case Nil
  then show ?case by simp
next
  case (Cons e evts)
  obtain now evt where e: "e = (now, evt)" by (cases e)
  obtain k where k: "run_event e j = Inr k" "job_ok k" "same_frame j k"
    "job_State k = job_State j
     \<or> (job_State j, jev_Status evt, job_State k) \<in> job_edges (job_Type j)"
    using run_event_step [OF Cons.prems(1), of now evt] e by blast
  have ty: "job_Type k = JobTypeCONSOLIDATION"
    using k(3) Cons.prems(2) by (simp add: same_frame_def)
  have "subseq (milestones (job_State k)) (hist @ [jev_Status evt])"
    using k(4)
  proof
    assume "job_State k = job_State j"
    with Cons.prems(3) show ?thesis by (simp add: subseq_rev_drop_many)
  next
    assume "(job_State j, jev_Status evt, job_State k) \<in> job_edges (job_Type j)"
    then have "subseq (milestones (job_State k)) (milestones (job_State j) @ [jev_Status evt])"
      using milestones_edge Cons.prems(2) by simp
    also have "subseq \<dots> (hist @ [jev_Status evt])"
      using Cons.prems(3) by (intro list_emb_append_mono) auto
    finally show ?thesis .
  qed
  from Cons.IH [OF k(2) ty this] Cons.prems(4) k(1) show ?case
    by (simp add: e)
qed

section \<open>Properties\<close>

lemma accepted_edge:
  assumes "job_ok j" and "(job_State j, e, s) \<in> job_edges (job_Type j)"
    and "e \<noteq> CancelledByUser" and "e \<noteq> Continue"
    and "e = RetryForced \<longrightarrow> \<not> info_RetryForced (jobStateInfo (job_State j))"
  shows "\<exists>j'. run_event (now, \<lparr>jev_JobID = [], jev_Status = e, jev_Error = []\<rparr>) j = Inr j'
           \<and> job_ok j' \<and> job_Type j' = job_Type j
           \<and> (job_State j, e, job_State j') \<in> job_edges (job_Type j)"
  using Trigger_effect [OF assms(1), of now "\<lparr>jev_JobID = [], jev_Status = e, jev_Error = []\<rparr>"]
    assms(2-)
  by (auto simp: run_event_def accepted_def refused_def same_frame_def job_step_simps open_edge_def
      restartable_info)

text \<open>The shortest way to an end from each state, by forced cancellation where possible.\<close>

fun closing :: "JobType \<Rightarrow> JobState \<Rightarrow> JobStatus" where
  "closing ty JobStateABORTED = RollbackDone"
| "closing ty JobStateCONSOLIDATIONCANCELLING = CancellationDone"
| "closing ty JobStateCANCELLATIONFAILED = Retried"
| "closing ty JobStateCONSOLIDATIONRETRYING = ConsolidationRetryFailed"
| "closing ty JobStateCONSOLIDATIONFORCERETRYING = ConsolidationRetryFailed"
| "closing ty JobStateCONSOLIDATIONEFFECTIVE = DeletionStarted"
| "closing ty JobStateDELETIONEFFECTIVE = DeletionDone"
| "closing ty JobStateDONEBUTUNTIDY = RetryForced"
| "closing ty _ = CancelledByUserForced"

fun to_end :: "JobState \<Rightarrow> nat" where
  "to_end JobStateDONE = 0"
| "to_end JobStateFAILED = 0"
| "to_end JobStateABORTED = 1"
| "to_end JobStateROLLBACKFAILED = 1"
| "to_end JobStateCONSOLIDATIONEFFECTIVE = 1"
| "to_end JobStateDELETIONEFFECTIVE = 1"
| "to_end JobStateCANCELLATIONFAILED = 3"
| "to_end JobStateCONSOLIDATIONINPROGRESS = 3"
| "to_end JobStateCONSOLIDATIONRETRYING = 3"
| "to_end JobStateCONSOLIDATIONFORCERETRYING = 3"
| "to_end _ = 2"

lemma closing_edge:
  "s \<notin> foreign_states ty \<Longrightarrow> to_end s \<noteq> 0 \<Longrightarrow>
     (\<exists>s'. (s, closing ty s, s') \<in> job_edges ty)
   \<and> closing ty s \<noteq> CancelledByUser \<and> closing ty s \<noteq> Continue
   \<and> (closing ty s = RetryForced \<longrightarrow> \<not> info_RetryForced (jobStateInfo s))"
  by (cases ty; cases s)
     (simp_all add: consolidation_edges_def deletion_edges_def deletion_only_def
       consolidation_only_def)

lemma closing_progress:
  "s \<notin> foreign_states ty \<Longrightarrow> (s, closing ty s, s') \<in> job_edges ty \<Longrightarrow>
   to_end s = Suc n \<Longrightarrow> to_end s' \<le> n"
  by (cases ty; cases s)
     (simp_all add: consolidation_edges_def deletion_edges_def deletion_only_def
       consolidation_only_def)

lemma run_to_end:
  assumes "job_ok j" and "to_end (job_State j) \<le> n"
  shows "\<exists>evts j'. length evts \<le> n \<and> run_events evts j = Inr j' \<and> to_end (job_State j') = 0"
  using assms
proof (induction n arbitrary: j)
  case 0
  then show ?case by (intro exI [of _ "[]"]) simp
next
  case (Suc n)
  show ?case
  proof (cases "to_end (job_State j)")
    case 0
    then show ?thesis by (intro exI [of _ "[]"]) simp
  next
    case (Suc m)
    define e where "e = closing (job_Type j) (job_State j)"
    have ok: "job_State j \<notin> foreign_states (job_Type j)"
      using Suc.prems(1) by (simp add: job_ok_def)
    obtain s where s: "(job_State j, e, s) \<in> job_edges (job_Type j)" "e \<noteq> CancelledByUser"
      "e \<noteq> Continue" "e = RetryForced \<longrightarrow> \<not> info_RetryForced (jobStateInfo (job_State j))"
      using closing_edge [OF ok] Suc by (auto simp: e_def)
    obtain k where k: "run_event (0, \<lparr>jev_JobID = [], jev_Status = e, jev_Error = []\<rparr>) j = Inr k"
      "job_ok k" "(job_State j, e, job_State k) \<in> job_edges (job_Type j)"
      using accepted_edge [OF Suc.prems(1) s] by blast
    have "to_end (job_State k) \<le> n"
      using closing_progress [OF ok k(3) [unfolded e_def] Suc] Suc.prems(2) Suc by simp
    from Suc.IH [OF k(2) this] obtain evts l where
      "length evts \<le> n" "run_events evts k = Inr l" "to_end (job_State l) = 0" by blast
    with k(1) show ?thesis
      by (intro exI [of _ "(0, \<lparr>jev_JobID = [], jev_Status = e, jev_Error = []\<rparr>) # evts"]) auto
  qed
qed

lemma to_end_le_3: "to_end s \<le> 3"
  by (cases s) simp_all

lemma to_end_0: "to_end s = 0 \<longleftrightarrow> s = JobStateDONE \<or> s = JobStateFAILED"
  by (cases s) simp_all

lemma run_async_never_waits:
  assumes "job_ok j" and "job_ExecutionLevel j \<le> ExecutionAsynchronous" and "\<not> job_Waiting j"
    and "run_events evts j = Inr j'"
  shows "\<not> job_Waiting j'"
  using assms
proof (induction evts arbitrary: j)
  case Nil
  then show ?case by simp
next
  case (Cons e evts)
  obtain now evt where e: "e = (now, evt)" by (cases e)
  have lvl: "\<not> job_ExecutionLevel j \<ge> info_Level (jobStateInfo s)" for s
    using Cons.prems(2)
    by (cases s; cases "job_ExecutionLevel j") (simp_all add: less_eq_ExecutionLevel_def)
  obtain k where k: "run_event e j = Inr k" "job_ok k" "job_ExecutionLevel k = job_ExecutionLevel j"
    "\<not> job_Waiting k"
    using Trigger_effect [OF Cons.prems(1), of now evt] Cons.prems(3) lvl
      job_ok_logged [OF _ Cons.prems(1)]
    by (auto simp: e run_event_def accepted_def refused_def logged_def same_frame_def job_step_simps)
  with Cons.IH [OF k(2)] Cons.prems(2,4) show ?case by simp
qed

text \<open>C4. \<open>Trigger\<close> implements the automaton: on a job that is not deleted and is in a state of its
  kind it never panics. If the automaton has a step for the event, the event is accepted, the state
  and the pause are those of the only such step, every other field is left alone and the log
  announces the new state. If it has none, the event is refused with \<open>UnhandledEvent\<close>, and
  everything but the log is as before. A cancellation by the user has a step in \<open>NEW\<close>, \<open>CREATED\<close>,
  \<open>CONSOLIDATIONDONE\<close>, \<open>CONSOLIDATIONINDEXED\<close> and \<open>DELETIONINPROGRESS\<close> only while the job
  is paused.\<close>

theorem Trigger_refines_automaton:
  assumes "job_ok j"
  shows "(\<exists>j'. Trigger now j evt = Inr (j', None)
            \<and> (\<forall>c. job_step (job_Type j) (job_ExecutionLevel j) (config j) (jev_Status evt) c
                 \<longleftrightarrow> c = config j')
            \<and> same_frame j j' \<and> job_ok j' \<and> log_Msg (last (job_Logs j')) = announcement j')
       \<or> (\<exists>j'. Trigger now j evt = Inr (j', Some NewUnhandledEvent)
            \<and> (\<forall>c. \<not> job_step (job_Type j) (job_ExecutionLevel j) (config j) (jev_Status evt) c)
            \<and> logged j j')"
  using Trigger_effect [OF assms, of now evt]
proof (elim disjE exE conjE)
  fix k
  assume k: "Trigger now j evt = Inr (k, None)" "accepted j (jev_Status evt) k" "same_frame j k" "job_ok k"
    "log_Msg (last (job_Logs k)) = announcement k"
  have "job_step (job_Type j) (job_ExecutionLevel j) (config j) (jev_Status evt) c \<longleftrightarrow> c = config k" for c
    using k(2) job_step_determ unfolding accepted_def by metis
  with k(1,3-) show ?thesis by auto
qed (simp add: refused_def)

text \<open>Concrete jobs and events for the witnesses.\<close>

definition demo_event :: "JobStatus \<Rightarrow> int \<times> JobEvent" where
  "demo_event e = (7, \<lparr>jev_JobID = ''job-1'', jev_Status = e, jev_Error = []\<rparr>)"

definition demo_job :: "unit Job" where
  "demo_job = (NewJob ''job-1'')\<lparr>job_ps := persistenceStateNEW,
     job_Type := JobTypeCONSOLIDATION, job_ExecutionLevel := ExecutionAsynchronous\<rparr>"

lemma demo_job_ok: "job_ok demo_job"
  by (simp add: demo_job_def NewJob_def job_ok_def deletion_only_def)

theorem Trigger_refines_automaton_witness:
  "(\<exists>j'. Trigger 7 demo_job (snd (demo_event JobCreated)) = Inr (j', None) \<and> job_State j' = JobStateCREATED)
   \<and> (\<exists>j'. Trigger 7 demo_job (snd (demo_event CancelledByUser)) = Inr (j', Some NewUnhandledEvent)
        \<and> logged demo_job j')"
proof -
  have job: "job_Type demo_job = JobTypeCONSOLIDATION" "config demo_job = (JobStateNEW, False)"
    by (simp_all add: demo_job_def NewJob_def)
  have yes: "job_step JobTypeCONSOLIDATION level (JobStateNEW, False) JobCreated
      (JobStateCREATED, level \<ge> info_Level (jobStateInfo JobStateCREATED))" for level
    by (rule job_step.move) (simp add: open_edge_def consolidation_edges_def)
  have no: "\<not> job_step JobTypeCONSOLIDATION level (JobStateNEW, False) CancelledByUser c" for level c
    by (simp add: job_step_simps open_edge_def)
  have status: "jev_Status (snd (demo_event e)) = e" for e by (simp add: demo_event_def)
  from Trigger_refines_automaton [OF demo_job_ok, of 7 "snd (demo_event JobCreated)", unfolded job status]
  have "\<exists>j'. Trigger 7 demo_job (snd (demo_event JobCreated)) = Inr (j', None) \<and> job_State j' = JobStateCREATED"
    using yes by (metis prod.inject)
  moreover from Trigger_refines_automaton [OF demo_job_ok, of 7 "snd (demo_event CancelledByUser)", unfolded job status]
  have "\<exists>j'. Trigger 7 demo_job (snd (demo_event CancelledByUser)) = Inr (j', Some NewUnhandledEvent) \<and> logged demo_job j'"
    using no by metis
  ultimately show ?thesis ..
qed

text \<open>C5. No sequence of events makes a new job panic: a consolidation or deletion job, as its
  constructor returns it, processes every list of events and never reaches a state that its
  trigger does not know.\<close>

theorem new_job_never_panics:
  assumes "NewConsolidationJob uuid now nm ly inst coll lvl = Inr j
           \<or> j = NewDeletionJob uuid now nm lvl"
  shows "\<exists>j'. run_events evts j = Inr j' \<and> job_State j' \<notin> foreign_states (job_Type j)"
proof -
  have "job_ok j"
    using assms NewConsolidationJob_ok NewDeletionJob_ok by blast
  then show ?thesis
    using run_events_invariant [of j "\<lambda>_. True" evts] by (auto simp: job_ok_def same_frame_def)
qed

theorem new_job_never_panics_witness:
  "\<exists>j'. run_events [demo_event JobCreated, demo_event CancelledByUserForced]
          (NewDeletionJob ''d'' 3 ''del'' StepByStepAll :: unit Job) = Inr j'
      \<and> job_State j' \<notin> foreign_states (job_Type (NewDeletionJob ''d'' 3 ''del'' StepByStepAll :: unit Job))"
  by (rule new_job_never_panics [where uuid = "''d''" and now = 3 and nm = "''del''"
        and lvl = StepByStepAll]) simp

lemma edge_not_from_end: "(s, e, s') \<in> job_edges ty \<Longrightarrow> s \<noteq> JobStateDONE \<and> s \<noteq> JobStateFAILED"
  by (cases ty) (auto simp: consolidation_edges_def deletion_edges_def)

text \<open>The terminal states are final: whatever events a job in \<open>DONE\<close> or \<open>FAILED\<close>
  receives, it stays there.\<close>

theorem terminal_states_final:
  assumes "job_ok j" and "job_State j \<in> {JobStateDONE, JobStateFAILED}"
  shows "\<exists>j'. run_events evts j = Inr j' \<and> job_State j' = job_State j"
proof -
  have "\<exists>j'. run_events evts j = Inr j' \<and> job_ok j' \<and> same_frame j j'
          \<and> (job_State j' = job_State j)"
    using assms by (intro run_events_invariant) (auto dest: edge_not_from_end)
  then show ?thesis by blast
qed

theorem terminal_states_final_witness:
  "\<exists>j'. run_events [demo_event RetryForced, demo_event Continue]
          (demo_job\<lparr>job_State := JobStateDONE\<rparr>) = Inr j'
      \<and> job_State j' = job_State (demo_job\<lparr>job_State := JobStateDONE\<rparr>)"
  by (rule terminal_states_final)
     (simp_all add: job_ok_def demo_job_def NewJob_def deletion_only_def)

text \<open>C29. A consolidation that is done has passed every stage: if a new consolidation job is in
  \<open>DONE\<close> after some events, these contain, in this order, the creation of the job, the
  preparation of the orders, the end of the consolidation, its indexing, the swap of the
  datasets and the start of the deletion.\<close>

theorem done_consolidation_passed_stages:
  assumes "NewConsolidationJob uuid now nm ly inst coll lvl = Inr j"
    and "run_events evts j = Inr j'" and "job_State j' = JobStateDONE"
  shows "subseq [JobCreated, OrdersPrepared, ConsolidationDone, ConsolidationIndexed,
            DatasetsSwapped, DeletionStarted] (statuses evts)"
  using milestones_run [of j "[]" evts j'] NewConsolidationJob_ok [OF assms(1)] assms(2,3)
  by simp

definition demo_consolidation :: "unit Job" where
  "demo_consolidation =
     projr (NewConsolidationJob ''c'' 1 ''n'' ''layout'' ''inst'' [] ExecutionAsynchronous)"

definition demo_stages :: "(int \<times> JobEvent) list" where
  "demo_stages = map demo_event
     [JobCreated, OrdersPrepared, Retried, OrdersPrepared, ConsolidationDone,
      ConsolidationIndexed, DatasetsSwapped, DeletionStarted]"

theorem done_consolidation_passed_stages_witness:
  "NewConsolidationJob ''c'' 1 ''n'' ''layout'' ''inst'' [] ExecutionAsynchronous
     = Inr demo_consolidation
   \<and> (\<exists>j'. run_events demo_stages demo_consolidation = Inr j' \<and> job_State j' = JobStateDONE)
   \<and> subseq [JobCreated, OrdersPrepared, ConsolidationDone, ConsolidationIndexed,
        DatasetsSwapped, DeletionStarted] (statuses demo_stages)"
proof -
  have new: "NewConsolidationJob ''c'' 1 ''n'' ''layout'' ''inst'' [] ExecutionAsynchronous
     = Inr demo_consolidation"
    by (simp add: demo_consolidation_def NewConsolidationJob_def)
  have run: "\<exists>j'. run_events demo_stages demo_consolidation = Inr j' \<and> job_State j' = JobStateDONE"
    by (simp add: demo_consolidation_def NewConsolidationJob_def NewJob_def demo_stages_def
        demo_event_def run_event_def Trigger_def handleEvent_def dispatch_def
        triggerConsolidation_def changeState_def logThenChange_def job_dirty_def ps_dirty_def
        mustNotBeDeleted_def LogMsg_def announce_def Let_def less_eq_ExecutionLevel_def)
  with new done_consolidation_passed_stages [OF new] show ?thesis by blast
qed

text \<open>C28. A consolidation that took effect is never rolled back: once the datasets are swapped, no
  sequence of events takes the job to \<open>ABORTED\<close>, \<open>FAILED\<close> or back to an earlier
  stage.\<close>

theorem effective_consolidation_not_rolled_back:
  assumes "job_ok j" and "job_Type j = JobTypeCONSOLIDATION"
    and "job_State j \<in> {JobStateCONSOLIDATIONEFFECTIVE, JobStateDONEBUTUNTIDY, JobStateDONE}"
  shows "\<exists>j'. run_events evts j = Inr j'
           \<and> job_State j' \<in> {JobStateCONSOLIDATIONEFFECTIVE, JobStateDONEBUTUNTIDY, JobStateDONE}"
proof -
  have "\<exists>j'. run_events evts j = Inr j' \<and> job_ok j' \<and> same_frame j j'
     \<and> job_State j' \<in> {JobStateCONSOLIDATIONEFFECTIVE, JobStateDONEBUTUNTIDY, JobStateDONE}"
    using assms by (intro run_events_invariant) (auto simp: consolidation_edges_def)
  then show ?thesis by blast
qed

theorem effective_consolidation_not_rolled_back_witness:
  "\<exists>j'. run_events [demo_event CancelledByUserForced, demo_event StartDeletionFailed]
          (demo_job\<lparr>job_State := JobStateCONSOLIDATIONEFFECTIVE\<rparr>) = Inr j'
      \<and> job_State j' \<in> {JobStateCONSOLIDATIONEFFECTIVE, JobStateDONEBUTUNTIDY, JobStateDONE}"
  by (rule effective_consolidation_not_rolled_back)
     (simp_all add: job_ok_def demo_job_def NewJob_def deletion_only_def)

text \<open>C31. A job can always be brought to an end: from every state that a job of its kind can be in,
  at most three events take it to \<open>DONE\<close> or \<open>FAILED\<close>, whatever its execution level.\<close>

theorem job_can_always_end:
  assumes "job_ok j"
  shows "\<exists>evts j'. length evts \<le> 3 \<and> run_events evts j = Inr j'
           \<and> job_State j' \<in> {JobStateDONE, JobStateFAILED}"
  using run_to_end [OF assms to_end_le_3] by (auto simp: to_end_0)

theorem job_can_always_end_witness:
  "job_ok (demo_job\<lparr>job_State := JobStateCANCELLATIONFAILED\<rparr>)
   \<and> (\<exists>evts j'. length evts \<le> 3
        \<and> run_events evts (demo_job\<lparr>job_State := JobStateCANCELLATIONFAILED\<rparr>) = Inr j'
        \<and> job_State j' \<in> {JobStateDONE, JobStateFAILED})"
proof -
  have ok: "job_ok (demo_job\<lparr>job_State := JobStateCANCELLATIONFAILED\<rparr>)"
    by (simp add: job_ok_def demo_job_def NewJob_def deletion_only_def)
  with job_can_always_end [OF ok] show ?thesis by blast
qed

text \<open>A job that is not executed step by step never pauses: no sequence of events makes a job
  of level \<open>ExecutionAsynchronous\<close> (or below) wait for the user.\<close>

theorem asynchronous_job_never_waits:
  assumes "job_ok j" and "job_ExecutionLevel j \<le> ExecutionAsynchronous" and "\<not> job_Waiting j"
  shows "\<exists>j'. run_events evts j = Inr j' \<and> \<not> job_Waiting j'"
proof -
  obtain j' where "run_events evts j = Inr j'"
    using run_events_invariant [OF assms(1), of "\<lambda>_. True" evts] by auto
  with run_async_never_waits [OF assms this] show ?thesis by blast
qed

theorem asynchronous_job_never_waits_witness:
  "\<exists>j'. run_events demo_stages demo_job = Inr j' \<and> \<not> job_Waiting j'"
  by (rule asynchronous_job_never_waits)
     (simp_all add: demo_job_ok, simp_all add: demo_job_def NewJob_def)

end
