(* ===== verification/Job_Tasks.thy ===== *)
theory Job_Tasks
  imports Job_Lifecycle
begin

text \<open>
  The tasks of a job (\<^verbatim>\<open>internal/raster/geocube/job.go\<close>, \<^verbatim>\<open>task.go\<close>): the counters of active
  and failed tasks are exact under every operation, the outcome of a task event, resets and
  deletion.
\<close>

section \<open>The counters\<close>

definition task_active :: "Task \<Rightarrow> bool" where
  "task_active t \<longleftrightarrow> task_State t = TaskStatePENDING \<or> task_State t = TaskStateNEW"

definition task_failed :: "Task \<Rightarrow> bool" where
  "task_failed t \<longleftrightarrow> task_State t = TaskStateFAILED"

text \<open>
  The counters of a job count its tasks.  A job may be loaded with some of its tasks only:
  \<open>na\<close> and \<open>nf\<close> are the numbers of active and of failed tasks that are not loaded.
\<close>

definition counters_ok :: "nat \<Rightarrow> nat \<Rightarrow> 'p Job \<Rightarrow> bool" where
  "counters_ok na nf j \<longleftrightarrow>
     job_ActiveTasks j = int na + count_if task_active (job_Tasks j)
   \<and> job_FailedTasks j = int nf + count_if task_failed (job_Tasks j)
   \<and> alive j \<and> (\<forall>t \<in> set (job_Tasks j). task_ps t \<noteq> persistenceStateDELETED)"

lemma job_dirty_alive:
  assumes "alive j"
  shows "\<exists>p. job_dirty now j = Inr (j\<lparr>job_LastUpdateTime := now, job_ps := p\<rparr>)
           \<and> p \<noteq> persistenceStateDELETED"
  using ps_dirty_alive [OF assms] by (auto simp: job_dirty_def)

text \<open>What \<open>updateTaskCounters\<close> adds to each counter.\<close>

definition active_inc :: "TaskState \<Rightarrow> int" where
  "active_inc s = (if s = TaskStatePENDING \<or> s = TaskStateNEW then 1 else 0)"

definition failed_inc :: "TaskState \<Rightarrow> int" where
  "failed_inc s = (if s = TaskStateFAILED then 1 else 0)"

lemma updateTaskCounters_ok:
  assumes "alive j" and "0 \<le> job_ActiveTasks j + active_inc s * c"
    and "0 \<le> job_FailedTasks j + failed_inc s * c"
    and "0 \<le> job_ActiveTasks j" and "0 \<le> job_FailedTasks j"
  shows "\<exists>j'. updateTaskCounters now j s c = Inr j' \<and> alive j' \<and> job_Tasks j' = job_Tasks j
           \<and> job_State j' = job_State j
           \<and> job_ActiveTasks j' = job_ActiveTasks j + active_inc s * c
           \<and> job_FailedTasks j' = job_FailedTasks j + failed_inc s * c"
proof -
  obtain p where p: "job_dirty now (j\<lparr>job_ActiveTasks := job_ActiveTasks j + c\<rparr>) =
      Inr (j\<lparr>job_ActiveTasks := job_ActiveTasks j + c, job_LastUpdateTime := now, job_ps := p\<rparr>)"
      "p \<noteq> persistenceStateDELETED"
    using job_dirty_alive [of "j\<lparr>job_ActiveTasks := job_ActiveTasks j + c\<rparr>"] assms(1) by auto
  obtain q where q: "job_dirty now (j\<lparr>job_FailedTasks := job_FailedTasks j + c\<rparr>) =
      Inr (j\<lparr>job_FailedTasks := job_FailedTasks j + c, job_LastUpdateTime := now, job_ps := q\<rparr>)"
      "q \<noteq> persistenceStateDELETED"
    using job_dirty_alive [of "j\<lparr>job_FailedTasks := job_FailedTasks j + c\<rparr>"] assms(1) by auto
  show ?thesis
    using assms p q
    by (cases s) (simp_all add: updateTaskCounters_def active_inc_def failed_inc_def)
qed

lemma setTaskState_ok:
  assumes ok: "counters_ok na nf j" and i: "i < length (job_Tasks j)"
  shows "\<exists>j' b p. setTaskState now j i s = Inr (j', b) \<and> counters_ok na nf j'
           \<and> job_State j' = job_State j
           \<and> job_Tasks j' = (job_Tasks j)[i := (job_Tasks j ! i)\<lparr>task_State := s, task_ps := p\<rparr>]
           \<and> (b \<longleftrightarrow> task_State (job_Tasks j ! i) \<noteq> s)
           \<and> (\<not> b \<longrightarrow> j' = j)"
proof -
  let ?t = "job_Tasks j ! i"
  have tps: "task_ps ?t \<noteq> persistenceStateDELETED"
    using ok i by (auto simp: counters_ok_def)
  show ?thesis
  proof (cases "task_State ?t = s")
    case True
    have "(job_Tasks j)[i := ?t\<lparr>task_State := s, task_ps := task_ps ?t\<rparr>] = job_Tasks j"
      using True i by (simp add: list_update_same_conv)
    with True ok show ?thesis
      by (intro exI [of _ j] exI [of _ False] exI [of _ "task_ps ?t"])
         (simp add: setTaskState_def task_setState_def)
  next
    case False
    obtain p where p: "ps_dirty (task_ps ?t) = Inr p" "p \<noteq> persistenceStateDELETED"
      using ps_dirty_alive [OF tps] by blast
    define t where "t = ?t\<lparr>task_State := s, task_ps := p\<rparr>"
    define k where "k = j\<lparr>job_Tasks := (job_Tasks j)[i := t]\<rparr>"
    have pos: "active_inc (task_State ?t) \<le> count_if task_active (job_Tasks j)"
      "failed_inc (task_State ?t) \<le> count_if task_failed (job_Tasks j)"
      using count_if_pos [OF i, of task_active] count_if_pos [OF i, of task_failed]
      by (auto simp: active_inc_def failed_inc_def task_active_def task_failed_def)
    obtain k1 where k1: "updateTaskCounters now k (task_State ?t) (-1) = Inr k1" "alive k1"
      "job_Tasks k1 = job_Tasks k" "job_State k1 = job_State j"
      "job_ActiveTasks k1 = job_ActiveTasks j - active_inc (task_State ?t)"
      "job_FailedTasks k1 = job_FailedTasks j - failed_inc (task_State ?t)"
      using updateTaskCounters_ok [of k "task_State ?t" "-1" now] ok pos
      by (auto simp: k_def counters_ok_def)
    obtain k2 where k2: "updateTaskCounters now k1 s 1 = Inr k2" "alive k2"
      "job_Tasks k2 = job_Tasks k" "job_State k2 = job_State j"
      "job_ActiveTasks k2 = job_ActiveTasks j - active_inc (task_State ?t) + active_inc s"
      "job_FailedTasks k2 = job_FailedTasks j - failed_inc (task_State ?t) + failed_inc s"
      using updateTaskCounters_ok [of k1 s 1 now] k1 ok pos
      by (auto simp: counters_ok_def active_inc_def failed_inc_def)
    have "counters_ok na nf k2"
      using ok k2 p i unfolding counters_ok_def
      by (auto simp: k_def t_def count_if_update active_inc_def failed_inc_def task_active_def
          task_failed_def dest!: set_update_subset_insert [THEN subsetD])
    with False k1 k2 p show ?thesis
      by (intro exI [of _ k2] exI [of _ True] exI [of _ p])
         (simp add: setTaskState_def task_setState_def t_def k_def Let_def)
  qed
qed

section \<open>Operations\<close>

lemma counters_ok_append:
  assumes "counters_ok na nf j" and "task_State t = TaskStateNEW" and "task_ps t = persistenceStateNEW"
  shows "\<exists>j'. job_dirty now (j\<lparr>job_ActiveTasks := job_ActiveTasks j + 1,
                 job_Tasks := job_Tasks j @ [t]\<rparr>) = Inr j' \<and> counters_ok na nf j'"
proof -
  define k where "k = j\<lparr>job_ActiveTasks := job_ActiveTasks j + 1, job_Tasks := job_Tasks j @ [t]\<rparr>"
  have "alive k" using assms(1) by (simp add: k_def counters_ok_def)
  then obtain p where "job_dirty now k = Inr (k\<lparr>job_LastUpdateTime := now, job_ps := p\<rparr>)"
    "p \<noteq> persistenceStateDELETED"
    using job_dirty_alive by blast
  with assms show ?thesis
    by (auto simp: k_def counters_ok_def task_active_def task_failed_def)
qed

lemma setTaskState_keeps:
  "counters_ok na nf j \<Longrightarrow> i < length (job_Tasks j) \<Longrightarrow>
   \<exists>j'. bindE (setTaskState now j i s) (\<lambda>(j', _). Inr j') = Inr j' \<and> counters_ok na nf j'
      \<and> length (job_Tasks j') = length (job_Tasks j)"
  using setTaskState_ok [of na nf j i now s] by fastforce

lemma DeleteTask_keeps:
  assumes "counters_ok na nf j" and "i < length (job_Tasks j)"
  shows "\<exists>j'. DeleteTask now j i = Inr j' \<and> counters_ok na nf j'
           \<and> length (job_Tasks j') = length (job_Tasks j)"
proof -
  obtain k where k: "(if ps_IsActive (task_ps (job_Tasks j ! i))
        then bindE (setTaskState now j i TaskStateCANCELLED) (\<lambda>(j', _). Inr j')
        else Inr j) = Inr k" "counters_ok na nf k" "length (job_Tasks k) = length (job_Tasks j)"
    using setTaskState_keeps [OF assms, of now TaskStateCANCELLED] assms(1)
    by (cases "ps_IsActive (task_ps (job_Tasks j ! i))") auto
  have tps: "task_ps (job_Tasks k ! i) \<noteq> persistenceStateDELETED"
    using k(2,3) assms(2) by (auto simp: counters_ok_def)
  then have del: "ps_toDelete (task_ps (job_Tasks k ! i)) = Inr persistenceStateTODELETE"
    by (simp add: ps_toDelete_def mustNotBeDeleted_def)
  have "counters_ok na nf (k\<lparr>job_Tasks := (job_Tasks k)
          [i := (job_Tasks k ! i)\<lparr>task_ps := persistenceStateTODELETE\<rparr>]\<rparr>)"
    using k(2,3) assms(2)
    by (auto simp: counters_ok_def count_if_update task_active_def task_failed_def
        dest!: set_update_subset_insert [THEN subsetD])
  with k del assms(2) show ?thesis by (simp add: DeleteTask_def)
qed

text \<open>The operations on the tasks of a job, as values, so that sequences of them can be run.\<close>

datatype task_op =
    OpCreateConsolidation string "string + string"
  | OpCreateDeletion string string
  | OpUpdate TaskEvent
  | OpReset "TaskState list option"
  | OpCancel nat
  | OpDelete nat
  | OpDeleteAll

fun run_task_op :: "int \<Rightarrow> task_op \<Rightarrow> 'p Job \<Rightarrow> string + 'p Job" where
  "run_task_op now (OpCreateConsolidation uuid enc) j =
     bindE (CreateConsolidationTask now (\<lambda>_ _. enc) uuid j ()) (\<lambda>(j', _). Inr j')"
| "run_task_op now (OpCreateDeletion uuid uri) j = CreateDeletionTask now uuid j uri"
| "run_task_op now (OpUpdate evt) j = bindE (UpdateTask now j evt) (\<lambda>(j', _). Inr j')"
| "run_task_op now (OpReset states) j = ResetTasks now j states"
| "run_task_op now (OpCancel i) j = CancelTask now j i"
| "run_task_op now (OpDelete i) j = DeleteTask now j i"
| "run_task_op now OpDeleteAll j = DeleteAllTasks now j"

lemma LogErr_counters:
  "counters_ok na nf j \<Longrightarrow> \<exists>j'. LogErr now j err = Inr j' \<and> counters_ok na nf j'
     \<and> job_Tasks j' = job_Tasks j"
  using LogErr_alive [of j now err]
  by (auto simp: counters_ok_def logged_def same_frame_def)

lemma task_index_Some:
  "task_index ts ident = Some i \<Longrightarrow> i < length ts \<and> task_ID (ts ! i) = ident"
  by (induction ts ident arbitrary: i rule: task_index.induct) (auto split: if_splits)

lemma UpdateTask_changes:
  assumes ok: "counters_ok na nf j" and i: "i < length (job_Tasks j)"
  shows "\<exists>j'. bindE (setTaskState now j i s) (\<lambda>(j', _).
                bindE (if s = TaskStateFAILED then LogErr now j' err else Inr j')
                  (\<lambda>j''. Inr (j'', None))) = Inr (j', None)
           \<and> counters_ok na nf j' \<and> length (job_Tasks j') = length (job_Tasks j)
           \<and> task_State (job_Tasks j' ! i) = s
           \<and> (\<forall>k. k \<noteq> i \<longrightarrow> job_Tasks j' ! k = job_Tasks j ! k)"
proof -
  obtain k b p where k: "setTaskState now j i s = Inr (k, b)" "counters_ok na nf k"
    "job_Tasks k = (job_Tasks j)[i := (job_Tasks j ! i)\<lparr>task_State := s, task_ps := p\<rparr>]"
    using setTaskState_ok [OF ok i] by blast
  obtain l where "LogErr now k err = Inr l" "counters_ok na nf l" "job_Tasks l = job_Tasks k"
    using LogErr_counters [OF k(2)] by blast
  with k i show ?thesis by (cases "s = TaskStateFAILED") auto
qed

lemma ResetTasks_keeps:
  assumes "counters_ok na nf j"
  shows "\<exists>j'. ResetTasks now j states = Inr j' \<and> counters_ok na nf j'"
proof -
  let ?I = "\<lambda>k. counters_ok na nf k \<and> length (job_Tasks k) = length (job_Tasks j)"
  have "\<exists>j'. ResetTasks now j states = Inr j' \<and> ?I j'"
    unfolding ResetTasks_def
  proof (rule foldE_total [where I = ?I])
    fix x k
    assume "x \<in> set [0..<length (job_Tasks j)]" and "?I k"
    then show "\<exists>t. (if (case states of None \<Rightarrow> True
            | Some l \<Rightarrow> task_contains (task_State (job_Tasks k ! x)) l)
        then bindE (setTaskState now k x TaskStateNEW) (\<lambda>(j', _). Inr j')
        else Inr k) = Inr t \<and> ?I t"
      using setTaskState_keeps [of na nf k x now TaskStateNEW] by auto
  qed (use assms in simp)
  then show ?thesis by blast
qed

lemma DeleteAllTasks_keeps:
  assumes "counters_ok na nf j"
  shows "\<exists>j'. DeleteAllTasks now j = Inr j' \<and> counters_ok na nf j'"
proof -
  let ?I = "\<lambda>k. counters_ok na nf k \<and> length (job_Tasks k) = length (job_Tasks j)"
  have "\<exists>j'. DeleteAllTasks now j = Inr j' \<and> ?I j'"
    unfolding DeleteAllTasks_def
  proof (rule foldE_total [where I = ?I])
    fix x k
    assume "x \<in> set [0..<length (job_Tasks j)]" and "?I k"
    then show "\<exists>t. DeleteTask now k x = Inr t \<and> ?I t"
      using DeleteTask_keeps [of na nf k x now] by simp
  qed (use assms in simp)
  then show ?thesis by blast
qed

text \<open>Which operations are called as their contract says: a position within the slice.\<close>

fun op_in_range :: "task_op \<Rightarrow> 'p Job \<Rightarrow> bool" where
  "op_in_range (OpCancel i) j \<longleftrightarrow> i < length (job_Tasks j)"
| "op_in_range (OpDelete i) j \<longleftrightarrow> i < length (job_Tasks j)"
| "op_in_range _ j \<longleftrightarrow> True"

text \<open>The statuses that \<open>TaskStatus.String\<close> knows.\<close>

definition named_status :: "TaskStatus \<Rightarrow> bool" where
  "named_status st \<longleftrightarrow> st \<in> {TaskSuccessful, TaskFailed, TaskCancelled}"

fun op_named :: "task_op \<Rightarrow> bool" where
  "op_named (OpUpdate evt) \<longleftrightarrow> named_status (tev_Status evt)"
| "op_named _ \<longleftrightarrow> True"

lemma TaskStatus_String_named: "named_status st \<Longrightarrow> \<exists>s. TaskStatus_String st = Inr s"
  by (cases st) (auto simp: named_status_def)

lemma UpdateTask_keeps:
  assumes ok: "counters_ok na nf j"
  shows "(\<exists>j' r. UpdateTask now j evt = Inr (j', r) \<and> counters_ok na nf j')
       \<or> UpdateTask now j evt = Inl ''undefined task status'' \<and> \<not> named_status (tev_Status evt)"
proof (cases "task_index (job_Tasks j) (tev_TaskID evt)")
  case None
  with ok show ?thesis by (auto simp: UpdateTask_def)
next
  case (Some i)
  then have i: "i < length (job_Tasks j)" by (simp add: task_index_Some)
  have refuse: "(\<exists>s. TaskStatus_String (tev_Status evt) = Inr s)
      \<or> TaskStatus_String (tev_Status evt) = Inl ''undefined task status''
         \<and> \<not> named_status (tev_Status evt)"
    by (cases "tev_Status evt") (auto simp: named_status_def)
  from UpdateTask_changes [OF ok i, of now "taskStateFromStatus (tev_Status evt)"
      "''Task '' @ tev_TaskID evt @ '' failed: '' @ tev_Error evt"]
  show ?thesis using Some ok refuse by (auto simp: UpdateTask_def Let_def)
qed

lemma run_task_op_keeps:
  assumes "counters_ok na nf j" and "op_in_range op j" and "op_named op"
  shows "\<exists>j'. run_task_op now op j = Inr j' \<and> counters_ok na nf j'"
proof (cases op)
  case (OpCreateConsolidation uuid enc)
  show ?thesis
  proof (cases enc)
    case (Inr payload)
    have "\<exists>j'. job_dirty now (j\<lparr>job_ActiveTasks := job_ActiveTasks j + 1,
        job_Tasks := job_Tasks j @ [\<lparr>task_ps = persistenceStateNEW, task_ID = uuid,
          task_State = TaskStateNEW, task_Payload = payload\<rparr>]\<rparr>) = Inr j' \<and> counters_ok na nf j'"
      by (rule counters_ok_append [OF assms(1)]) simp_all
    with OpCreateConsolidation Inr show ?thesis
      by (auto simp: CreateConsolidationTask_def newConsolidationTask_def)
  qed (use OpCreateConsolidation assms(1) in
      \<open>simp add: CreateConsolidationTask_def newConsolidationTask_def\<close>)
next
  case (OpCreateDeletion uuid uri)
  with counters_ok_append [OF assms(1)] show ?thesis
    by (simp add: CreateDeletionTask_def newDeletionTask_def)
next
  case (OpUpdate evt)
  with UpdateTask_keeps [OF assms(1), of now evt] assms(3) show ?thesis by auto
next
  case (OpReset states)
  with ResetTasks_keeps [OF assms(1)] show ?thesis by simp
next
  case (OpCancel i)
  with setTaskState_keeps [OF assms(1), of i now TaskStateCANCELLED] assms(2)
  show ?thesis by (auto simp: CancelTask_def)
next
  case (OpDelete i)
  with DeleteTask_keeps [OF assms(1)] assms(2) show ?thesis by auto
next
  case OpDeleteAll
  with DeleteAllTasks_keeps [OF assms(1)] show ?thesis by simp
qed

section \<open>Properties\<close>

lemma run_task_op_preserves:
  assumes "counters_ok na nf j" and "run_task_op now op j = Inr j'"
  shows "counters_ok na nf j'"
proof (cases "op_in_range op j \<and> op_named op")
  case True
  with run_task_op_keeps [OF assms(1), of op now] assms(2) show ?thesis by auto
next
  case False
  then show ?thesis
  proof (cases op)
    case (OpUpdate evt)
    with UpdateTask_keeps [OF assms(1), of now evt] assms(2) show ?thesis by auto
  qed (use False assms(2) in \<open>auto simp: CancelTask_def DeleteTask_def\<close>)
qed

definition demo_tasks :: "task_op list" where
  "demo_tasks = [OpCreateDeletion ''t1'' ''gs://a'', OpCreateDeletion ''t2'' ''gs://b'',
     OpUpdate \<lparr>tev_JobID = ''j'', tev_TaskID = ''t1'', tev_Status = TaskFailed, tev_Error = ''boom''\<rparr>,
     OpCancel 1, OpReset (Some [TaskStateFAILED]), OpDelete 1]"

definition deleting :: "unit Job" where
  "deleting = (NewJob ''j'')\<lparr>job_State := JobStateDELETIONEFFECTIVE, job_Type := JobTypeDELETION\<rparr>"

text \<open>
  C14. The counters are exact.  Take a job whose \<open>ActiveTasks\<close> and \<open>FailedTasks\<close> count its
  tasks, \<open>na\<close> active and \<open>nf\<close> failed ones being in the database only.  After any sequence of
  creations, task events, resets, cancellations and deletions that returns, \<open>ActiveTasks\<close> is
  \<open>na\<close> plus the number of loaded tasks in state NEW or PENDING, and \<open>FailedTasks\<close> is \<open>nf\<close> plus
  the number of loaded tasks in state FAILED.
\<close>

theorem task_counters_exact:
  assumes "counters_ok na nf j" and "foldE (run_task_op now) ops j = Inr j'"
  shows "job_ActiveTasks j' = int na + count_if task_active (job_Tasks j')
       \<and> job_FailedTasks j' = int nf + count_if task_failed (job_Tasks j')"
proof -
  have "counters_ok na nf j'"
    by (rule foldE_invariant [where I = "counters_ok na nf", OF assms(2,1)])
      (rule run_task_op_preserves)
  then show ?thesis by (simp add: counters_ok_def)
qed

lemma deleting_ok: "counters_ok 0 0 deleting"
  by (simp add: deleting_def counters_ok_def NewJob_def)

theorem task_counters_exact_witness:
  "counters_ok 0 0 deleting
   \<and> (case foldE (run_task_op 7) demo_tasks deleting of
        Inr j \<Rightarrow> job_ActiveTasks j = count_if task_active (job_Tasks j)
               \<and> job_FailedTasks j = count_if task_failed (job_Tasks j)
               \<and> map task_State (job_Tasks j) = [TaskStateNEW, TaskStateCANCELLED]
      | Inl _ \<Rightarrow> False)"
proof -
  have run: "(case foldE (run_task_op 7) demo_tasks deleting of
      Inr j \<Rightarrow> map task_State (job_Tasks j) = [TaskStateNEW, TaskStateCANCELLED] | Inl _ \<Rightarrow> False)"
    by code_simp
  then obtain j where j: "foldE (run_task_op 7) demo_tasks deleting = Inr j"
    by (cases "foldE (run_task_op 7) demo_tasks deleting") simp_all
  from task_counters_exact [OF deleting_ok j] run j deleting_ok show ?thesis by simp
qed

text \<open>
  On a job whose counters are exact no task operation panics: the guards against negative
  counters in \<open>updateTaskCounters\<close> never fire, provided that \<open>CancelTask\<close> and \<open>DeleteTask\<close> get an
  index of the slice and that a task event carries one of the three statuses that have a name.
\<close>

theorem task_operations_never_panic:
  assumes "counters_ok na nf j" and "op_in_range op j" and "op_named op"
  shows "\<exists>j'. run_task_op now op j = Inr j'"
  using run_task_op_keeps [OF assms] by blast

theorem task_operations_never_panic_witness:
  "counters_ok 0 0 deleting \<and> op_in_range OpDeleteAll deleting
   \<and> (\<exists>j'. run_task_op 3 OpDeleteAll deleting = Inr j')"
  using task_operations_never_panic [OF deleting_ok, of OpDeleteAll] deleting_ok by simp

text \<open>The states in which a job takes task events.\<close>

definition takes_task_events :: "'p Job \<Rightarrow> bool" where
  "takes_task_events j \<longleftrightarrow> job_State j \<in>
     {JobStateCONSOLIDATIONINPROGRESS, JobStateDELETIONEFFECTIVE, JobStateCONSOLIDATIONCANCELLING}"

text \<open>The state that a status reports for its task.\<close>

fun reported :: "TaskStatus \<Rightarrow> TaskState" where
  "reported TaskSuccessful = TaskStateDONE"
| "reported TaskFailed = TaskStateFAILED"
| "reported TaskIgnored = TaskStateCANCELLED"
| "reported TaskCancelled = TaskStateCANCELLED"
| "reported TaskSent = TaskStatePENDING"

lemma taskStateFromStatus_reported: "taskStateFromStatus st = reported st"
  by (cases st) simp_all

text \<open>
  C32. What \<open>UpdateTask\<close> does with an event of any of the five statuses: an event about an unknown
  task is answered with \<open>EntityNotFound\<close>; an event that does not change the state of its task is accepted
  silently; if the job is not in a state that takes task events, or the task is DONE, the event is
  refused and the job is unchanged, except that the refusal of \<open>TaskSent\<close> and \<open>TaskIgnored\<close>
  panics, because \<open>TaskStatus.String\<close> has no name for these two; a FAILED or CANCELLED task accepts
  only DONE and ignores the rest; otherwise the task gets the reported state, no other task
  changes and the counters stay exact.
\<close>

theorem UpdateTask_outcome:
  assumes "counters_ok na nf j"
  shows "case task_index (job_Tasks j) (tev_TaskID evt) of
      None \<Rightarrow> UpdateTask now j evt = Inr (j, Some (NewEntityNotFound ''Task'' ''id'' (tev_TaskID evt)))
    | Some i \<Rightarrow>
        let old = task_State (job_Tasks j ! i); new = reported (tev_Status evt) in
        if old = new then UpdateTask now j evt = Inr (j, None)
        else if \<not> takes_task_events j \<or> old = TaskStateDONE
        then UpdateTask now j evt =
          (if tev_Status evt = TaskSent \<or> tev_Status evt = TaskIgnored then Inl ''undefined task status''
           else Inr (j, Some NewUnhandledEvent))
        else if old \<in> {TaskStateFAILED, TaskStateCANCELLED} \<and> new \<noteq> TaskStateDONE
        then UpdateTask now j evt = Inr (j, None)
        else \<exists>j'. UpdateTask now j evt = Inr (j', None) \<and> counters_ok na nf j'
               \<and> length (job_Tasks j') = length (job_Tasks j)
               \<and> task_State (job_Tasks j' ! i) = new
               \<and> (\<forall>k. k \<noteq> i \<longrightarrow> job_Tasks j' ! k = job_Tasks j ! k)"
proof (cases "task_index (job_Tasks j) (tev_TaskID evt)")
  case None
  then show ?thesis by (simp add: UpdateTask_def)
next
  case (Some i)
  define new where "new = reported (tev_Status evt)"
  have refuse: "bindE (TaskStatus_String (tev_Status evt)) (\<lambda>_. Inr (j, Some NewUnhandledEvent)) =
      (if tev_Status evt = TaskSent \<or> tev_Status evt = TaskIgnored then Inl ''undefined task status''
       else Inr (j, Some NewUnhandledEvent))"
    by (cases "tev_Status evt") simp_all
  have "i < length (job_Tasks j)" using Some by (simp add: task_index_Some)
  from UpdateTask_changes [OF assms(1) this, of now new
      "''Task '' @ tev_TaskID evt @ '' failed: '' @ tev_Error evt"]
  obtain j' where change: "bindE (setTaskState now j i new) (\<lambda>(j', _).
        bindE (if new = TaskStateFAILED
               then LogErr now j' (''Task '' @ tev_TaskID evt @ '' failed: '' @ tev_Error evt)
               else Inr j') (\<lambda>j''. Inr (j'', None :: GeocubeError option))) = Inr (j', None)"
    and j': "counters_ok na nf j'" "length (job_Tasks j') = length (job_Tasks j)"
      "task_State (job_Tasks j' ! i) = new" "\<forall>k. k \<noteq> i \<longrightarrow> job_Tasks j' ! k = job_Tasks j ! k"
    by blast
  show ?thesis
    unfolding UpdateTask_def Some Let_def option.case taskStateFromStatus_reported new_def [symmetric] change refuse
      takes_task_events_def
    using j' by auto
qed

definition one_task :: "unit Job" where
  "one_task = deleting\<lparr>job_ActiveTasks := 1, job_Tasks := [newDeletionTask ''t1'' ''gs://a'']\<rparr>"

lemma one_task_ok: "counters_ok 0 0 one_task"
  by (simp add: one_task_def deleting_def counters_ok_def NewJob_def newDeletionTask_def
      task_active_def task_failed_def)

definition task_failure :: TaskEvent where
  "task_failure = \<lparr>tev_JobID = ''j'', tev_TaskID = ''t1'', tev_Status = TaskFailed,
     tev_Error = ''boom''\<rparr>"

theorem UpdateTask_outcome_witness:
  "(\<exists>j'. UpdateTask 5 one_task task_failure = Inr (j', None) \<and> counters_ok 0 0 j'
        \<and> task_State (job_Tasks j' ! 0) = TaskStateFAILED)"
proof -
  have idx: "task_index (job_Tasks one_task) (tev_TaskID task_failure) = Some 0"
    and old: "task_State (job_Tasks one_task ! 0) = TaskStateNEW"
    and new: "reported (tev_Status task_failure) = TaskStateFAILED"
    and takes: "takes_task_events one_task"
    by (simp_all add: one_task_def deleting_def newDeletionTask_def task_failure_def
        takes_task_events_def)
  from UpdateTask_outcome [OF one_task_ok, where evt = task_failure and now = 5]
  show ?thesis unfolding idx by (auto simp: Let_def old new takes)
qed

lemma ResetTasks_prefix:
  assumes "counters_ok na nf j" and "n \<le> length (job_Tasks j)"
  shows "\<exists>j'. foldE (\<lambda>i j. bindE (setTaskState now j i TaskStateNEW) (\<lambda>(j', _). Inr j'))
            [0..<n] j = Inr j' \<and> counters_ok na nf j'
          \<and> length (job_Tasks j') = length (job_Tasks j)
          \<and> (\<forall>i < n. task_State (job_Tasks j' ! i) = TaskStateNEW)"
  using assms(2)
proof (induction n)
  case 0
  with assms(1) show ?case by simp
next
  case (Suc n)
  then obtain k where k: "foldE (\<lambda>i j. bindE (setTaskState now j i TaskStateNEW)
      (\<lambda>(j', _). Inr j')) [0..<n] j = Inr k" "counters_ok na nf k"
      "length (job_Tasks k) = length (job_Tasks j)"
      "\<forall>i < n. task_State (job_Tasks k ! i) = TaskStateNEW"
    by auto
  obtain l b p where l: "setTaskState now k n TaskStateNEW = Inr (l, b)" "counters_ok na nf l"
    "job_Tasks l = (job_Tasks k)[n := (job_Tasks k ! n)\<lparr>task_State := TaskStateNEW, task_ps := p\<rparr>]"
    using setTaskState_ok [OF k(2), of n now TaskStateNEW] k(3) Suc.prems by auto
  have "\<forall>i < Suc n. task_State (job_Tasks l ! i) = TaskStateNEW"
    using k(3,4) l(3) Suc.prems by (auto simp: nth_list_update less_Suc_eq)
  with k l show ?case by (simp add: foldE_append)
qed

lemma count_if_nth_all: "(\<forall>i < length xs. P (xs ! i)) \<Longrightarrow> count_if P xs = int (length xs)"
  by (induction xs) (auto simp: nth_Cons split: nat.splits)

lemma count_if_nth_none: "(\<forall>i < length xs. \<not> P (xs ! i)) \<Longrightarrow> count_if P xs = 0"
  by (induction xs) (auto simp: nth_Cons split: nat.splits)

text \<open>
  \<open>ResetTasks(nil)\<close> restarts every loaded task: all of them are NEW, \<open>ActiveTasks\<close> counts all
  of them and \<open>FailedTasks\<close> counts only those that are not loaded.
\<close>

theorem ResetTasks_restarts_all:
  assumes "counters_ok na nf j"
  shows "\<exists>j'. ResetTasks now j None = Inr j' \<and> length (job_Tasks j') = length (job_Tasks j)
           \<and> (\<forall>t \<in> set (job_Tasks j'). task_State t = TaskStateNEW)
           \<and> job_ActiveTasks j' = int na + int (length (job_Tasks j))
           \<and> job_FailedTasks j' = int nf"
proof -
  obtain k where k: "foldE (\<lambda>i j. bindE (setTaskState now j i TaskStateNEW)
      (\<lambda>(j', _). Inr j')) [0..<length (job_Tasks j)] j = Inr k" "counters_ok na nf k"
      "length (job_Tasks k) = length (job_Tasks j)"
      and new: "\<forall>i < length (job_Tasks k). task_State (job_Tasks k ! i) = TaskStateNEW"
    using ResetTasks_prefix [OF assms order_refl, of now] by auto
  from new have "count_if task_active (job_Tasks k) = int (length (job_Tasks k))"
    and "count_if task_failed (job_Tasks k) = 0"
    by (simp_all add: count_if_nth_all count_if_nth_none task_active_def task_failed_def)
  with k new show ?thesis
    by (auto simp: ResetTasks_def counters_ok_def in_set_conv_nth)
qed

theorem ResetTasks_restarts_all_witness:
  "counters_ok 0 0 one_task \<and>
   (\<exists>j'. ResetTasks 9 one_task None = Inr j' \<and> job_ActiveTasks j' = 1 \<and> job_FailedTasks j' = 0)"
  using ResetTasks_restarts_all [OF one_task_ok, of 9] one_task_ok
  by (auto simp: one_task_def)

lemma mark_tasks_all:
  "\<forall>t \<in> set ts. task_ps t \<noteq> persistenceStateDELETED \<Longrightarrow>
   mark_tasks True ts = Inr (Some (map (\<lambda>t. if ps_IsActive (task_ps t)
     then t\<lparr>task_ps := persistenceStateTODELETE\<rparr> else t) ts))"
  by (induction ts) (auto simp: ps_toDelete_def mustNotBeDeleted_def)

lemma mark_tasks_some:
  "mark_tasks False ts = Inr (if list_ex (\<lambda>t. ps_IsActive (task_ps t)) ts then None else Some ts)"
  by (induction ts) auto


text \<open>Every lock of the job can still be written to.\<close>

definition locks_alive :: "'p Job \<Rightarrow> bool" where
  "locks_alive j \<longleftrightarrow> list_all (\<lambda>l. ld_ps l \<noteq> persistenceStateDELETED) (job_LockedDatasets j)"

lemma release_prefix:
  assumes "locks_alive j" and "n \<le> length (job_LockedDatasets j)"
  shows "foldE (\<lambda>i j. ld_toDelete j i) [0..<n] j = Inr (j\<lparr>job_LockedDatasets :=
           map (\<lambda>l. l\<lparr>ld_ps := persistenceStateTODELETE\<rparr>) (take n (job_LockedDatasets j))
             @ drop n (job_LockedDatasets j)\<rparr>)"
  using assms(2)
proof (induction n)
  case (Suc n)
  let ?ls = "job_LockedDatasets j"
  from Suc.prems have n: "n < length ?ls" by simp
  then have alive: "ld_ps (?ls ! n) \<noteq> persistenceStateDELETED"
    using assms(1) by (simp add: locks_alive_def list_all_length)
  have "drop n ?ls = ?ls ! n # drop (Suc n) ?ls" using n by (simp add: Cons_nth_drop_Suc)
  with Suc n alive show ?case
    by (simp add: foldE_append ld_toDelete_def ps_toDelete_def mustNotBeDeleted_def
        nth_append list_update_append take_Suc_conv_app_nth)
qed simp

text \<open>
  \<open>Job.ToDelete\<close> succeeds if \<open>all\<close> is set or no task is active, and then the job, its locks
  and every active task are marked for deletion and no task is lost; otherwise it returns
  \<open>false\<close> and has changed nothing.
\<close>

theorem job_ToDelete_outcome:
  assumes "counters_ok na nf j" and "locks_alive j"
  shows "if all \<or> \<not> list_ex (\<lambda>t. ps_IsActive (task_ps t)) (job_Tasks j)
     then \<exists>j'. job_ToDelete j all = Inr (j', True)
           \<and> ps_IsToDelete (job_ps j')
           \<and> list_all (\<lambda>t. \<not> ps_IsActive (task_ps t)) (job_Tasks j')
           \<and> list_all (\<lambda>l. ps_IsToDelete (ld_ps l)) (job_LockedDatasets j')
           \<and> map task_ID (job_Tasks j') = map task_ID (job_Tasks j)
     else job_ToDelete j all = Inr (j, False)"
proof -
  let ?active = "list_ex (\<lambda>t. ps_IsActive (task_ps t)) (job_Tasks j)"
  have alive: "job_ps j \<noteq> persistenceStateDELETED"
      "\<forall>t \<in> set (job_Tasks j). task_ps t \<noteq> persistenceStateDELETED"
    using assms(1) by (auto simp: counters_ok_def)
  have release: "ReleaseDatasets (j\<lparr>job_Tasks := ts\<rparr>) LockFlagALL = Inr (j\<lparr>job_Tasks := ts,
      job_LockedDatasets := map (\<lambda>l. l\<lparr>ld_ps := persistenceStateTODELETE\<rparr>)
        (job_LockedDatasets j)\<rparr>)" for ts
    using release_prefix [of "j\<lparr>job_Tasks := ts\<rparr>" "length (job_LockedDatasets j)"] assms(2)
    by (simp add: ReleaseDatasets_def locks_alive_def)
  note defs = job_ToDelete_def release ps_toDelete_def mustNotBeDeleted_def ps_IsToDelete_def
    alive(1)
  show ?thesis
  proof (cases all)
    case True
    then show ?thesis
      by (auto simp: defs mark_tasks_all [OF alive(2)] list_all_iff ps_IsActive_def)
  next
    case False
    then show ?thesis
      by (auto simp: defs release [of "job_Tasks j", simplified] mark_tasks_some
          list_all_iff list_ex_iff)
  qed
qed

lemma one_task_locks: "locks_alive one_task"
  by (simp add: locks_alive_def one_task_def deleting_def NewJob_def ld_zero_def
      list_all_iff)

theorem job_ToDelete_outcome_witness:
  "counters_ok 0 0 one_task \<and> locks_alive one_task
   \<and> job_ToDelete one_task False = Inr (one_task, False)"
proof -
  have "list_ex (\<lambda>t. ps_IsActive (task_ps t)) (job_Tasks one_task)"
    by (simp add: one_task_def newDeletionTask_def ps_IsActive_def)
  with job_ToDelete_outcome [OF one_task_ok one_task_locks, of False]
  show ?thesis using one_task_ok one_task_locks by simp
qed

end
