(* ===== verification/Glob.thy ===== *)
theory Glob
  imports Prelude
begin

text \<open>
  Glob patterns (\<^verbatim>\<open>internal/legacy/glob\<close>): the matcher that every command with a pattern uses,
  and \<open>Parse\<close>, which computes from a pattern the range of identifiers that a scan visits.
  The matcher works on bytes and decodes UTF-8 for \<open>?\<close> and for character classes;
  \<open>DecodeRuneInString\<close> is the decoder of the Go standard library.
\<close>

section \<open>UTF-8 decoding\<close>

type_synonym rune = int

abbreviation RuneError :: rune where "RuneError \<equiv> 0xFFFD"

text \<open>The size of the sequence that a leading byte announces, and the range of its second byte.\<close>

definition utf8_lead :: "byte \<Rightarrow> (nat \<times> byte \<times> byte) option" where
  "utf8_lead b =
     (if 0xC2 \<le> b \<and> b \<le> 0xDF then Some (2, 0x80, 0xBF)
      else if b = 0xE0 then Some (3, 0xA0, 0xBF)
      else if b = 0xED then Some (3, 0x80, 0x9F)
      else if 0xE1 \<le> b \<and> b \<le> 0xEF then Some (3, 0x80, 0xBF)
      else if b = 0xF0 then Some (4, 0x90, 0xBF)
      else if 0xF1 \<le> b \<and> b \<le> 0xF3 then Some (4, 0x80, 0xBF)
      else if b = 0xF4 then Some (4, 0x80, 0x8F)
      else None)"

definition utf8_cont :: "byte \<Rightarrow> bool" where
  "utf8_cont b \<longleftrightarrow> 0x80 \<le> b \<and> b \<le> 0xBF"

fun DecodeRuneInString :: "gostring \<Rightarrow> rune \<times> nat" where
  "DecodeRuneInString [] = (RuneError, 0)"
| "DecodeRuneInString (b # t) =
     (if b < 0x80 then (uint b, 1)
      else case utf8_lead b of
        None \<Rightarrow> (RuneError, 1)
      | Some (n, lo, hi) \<Rightarrow>
          (case t of
             [] \<Rightarrow> (RuneError, 1)
           | c # u \<Rightarrow>
               if lo \<le> c \<and> c \<le> hi \<and> n - 2 \<le> length u \<and> list_all utf8_cont (take (n - 2) u)
               then (foldl (\<lambda>r x. r * 64 + uint x mod 64) (uint b mod 2 ^ (7 - n))
                       (c # take (n - 2) u), n)
               else (RuneError, 1)))"

lemma utf8_lead_size: "utf8_lead b = Some (n, lo, hi) \<Longrightarrow> 2 \<le> n \<and> n \<le> 4 \<and> 0x80 \<le> lo"
  by (auto simp: utf8_lead_def split: if_splits)

lemma decode_size:
  assumes "s \<noteq> []" and "DecodeRuneInString s = (r, n)"
  shows "1 \<le> n" and "n \<le> length s"
  using assms utf8_lead_size by (cases s; fastforce split: if_splits option.splits list.splits)+

text \<open>A decoded rune does not depend on what follows it, and only its first byte can be ASCII.\<close>

lemma decode_local:
  assumes "DecodeRuneInString s = (r, n)" and "\<not> (r = RuneError \<and> n = 1)" and "s \<noteq> []"
  shows "\<exists>b p. take n s = b # p \<and> list_all (\<lambda>x. 0x80 \<le> x) p
           \<and> (\<forall>x. DecodeRuneInString (b # p @ x) = (r, n))"
proof -
  obtain b t where s: "s = b # t" using assms(3) by (cases s) auto
  show ?thesis
  proof (cases "b < 0x80")
    case True
    with assms s show ?thesis by auto
  next
    case False
    with assms s obtain m lo hi where lead: "utf8_lead b = Some (m, lo, hi)"
      by (auto split: option.splits)
    with assms s False obtain c u where t: "t = c # u"
      by (cases t) auto
    from assms(1,2) have ok: "lo \<le> c" "c \<le> hi" "m - 2 \<le> length u"
        "list_all utf8_cont (take (m - 2) u)" "n = m"
      and r: "r = foldl (\<lambda>r x. r * 64 + uint x mod 64) (uint b mod 2 ^ (7 - n))
                    (c # take (n - 2) u)"
      using s t lead False by (auto split: if_splits)
    have m: "2 \<le> m" "0x80 \<le> lo" using utf8_lead_size [OF lead] by auto
    then obtain k where k: "m = Suc (Suc k)" by (metis Suc_diff_le add_2_eq_Suc le_add_diff_inverse)
    have "take n s = b # c # take k u" using s t k ok(5) by simp
    moreover have "list_all (\<lambda>x. 0x80 \<le> x) (c # take k u)"
      using ok m k by (auto simp: utf8_cont_def list_all_iff)
    moreover have "DecodeRuneInString (b # (c # take k u) @ x) = (r, n)" for x
      using False lead ok r k by simp
    ultimately show ?thesis by blast
  qed
qed

declare DecodeRuneInString.simps(2) [simp del]

section \<open>The matcher\<close>

abbreviation chBackslash :: byte where "chBackslash \<equiv> 0x5C"
abbreviation chOpen :: byte where "chOpen \<equiv> 0x5B"
abbreviation chClose :: byte where "chClose \<equiv> 0x5D"
abbreviation chCaret :: byte where "chCaret \<equiv> 0x5E"
abbreviation chDash :: byte where "chDash \<equiv> 0x2D"
abbreviation chQuestion :: byte where "chQuestion \<equiv> 0x3F"
abbreviation chStar :: byte where "chStar \<equiv> 0x2A"

text \<open>The error of the package, and the panic of an access to the first byte of an empty string.\<close>

datatype glob_error = ErrBadPattern | IndexOutOfRange

definition getEsc :: "gostring \<Rightarrow> glob_error + (rune \<times> gostring)" where
  "getEsc chunk =
     (if chunk = [] \<or> hd chunk = chDash \<or> hd chunk = chClose then Inl ErrBadPattern
      else let chunk' = (if hd chunk = chBackslash then tl chunk else chunk) in
           if chunk' = [] then Inl ErrBadPattern
           else let (r, n) = DecodeRuneInString chunk'; nchunk = drop n chunk' in
                if r = RuneError \<and> n = 1 \<or> nchunk = [] then Inl ErrBadPattern
                else Inr (r, nchunk))"

text \<open>
  What a successful \<open>getEsc\<close> consumed: a non-empty string \<open>p\<close>, whose bytes are an optional
  backslash, any byte after it, and then bytes that are not ASCII.
\<close>

definition esc_shape :: "gostring \<Rightarrow> bool" where
  "esc_shape p \<longleftrightarrow> (\<exists>b q. list_all (\<lambda>x. 0x80 \<le> x) q
     \<and> (p = b # q \<and> b \<noteq> chBackslash \<and> b \<noteq> chClose \<and> b \<noteq> chDash \<or> p = chBackslash # b # q))"

lemma getEsc_consumes:
  assumes "getEsc chunk = Inr (r, rest)"
  shows "\<exists>p. chunk = p @ rest \<and> rest \<noteq> [] \<and> esc_shape p
           \<and> (\<forall>x. x \<noteq> [] \<longrightarrow> getEsc (p @ x) = Inr (r, x))"
proof -
  define chunk' where "chunk' = (if hd chunk = chBackslash then tl chunk else chunk)"
  obtain n where n: "DecodeRuneInString chunk' = (r, n)" "\<not> (r = RuneError \<and> n = 1)"
      "rest = drop n chunk'" "rest \<noteq> []" "chunk' \<noteq> []"
    and c: "chunk \<noteq> []" "hd chunk \<noteq> chDash" "hd chunk \<noteq> chClose"
    using assms by (auto simp: getEsc_def chunk'_def Let_def split: if_splits prod.splits)
  obtain b q where q: "take n chunk' = b # q" "list_all (\<lambda>x. 0x80 \<le> x) q"
      "\<And>x. DecodeRuneInString (b # q @ x) = (r, n)"
    using decode_local [OF n(1,2,5)] by blast
  have len: "length (b # q) = n"
    using arg_cong [OF q(1), of length] decode_size [OF n(5,1)] by simp
  have chunk': "chunk' = b # q @ rest"
    using append_take_drop_id [of n chunk'] q(1) n(3) by simp
  show ?thesis
  proof (cases "hd chunk = chBackslash")
    case True
    then have "chunk = chBackslash # chunk'" using c(1) by (cases chunk) (auto simp: chunk'_def)
    moreover have "getEsc ((chBackslash # b # q) @ x) = Inr (r, x)" if "x \<noteq> []" for x
      using that q(3) [of x] n(2) len by (auto simp: getEsc_def)
    moreover have "esc_shape (chBackslash # b # q)" using q(2) by (auto simp: esc_shape_def)
    ultimately show ?thesis using chunk' n(4) by (intro exI [of _ "chBackslash # b # q"]) auto
  next
    case False
    then have "chunk = chunk'" by (simp add: chunk'_def)
    moreover from this False c chunk' have b: "b \<noteq> chBackslash" "b \<noteq> chDash" "b \<noteq> chClose" by auto
    moreover have "getEsc ((b # q) @ x) = Inr (r, x)" if "x \<noteq> []" for x
      using that q(3) [of x] n(2) len b by (auto simp: getEsc_def)
    moreover have "esc_shape (b # q)" using q(2) b by (auto simp: esc_shape_def)
    ultimately show ?thesis using chunk' n(4) by (intro exI [of _ "b # q"]) auto
  qed
qed

lemma getEsc_shorter: "getEsc chunk = Inr (r, rest) \<Longrightarrow> length rest < length chunk"
  using getEsc_consumes [of chunk r rest] by (auto simp: esc_shape_def)

text \<open>One range of a character class, \<open>lo\<close> or \<open>lo-hi\<close>, and the text after it.\<close>

definition getRange :: "gostring \<Rightarrow> glob_error + (rune \<times> rune \<times> gostring)" where
  "getRange chunk = bindE (getEsc chunk) (\<lambda>(lo, chunk').
     case chunk' of
       [] \<Rightarrow> Inl IndexOutOfRange
     | c # chunk'' \<Rightarrow>
         if c = chDash then bindE (getEsc chunk'') (\<lambda>(hi, nchunk). Inr (lo, hi, nchunk))
         else Inr (lo, lo, chunk'))"

lemma getRange_shorter: "getRange chunk = Inr (lo, hi, rest) \<Longrightarrow> length rest < length chunk"
proof -
  assume range: "getRange chunk = Inr (lo, hi, rest)"
  then obtain lo' chunk' where "getEsc chunk = Inr (lo', chunk')"
    by (cases "getEsc chunk") (auto simp: getRange_def)
  with range show ?thesis
    by (cases chunk') (auto simp: getRange_def go_simps split: if_splits dest!: getEsc_shorter)
qed

text \<open>The loop over the ranges of a character class, from the byte after the caret.\<close>

function matchRanges :: "rune \<Rightarrow> bool \<Rightarrow> nat \<Rightarrow> gostring \<Rightarrow> glob_error + (bool \<times> gostring)" where
  "matchRanges r match nrange chunk =
     (if chunk \<noteq> [] \<and> hd chunk = chClose \<and> 0 < nrange then Inr (match, tl chunk)
      else case getRange chunk of
        Inl e \<Rightarrow> Inl e
      | Inr (lo, hi, chunk') \<Rightarrow>
          matchRanges r (if lo \<le> r \<and> r \<le> hi then True else match) (nrange + 1) chunk')"
  by pat_completeness auto
termination
  by (relation "measure (\<lambda>(_, _, _, chunk). length chunk)") (auto dest!: getRange_shorter)

declare matchRanges.simps [simp del]

text \<open>The ranges of a class do not depend on the rune that is tested.\<close>

function parseRanges :: "nat \<Rightarrow> gostring \<Rightarrow> glob_error + ((rune \<times> rune) list \<times> gostring)" where
  "parseRanges nrange chunk =
     (if chunk \<noteq> [] \<and> hd chunk = chClose \<and> 0 < nrange then Inr ([], tl chunk)
      else case getRange chunk of
        Inl e \<Rightarrow> Inl e
      | Inr (lo, hi, chunk') \<Rightarrow>
          bindE (parseRanges (nrange + 1) chunk') (\<lambda>(rs, rest). Inr ((lo, hi) # rs, rest)))"
  by pat_completeness auto
termination
  by (relation "measure (\<lambda>(_, chunk). length chunk)") (auto dest!: getRange_shorter)

declare parseRanges.simps [simp del]

definition in_ranges :: "rune \<Rightarrow> (rune \<times> rune) list \<Rightarrow> bool" where
  "in_ranges r rs \<longleftrightarrow> list_ex (\<lambda>(lo, hi). lo \<le> r \<and> r \<le> hi) rs"

lemma matchRanges_parse:
  "matchRanges r match nrange chunk =
     bindE (parseRanges nrange chunk) (\<lambda>(rs, rest). Inr (match \<or> in_ranges r rs, rest))"
proof (induction r match nrange chunk rule: matchRanges.induct)
  case (1 r match nrange chunk)
  show ?case
  proof (cases "chunk \<noteq> [] \<and> hd chunk = chClose \<and> 0 < nrange")
    case True
    then show ?thesis
      by (simp add: matchRanges.simps [of r match] parseRanges.simps [of nrange chunk] in_ranges_def)
  next
    case False
    then have closed: "\<not> (chunk \<noteq> [] \<and> hd chunk = chClose \<and> 0 < nrange)" .
    show ?thesis
    proof (cases "getRange chunk")
      case (Inl e)
      with closed show ?thesis
        by (auto simp: matchRanges.simps [of r match] parseRanges.simps [of nrange chunk])
    next
      case (Inr b)
      obtain lo hi rest where b: "b = (lo, hi, rest)" by (cases b)
      with Inr closed have step: "matchRanges r match nrange chunk =
          matchRanges r (if lo \<le> r \<and> r \<le> hi then True else match) (nrange + 1) rest"
        and "parseRanges nrange chunk =
          bindE (parseRanges (nrange + 1) rest) (\<lambda>(rs, rest). Inr ((lo, hi) # rs, rest))"
        by (auto simp: matchRanges.simps [of r match nrange chunk] parseRanges.simps [of nrange chunk])
      with "1.IH" [OF closed Inr b [symmetric] refl] show ?thesis
        by (cases "parseRanges (nrange + 1) rest") (auto simp: in_ranges_def)
    qed
  qed
qed

lemma parseRanges_shorter: "parseRanges n chunk = Inr (rs, rest) \<Longrightarrow> length rest < length chunk"
proof (induction n chunk arbitrary: rs rule: parseRanges.induct)
  case (1 n chunk)
  show ?case
  proof (cases "chunk \<noteq> [] \<and> hd chunk = chClose \<and> 0 < n")
    case True
    with "1.prems" show ?thesis by (cases chunk) (auto simp: parseRanges.simps [of n])
  next
    case False
    with "1.prems" obtain lo hi u rs' where u: "getRange chunk = Inr (lo, hi, u)"
        "parseRanges (n + 1) u = Inr (rs', rest)"
      by (auto simp: parseRanges.simps [of n chunk] go_simps split: if_splits sum.splits)
    with "1.IH" [OF False u(1) refl refl u(2)] getRange_shorter [OF u(1)] show ?thesis by simp
  qed
qed

lemma matchRanges_shorter:
  "matchRanges r match n chunk = Inr (res, rest) \<Longrightarrow> length rest < length chunk"
  by (auto simp: matchRanges_parse go_simps dest: parseRanges_shorter)

text \<open>
  \<open>matchChunk\<close> returns the rest of the name after the match (\<open>Some\<close>), no match (\<open>None\<close>) or
  the error; in the last two cases the code returns an empty rest.
\<close>

function matchChunk :: "gostring \<Rightarrow> gostring \<Rightarrow> glob_error + gostring option" where
  "matchChunk chunk s =
     (case chunk of
        [] \<Rightarrow> Inr (Some s)
      | c # chunk1 \<Rightarrow>
          if s = [] then Inr None
          else if c = chOpen
          then (case chunk1 of
                  [] \<Rightarrow> Inl ErrBadPattern
                | d # chunk2 \<Rightarrow>
                    (case matchRanges (fst (DecodeRuneInString s)) False 0
                            (if d = chCaret then chunk2 else chunk1) of
                       Inl e \<Rightarrow> Inl e
                     | Inr (match, chunk3) \<Rightarrow>
                         if match = (d = chCaret) then Inr None
                         else matchChunk chunk3 (drop (snd (DecodeRuneInString s)) s)))
          else if c = chQuestion
          then matchChunk chunk1 (drop (snd (DecodeRuneInString s)) s)
          else if c = chBackslash
          then (case chunk1 of
                  [] \<Rightarrow> Inl ErrBadPattern
                | d # chunk2 \<Rightarrow> if d \<noteq> hd s then Inr None else matchChunk chunk2 (tl s))
          else if c \<noteq> hd s then Inr None else matchChunk chunk1 (tl s))"
  by pat_completeness auto
termination
  by (relation "measure (\<lambda>(chunk, s). length chunk)")
    (auto dest!: matchRanges_shorter split: if_splits)

declare matchChunk.simps [simp del]

fun skipStars :: "gostring \<Rightarrow> bool \<times> gostring" where
  "skipStars [] = (False, [])"
| "skipStars (c # p) = (if c = chStar then (True, snd (skipStars p)) else (False, c # p))"

fun splitChunk :: "bool \<Rightarrow> gostring \<Rightarrow> gostring \<times> gostring" where
  "splitChunk inrange [] = ([], [])"
| "splitChunk inrange (c # p) =
     (if c = chBackslash
      then (case p of
              [] \<Rightarrow> ([c], [])
            | d # q \<Rightarrow> apfst (\<lambda>a. c # d # a) (splitChunk inrange q))
      else if c = chOpen then apfst (Cons c) (splitChunk True p)
      else if c = chClose then apfst (Cons c) (splitChunk False p)
      else if c = chStar \<and> \<not> inrange then ([], c # p)
      else apfst (Cons c) (splitChunk inrange p))"

definition scanChunk :: "gostring \<Rightarrow> bool \<times> gostring \<times> gostring" where
  "scanChunk pattern =
     (let (star, p) = skipStars pattern; (chunk, rest) = splitChunk False p in (star, chunk, rest))"

text \<open>A match of the last chunk counts only if it has exhausted the name.\<close>

definition keepMatch :: "bool \<Rightarrow> gostring option \<Rightarrow> gostring option" where
  "keepMatch final res =
     (case res of Some t \<Rightarrow> if t = [] \<or> \<not> final then Some t else None | None \<Rightarrow> None)"

text \<open>The search behind a star: skip \<open>i + 1\<close> bytes of the name and try again.\<close>

fun searchChunk :: "gostring \<Rightarrow> bool \<Rightarrow> gostring \<Rightarrow> glob_error + gostring option" where
  "searchChunk chunk final [] = Inr None"
| "searchChunk chunk final (_ # name) =
     (case matchChunk chunk name of
        Inl e \<Rightarrow> Inl e
      | Inr res \<Rightarrow>
          (case keepMatch final res of
             Some t \<Rightarrow> Inr (Some t)
           | None \<Rightarrow> searchChunk chunk final name))"

lemma skipStars_length:
  "length (snd (skipStars p)) \<le> length p"
  "fst (skipStars p) \<Longrightarrow> length (snd (skipStars p)) < length p"
  by (induction p) (auto split: if_splits)

lemma skipStars_no_star: "snd (skipStars p) = [] \<or> hd (snd (skipStars p)) \<noteq> chStar"
  by (induction p) auto

lemma splitChunk_append: "splitChunk inrange p = (a, b) \<Longrightarrow> p = a @ b"
  by (induction inrange p arbitrary: a b rule: splitChunk.induct)
    (auto split: if_splits list.splits prod.splits simp: apfst_def map_prod_def)

lemma splitChunk_nonempty:
  "p \<noteq> [] \<Longrightarrow> hd p \<noteq> chStar \<Longrightarrow> fst (splitChunk inrange p) \<noteq> []"
  by (cases p) (auto split: list.splits)

lemma scanChunk_shorter:
  assumes "pattern \<noteq> []" and "scanChunk pattern = (star, chunk, rest)"
  shows "length rest < length pattern"
proof -
  obtain q where q: "skipStars pattern = (star, q)" "splitChunk False q = (chunk, rest)"
    using assms(2) by (auto simp: scanChunk_def split: prod.splits)
  have len: "length q = length chunk + length rest" using splitChunk_append [OF q(2)] by simp
  show ?thesis
  proof (cases star)
    case True
    with skipStars_length(2) [of pattern] q(1) len show ?thesis by simp
  next
    case False
    with q(1) assms(1) have "q = pattern" by (cases pattern) (auto split: if_splits)
    with skipStars_no_star [of pattern] assms(1) q have "hd q \<noteq> chStar" "q \<noteq> []" by auto
    then have "chunk \<noteq> []" using splitChunk_nonempty [of q False] q(2) by simp
    with len \<open>q = pattern\<close> show ?thesis by (cases chunk) auto
  qed
qed

function wildcardMatch :: "gostring \<Rightarrow> gostring \<Rightarrow> glob_error + bool" where
  "wildcardMatch pattern name =
     (if pattern = [] then Inr (name = [])
      else case scanChunk pattern of (star, chunk, rest) \<Rightarrow>
        if star \<and> chunk = [] then Inr True
        else case matchChunk chunk name of
          Inl e \<Rightarrow> Inl e
        | Inr res \<Rightarrow>
            (case keepMatch (rest = []) res of
               Some t \<Rightarrow> wildcardMatch rest t
             | None \<Rightarrow>
                 if star
                 then (case searchChunk chunk (rest = []) name of
                         Inl e \<Rightarrow> Inl e
                       | Inr None \<Rightarrow> Inr False
                       | Inr (Some t') \<Rightarrow> wildcardMatch rest t')
                 else Inr False))"
  by pat_completeness auto
termination
  by (relation "measure (\<lambda>(pattern, name). length pattern)")
    (auto dest!: scanChunk_shorter [OF _ sym] intro: scanChunk_shorter)

declare wildcardMatch.simps [simp del]

definition Match :: "gostring \<Rightarrow> gostring \<Rightarrow> glob_error + bool" where
  "Match pattern str = wildcardMatch pattern str"

section \<open>Parsing a pattern into a scan range\<close>

record Glob =
  glob_Pattern :: gostring
  glob_Desc :: bool
  glob_Limits :: "gostring list"
  glob_IsGlob :: bool

definition isMeta :: "byte \<Rightarrow> bool" where
  "isMeta c \<longleftrightarrow> c = chOpen \<or> c = chStar \<or> c = chQuestion"

definition validPattern :: "gostring \<Rightarrow> bool" where
  "validPattern pattern \<longleftrightarrow>
     (case Match pattern (lit ''whatever'') of Inl _ \<Rightarrow> False | Inr _ \<Rightarrow> True)"

definition IsGlob :: "gostring \<Rightarrow> bool" where
  "IsGlob pattern \<longleftrightarrow> list_ex isMeta pattern \<and> validPattern pattern"

text \<open>The loop of the descending case, for a prefix that ends in a zero byte.\<close>

function lowerZeros :: "gostring \<Rightarrow> gostring" where
  "lowerZeros b =
     (if b \<noteq> [] \<and> last b = 0
      then if 1 < length b
           then if b ! (length b - 2) = 0 then lowerZeros (take (length b - 1) b)
                else lowerZeros (take (length b - 2) b @ [b ! (length b - 2) - 1, 0xFF])
           else lowerZeros []
      else b)"
  by pat_completeness auto
termination
  by (relation "measure (\<lambda>b. if b \<noteq> [] \<and> last b = 0 then Suc (length b) else 0)") auto

declare lowerZeros.simps [simp del]

text \<open>The smallest string above and the largest string below the strings with a given prefix.\<close>

definition upperLimit :: "gostring \<Rightarrow> gostring" where
  "upperLimit a = (let n = length a in
     if a ! (n - 1) = 0xFF then a @ [0x00] else take (n - 1) a @ [a ! (n - 1) + 1])"

definition lowerLimit :: "gostring \<Rightarrow> gostring" where
  "lowerLimit b = (let n = length b in
     if b ! (n - 1) = 0x00 then lowerZeros b else take (n - 1) b @ [b ! (n - 1) - 1])"

definition Parse :: "gostring \<Rightarrow> bool \<Rightarrow> Glob" where
  "Parse pattern desc =
     (let g = \<lparr>glob_Pattern = pattern, glob_Desc = desc, glob_Limits = [[], []],
               glob_IsGlob = False\<rparr>;
          a = takeWhile (\<lambda>c. \<not> isMeta c) pattern;
          isGlob = (length a < length pattern \<and> validPattern pattern)
      in if pattern \<noteq> [] \<and> hd pattern = chStar then g\<lparr>glob_IsGlob := True\<rparr>
         else if pattern = [] then g
         else if a = [] then g\<lparr>glob_Limits := [pattern, pattern]\<rparr>
         else if desc then g\<lparr>glob_Limits := [upperLimit a, lowerLimit a], glob_IsGlob := isGlob\<rparr>
         else g\<lparr>glob_Limits := [a, upperLimit a], glob_IsGlob := isGlob\<rparr>)"

end
