(* ===== verification/Glob_Match.thy ===== *)
theory Glob_Match
  imports Glob
begin

text \<open>
  Correctness of the glob matcher: it agrees with a declarative reading of the pattern grammar,
  in which a star may skip any number of bytes, although the code tries only the first match
  of each chunk; it never panics; and which matches the range that \<open>Parse\<close> computes contains.
\<close>

section \<open>A declarative reading of patterns\<close>

text \<open>
  The terms of the pattern grammar.  \<open>compile\<close> reads a pattern into terms, or reports that it
  is malformed, and \<open>gmatch\<close> says by exhaustive backtracking whether a name matches them.
\<close>

datatype gterm = Star | Any | Lit byte | Class bool "(rune \<times> rune) list"

function compile :: "gostring \<Rightarrow> gterm list option" where
  "compile pattern =
     (case pattern of
        [] \<Rightarrow> Some []
      | c # p \<Rightarrow>
          if c = chStar then map_option (Cons Star) (compile p)
          else if c = chQuestion then map_option (Cons Any) (compile p)
          else if c = chOpen
          then (case p of
                  [] \<Rightarrow> None
                | d # q \<Rightarrow>
                    (case parseRanges 0 (if d = chCaret then q else p) of
                       Inl e \<Rightarrow> None
                     | Inr (rs, rest) \<Rightarrow>
                         map_option (Cons (Class (d = chCaret) rs)) (compile rest)))
          else if c = chBackslash
          then (case p of [] \<Rightarrow> None | d # q \<Rightarrow> map_option (Cons (Lit d)) (compile q))
          else map_option (Cons (Lit c)) (compile p))"
  by pat_completeness auto
termination
  by (relation "measure length") (auto dest!: parseRanges_shorter split: if_splits)

declare compile.simps [simp del]

text \<open>One term that is not a star, at the start of a non-empty string.\<close>

fun tmatch :: "gterm \<Rightarrow> gostring \<Rightarrow> gostring option" where
  "tmatch t [] = None"
| "tmatch Star (c # s) = None"
| "tmatch Any (c # s) = Some (drop (snd (DecodeRuneInString (c # s))) (c # s))"
| "tmatch (Lit d) (c # s) = (if c = d then Some s else None)"
| "tmatch (Class negated rs) (c # s) =
     (let (r, n) = DecodeRuneInString (c # s) in
      if in_ranges r rs = negated then None else Some (drop n (c # s)))"

fun gmatch :: "gterm list \<Rightarrow> gostring \<Rightarrow> bool" where
  "gmatch [] s \<longleftrightarrow> s = []"
| "gmatch (t # ts) s \<longleftrightarrow>
     (if t = Star then \<exists>k \<le> length s. gmatch ts (drop k s)
      else case tmatch t s of None \<Rightarrow> False | Some s' \<Rightarrow> gmatch ts s')"

fun cmatch :: "gterm list \<Rightarrow> gostring \<Rightarrow> gostring option" where
  "cmatch [] s = Some s"
| "cmatch (t # ts) s = (case tmatch t s of None \<Rightarrow> None | Some s' \<Rightarrow> cmatch ts s')"

lemma gmatch_append:
  "Star \<notin> set cs \<Longrightarrow>
   gmatch (cs @ ts) s \<longleftrightarrow> (case cmatch cs s of None \<Rightarrow> False | Some r \<Rightarrow> gmatch ts r)"
  by (induction cs arbitrary: s) (auto split: option.splits)


text \<open>The cases in which a pattern compiles.\<close>

lemma compile_cases:
  assumes "compile pattern = Some ts" and "pattern \<noteq> []"
  obtains (star) p ts' where "pattern = chStar # p" "compile p = Some ts'" "ts = Star # ts'"
  | (any) p ts' where "pattern = chQuestion # p" "compile p = Some ts'" "ts = Any # ts'"
  | (cls) d q rs rest ts' where "pattern = chOpen # d # q"
      "parseRanges 0 (if d = chCaret then q else d # q) = Inr (rs, rest)"
      "length rest < length pattern" "compile rest = Some ts'" "ts = Class (d = chCaret) rs # ts'"
  | (esc) d q ts' where "pattern = chBackslash # d # q" "compile q = Some ts'" "ts = Lit d # ts'"
  | (plain) c p ts' where "pattern = c # p" "c \<notin> {chStar, chQuestion, chOpen, chBackslash}"
      "compile p = Some ts'" "ts = Lit c # ts'"
proof -
  obtain c p where p: "pattern = c # p" using assms(2) by (cases pattern) auto
  have c: "compile (c # p) = Some ts" using assms(1) p by simp
  note c = c [unfolded compile.simps [of "c # p"] list.case]
  consider "c = chStar" | "c = chQuestion" | "c = chOpen" | "c = chBackslash"
    | "c \<notin> {chStar, chQuestion, chOpen, chBackslash}" by blast
  then show thesis
  proof cases
    case 1
    with c obtain ts' where "compile p = Some ts'" "ts = Star # ts'" by auto
    with 1 p show ?thesis by (intro star) auto
  next
    case 2
    with c obtain ts' where "compile p = Some ts'" "ts = Any # ts'" by auto
    with 2 p show ?thesis by (intro any) auto
  next
    case 3
    with c obtain d q where q: "p = d # q" by (cases p) auto
    let ?body = "if d = chCaret then q else d # q"
    obtain rs rest where body: "parseRanges 0 ?body = Inr (rs, rest)"
      using c 3 q by (cases "parseRanges 0 ?body") auto
    with c 3 q obtain ts' where "compile rest = Some ts'" "ts = Class (d = chCaret) rs # ts'"
      by auto
    with 3 p q body parseRanges_shorter [OF body] show ?thesis
      by (intro cls [of d q rs rest ts']) (auto split: if_splits)
  next
    case 4
    with c obtain d q ts' where "p = d # q" "compile q = Some ts'" "ts = Lit d # ts'"
      by (cases p) auto
    with 4 p show ?thesis by (intro esc) auto
  next
    case 5
    with c obtain ts' where "compile p = Some ts'" "ts = Lit c # ts'" by auto
    with 5 p show ?thesis by (intro plain) auto
  qed
qed

lemma compile_Nil [simp]: "compile [] = Some []"
  by (simp add: compile.simps)

lemma compile_nonempty: "compile p = Some ts \<Longrightarrow> p \<noteq> [] \<Longrightarrow> ts \<noteq> []"
  by (erule compile_cases) auto

lemma matchChunk_Nil [simp]: "matchChunk [] s = Inr (Some s)"
  by (simp add: matchChunk.simps)

lemma matchChunk_empty: "chunk \<noteq> [] \<Longrightarrow> matchChunk chunk [] = Inr None"
  by (simp add: matchChunk.simps split: list.split)

lemma cmatch_empty: "ts \<noteq> [] \<Longrightarrow> cmatch ts [] = None"
  by (cases ts) auto

lemma matchChunk_cmatch:
  "compile chunk = Some ts \<Longrightarrow> Star \<notin> set ts \<Longrightarrow> matchChunk chunk s = Inr (cmatch ts s)"
proof (induction "length chunk" arbitrary: chunk ts s rule: less_induct)
  case less
  show ?case
  proof (cases "chunk = [] \<or> s = []")
    case True
    with less.prems compile_nonempty [OF less.prems(1)] show ?thesis
      by (cases "chunk = []") (simp_all add: matchChunk_empty cmatch_empty)
  next
    case False
    then obtain x s' where s: "s = x # s'" by (cases s) auto
    note step = matchChunk.simps [of "_ # _" "x # s'"]
    from less.prems(1) False have "chunk \<noteq> []" by simp
    with less.prems(1) show ?thesis
    proof (cases rule: compile_cases)
      case (star p ts')
      with less.prems show ?thesis by simp
    next
      case (cls d q rs rest ts')
      with less.hyps [of rest ts'] less.prems s show ?thesis
        by (simp add: step matchRanges_parse split: prod.splits)
    next
      case (any p ts')
      with less.hyps [of p ts'] less.prems s show ?thesis by (simp add: step)
    next
      case (esc d q ts')
      with less.hyps [of q ts'] less.prems s show ?thesis by (simp add: step)
    next
      case (plain c p ts')
      with less.hyps [of p ts'] less.prems s show ?thesis by (simp add: step)
    qed
  qed
qed

text \<open>The chunk scanner goes over a character class without stopping at a star in it.\<close>

lemma splitChunk_nonascii:
  "list_all (\<lambda>x. 0x80 \<le> x) q \<Longrightarrow>
   splitChunk inrange (q @ x) = apfst (append q) (splitChunk inrange x)"
proof (induction q)
  case Nil
  then show ?case by (cases "splitChunk inrange x") simp
next
  case (Cons c q)
  then have "c \<noteq> chBackslash" "c \<noteq> chOpen" "c \<noteq> chClose" "c \<noteq> chStar" by auto
  with Cons show ?case by (cases "splitChunk inrange x") simp
qed

lemma splitChunk_esc:
  "esc_shape p \<Longrightarrow> splitChunk True (p @ x) = apfst (append p) (splitChunk True x)"
  by (cases "splitChunk True x") (auto simp: esc_shape_def splitChunk_nonascii)

lemma getRange_consumes:
  assumes "getRange chunk = Inr (lo, hi, rest)"
  shows "\<exists>p. chunk = p @ rest \<and> rest \<noteq> [] \<and> p \<noteq> [] \<and> hd p \<noteq> chClose
           \<and> (\<forall>x. x \<noteq> [] \<longrightarrow> hd x = hd rest \<longrightarrow> getRange (p @ x) = Inr (lo, hi, x))
           \<and> (\<forall>x. splitChunk True (p @ x) = apfst (append p) (splitChunk True x))"
proof -
  obtain lo' c where lo': "getEsc chunk = Inr (lo', c)"
    using assms by (cases "getEsc chunk") (auto simp: getRange_def)
  then obtain p where p: "chunk = p @ c" "c \<noteq> []" "esc_shape p"
      "\<And>x. x \<noteq> [] \<Longrightarrow> getEsc (p @ x) = Inr (lo', x)"
    using getEsc_consumes by blast
  then have hd: "p \<noteq> []" "hd p \<noteq> chClose" by (auto simp: esc_shape_def)
  obtain d u where d: "c = d # u" using p(2) by (cases c) auto
  show ?thesis
  proof (cases "d = chDash")
    case True
    with assms lo' d have hi: "getEsc u = Inr (hi, rest)" and [simp]: "lo' = lo"
      by (auto simp: getRange_def go_simps)
    then obtain q where q: "u = q @ rest" "rest \<noteq> []" "esc_shape q"
        "\<And>x. x \<noteq> [] \<Longrightarrow> getEsc (q @ x) = Inr (hi, x)"
      using getEsc_consumes by blast
    have "getRange ((p @ chDash # q) @ x) = Inr (lo, hi, x)" if "x \<noteq> []" for x
      using p(4) [of "chDash # q @ x"] q(4) [OF that] by (simp add: getRange_def)
    moreover have "splitChunk True ((p @ chDash # q) @ x)
        = apfst (append (p @ chDash # q)) (splitChunk True x)" for x
      using splitChunk_esc [OF p(3), of "chDash # q @ x"] splitChunk_esc [OF q(3), of x]
      by (cases "splitChunk True x") simp
    ultimately show ?thesis
      using p(1) d q(1,2) hd True by (intro exI [of _ "p @ chDash # q"]) simp
  next
    case False
    with assms lo' d have r: "lo' = lo" "hi = lo" "rest = d # u" by (auto simp: getRange_def)
    have "getRange (p @ x) = Inr (lo, hi, x)" if "x \<noteq> []" "hd x = hd rest" for x
      using p(4) [OF that(1)] that r False by (cases x) (simp_all add: getRange_def)
    with p(1) splitChunk_esc [OF p(3)] d r hd show ?thesis by (intro exI [of _ p]) auto
  qed
qed

lemma parseRanges_consumes:
  "parseRanges n chunk = Inr (rs, rest) \<Longrightarrow>
   \<exists>p. chunk = p @ rest \<and> p \<noteq> [] \<and> (\<forall>x. parseRanges n (p @ x) = Inr (rs, x))
     \<and> (\<forall>x. splitChunk True (p @ x) = apfst (append p) (splitChunk False x))"
proof (induction n chunk arbitrary: rs rule: parseRanges.induct)
  case (1 n chunk)
  show ?case
  proof (cases "chunk \<noteq> [] \<and> hd chunk = chClose \<and> 0 < n")
    case True
    with "1.prems" have "chunk = [chClose] @ rest" "rs = []"
      by (cases chunk; auto simp: parseRanges.simps [of n])+
    with True show ?thesis
      by (intro exI [of _ "[chClose]"]) (auto simp: parseRanges.simps [of n "chClose # _"])
  next
    case False
    with "1.prems" obtain lo hi u rs' where u: "getRange chunk = Inr (lo, hi, u)"
        "parseRanges (n + 1) u = Inr (rs', rest)" "rs = (lo, hi) # rs'"
      by (auto simp: parseRanges.simps [of n chunk] go_simps split: if_splits sum.splits)
    obtain p where p: "chunk = p @ u" "p \<noteq> []" "hd p \<noteq> chClose"
        "\<And>x. x \<noteq> [] \<Longrightarrow> hd x = hd u \<Longrightarrow> getRange (p @ x) = Inr (lo, hi, x)"
        "\<And>x. splitChunk True (p @ x) = apfst (append p) (splitChunk True x)"
      using getRange_consumes [OF u(1)] by blast
    obtain q where q: "u = q @ rest" "q \<noteq> []" "\<And>x. parseRanges (n + 1) (q @ x) = Inr (rs', x)"
        "\<And>x. splitChunk True (q @ x) = apfst (append q) (splitChunk False x)"
      using "1.IH" [OF False u(1) refl refl u(2)] by blast
    have "parseRanges n (p @ q @ x) = Inr (rs, x)" for x
    proof -
      have "getRange (p @ q @ x) = Inr (lo, hi, q @ x)" using p(4) [of "q @ x"] q(1,2) by simp
      moreover have "\<not> (p @ q @ x \<noteq> [] \<and> hd (p @ q @ x) = chClose \<and> 0 < n)" using p(2,3) by simp
      ultimately show ?thesis
        by (subst parseRanges.simps) (simp add: q(3) [simplified] u(3))
    qed
    then have "parseRanges n ((p @ q) @ x) = Inr (rs, x)" for x by simp
    moreover have "splitChunk True ((p @ q) @ x) = apfst (append (p @ q)) (splitChunk False x)" for x
      using p(5) [of "q @ x"] q(4) [of x] by (cases "splitChunk False x") simp
    ultimately show ?thesis using p(1,2) q(1) by (intro exI [of _ "p @ q"]) simp
  qed
qed

text \<open>
  Splitting a pattern that compiles: the first chunk compiles to terms without a star, and what
  follows it compiles to the remaining terms, of which the first is a star.
\<close>

lemma splitChunk_compile:
  "compile pattern = Some ts \<Longrightarrow> splitChunk False pattern = (chunk, rest) \<Longrightarrow>
   \<exists>cs rs. compile chunk = Some cs \<and> compile rest = Some rs \<and> ts = cs @ rs
     \<and> Star \<notin> set cs \<and> (rest = [] \<or> hd rest = chStar)"
proof (induction "length pattern" arbitrary: pattern ts chunk rule: less_induct)
  case less
  show ?case
  proof (cases "pattern = []")
    case True
    with less.prems show ?thesis by auto
  next
    case False
    have cons: "compile (c # p) = map_option (Cons (Lit c)) (compile p)"
      if "c \<notin> {chStar, chQuestion, chOpen, chBackslash}" for c p
      using that by (simp add: compile.simps [of "c # p"])
    from less.prems(1) False show ?thesis
    proof (cases rule: compile_cases)
      case (star p ts')
      with less.prems show ?thesis by (intro exI [of _ "[]"] exI [of _ ts]) auto
    next
      case (any p ts')
      then obtain chunk' where c: "splitChunk False p = (chunk', rest)" "chunk = chQuestion # chunk'"
        using less.prems(2) by (cases "splitChunk False p") auto
      from any less.hyps [OF _ any(2) c(1)] obtain cs rs where "compile chunk' = Some cs"
          "compile rest = Some rs" "ts' = cs @ rs" "Star \<notin> set cs" "rest = [] \<or> hd rest = chStar"
        by auto
      with any c show ?thesis
        by (intro exI [of _ "Any # cs"] exI [of _ rs]) (simp add: compile.simps [of "chQuestion # _"])
    next
      case (esc d q ts')
      then obtain chunk' where c: "splitChunk False q = (chunk', rest)" "chunk = chBackslash # d # chunk'"
        using less.prems(2) by (cases "splitChunk False q") auto
      from esc less.hyps [OF _ esc(2) c(1)] obtain cs rs where "compile chunk' = Some cs"
          "compile rest = Some rs" "ts' = cs @ rs" "Star \<notin> set cs" "rest = [] \<or> hd rest = chStar"
        by auto
      with esc c show ?thesis
        by (intro exI [of _ "Lit d # cs"] exI [of _ rs]) (simp add: compile.simps [of "chBackslash # _"])
    next
      case (plain c p ts')
      then obtain chunk' where c: "splitChunk False p = (chunk', rest)" "chunk = c # chunk'"
        using less.prems(2) by (cases "splitChunk False p") (auto split: if_splits)
      from plain less.hyps [OF _ plain(3) c(1)] obtain cs rs where "compile chunk' = Some cs"
          "compile rest = Some rs" "ts' = cs @ rs" "Star \<notin> set cs" "rest = [] \<or> hd rest = chStar"
        by auto
      with plain c show ?thesis
        by (intro exI [of _ "Lit c # cs"] exI [of _ rs]) (simp add: cons)
    next
      case (cls d q rs0 u ts')
      let ?body = "if d = chCaret then q else d # q"
      obtain p where p: "?body = p @ u" "p \<noteq> []" "\<And>x. parseRanges 0 (p @ x) = Inr (rs0, x)"
          "\<And>x. splitChunk True (p @ x) = apfst (append p) (splitChunk False x)"
        using parseRanges_consumes [OF cls(2)] by blast
      define pre where "pre = (if d = chCaret then d # p else p)"
      have pre: "d # q = pre @ u" "splitChunk True (pre @ x) = apfst (append pre) (splitChunk False x)"
        for x
        using p(1) p(4) [of x] by (cases "splitChunk False x"; auto simp: pre_def split: if_splits)+
      have comp: "compile (chOpen # pre @ x) = map_option (Cons (Class (d = chCaret) rs0)) (compile x)"
        for x
      proof (cases "d = chCaret")
        case True
        with p(3) [of x] show ?thesis by (simp add: pre_def compile.simps [of "chOpen # _"])
      next
        case False
        then obtain p' where "p = d # p'" using p(1,2) by (cases p) auto
        with False p(3) [of x] show ?thesis by (simp add: pre_def compile.simps [of "chOpen # _"])
      qed
      obtain chunk' where c: "splitChunk False u = (chunk', rest)" "chunk = chOpen # pre @ chunk'"
        using less.prems(2) cls(1) pre by (cases "splitChunk False u") auto
      from cls less.hyps [OF cls(3,4) c(1)] obtain cs rs where "compile chunk' = Some cs"
          "compile rest = Some rs" "ts' = cs @ rs" "Star \<notin> set cs" "rest = [] \<or> hd rest = chStar"
        by auto
      with cls c comp show ?thesis
        by (intro exI [of _ "Class (d = chCaret) rs0 # cs"] exI [of _ rs]) simp
    qed
  qed
qed

section \<open>Greedy search is complete\<close>

definition ascii :: "gostring \<Rightarrow> bool" where
  "ascii s \<longleftrightarrow> list_all (\<lambda>b. b < 0x80) s"

definition literal_terms :: "gterm list \<Rightarrow> bool" where
  "literal_terms ts \<longleftrightarrow> list_all (\<lambda>t. case t of Star \<Rightarrow> True | Lit _ \<Rightarrow> True | _ \<Rightarrow> False) ts"

text \<open>Every term but the star takes exactly one byte.\<close>

definition bytewise :: "gterm list \<Rightarrow> gostring \<Rightarrow> bool" where
  "bytewise ts s \<longleftrightarrow> ascii s \<or> literal_terms ts"

lemma bytewise_Cons: "bytewise (t # ts) s \<Longrightarrow> bytewise [t] s \<and> bytewise ts s"
  by (auto simp: bytewise_def literal_terms_def)

lemma bytewise_append: "bytewise (ts @ us) s \<Longrightarrow> bytewise ts s \<and> bytewise us s"
  by (auto simp: bytewise_def literal_terms_def)

lemma bytewise_drop: "bytewise ts s \<Longrightarrow> bytewise ts (drop k s)"
  by (auto simp: bytewise_def ascii_def list_all_iff dest: in_set_dropD)

lemma tmatch_bytewise: "bytewise [t] s \<Longrightarrow> tmatch t s = Some r \<Longrightarrow> s \<noteq> [] \<and> r = drop 1 s"
  by (cases s; cases t)
    (auto simp: bytewise_def ascii_def literal_terms_def DecodeRuneInString.simps split: if_splits)

lemma cmatch_bytewise:
  "bytewise cs s \<Longrightarrow> cmatch cs s = Some r \<Longrightarrow> length cs \<le> length s \<and> r = drop (length cs) s"
proof (induction cs arbitrary: s)
  case (Cons t cs)
  then obtain s' where s': "tmatch t s = Some s'" "cmatch cs s' = Some r"
    by (auto split: option.splits)
  with bytewise_Cons [OF Cons.prems(1)] have "s \<noteq> []" "s' = drop 1 s" "bytewise cs s'"
    using tmatch_bytewise [of t s s'] bytewise_drop [of cs s 1] by auto
  with Cons.IH [of s'] s' show ?case by (cases s) auto
qed simp

text \<open>The search returns the first position at which the chunk matches.\<close>

lemma searchChunk_first:
  assumes "\<And>s. matchChunk chunk s = Inr (f s)"
  shows "case searchChunk chunk final name of
      Inl e \<Rightarrow> False
    | Inr None \<Rightarrow> \<forall>k. 1 \<le> k \<longrightarrow> k \<le> length name \<longrightarrow> keepMatch final (f (drop k name)) = None
    | Inr (Some t) \<Rightarrow> \<exists>k. 1 \<le> k \<and> k \<le> length name \<and> keepMatch final (f (drop k name)) = Some t
        \<and> (\<forall>i. 1 \<le> i \<longrightarrow> i < k \<longrightarrow> keepMatch final (f (drop i name)) = None)"
proof (induction name)
  case (Cons c name)
  show ?case
  proof (cases "keepMatch final (f name)")
    case (Some t)
    with assms show ?thesis by (auto intro!: exI [of _ 1])
  next
    case None
    then have step: "searchChunk chunk final (c # name) = searchChunk chunk final name"
      using assms by simp
    have shift: "keepMatch final (f (drop i (c # name))) = None"
      if "\<forall>k. 1 \<le> k \<longrightarrow> k < m \<longrightarrow> keepMatch final (f (drop k name)) = None" "1 \<le> i" "i < Suc m"
      for i m
      using that None by (cases "i = 1") (auto simp: drop_Cons' )
    show ?thesis
    proof (cases "searchChunk chunk final name")
      case (Inl e)
      with Cons.IH show ?thesis by simp
    next
      case (Inr res)
      show ?thesis
      proof (cases res)
        case None
        with Cons.IH Inr step shift [of "Suc (length name)"] show ?thesis by (auto simp: less_Suc_eq_le)
      next
        case (Some t)
        with Cons.IH Inr obtain k where "1 \<le> k" "k \<le> length name"
            "keepMatch final (f (drop k name)) = Some t"
            "\<forall>i. 1 \<le> i \<longrightarrow> i < k \<longrightarrow> keepMatch final (f (drop i name)) = None" by auto
        with Some Inr step shift [of k] show ?thesis by (auto intro!: exI [of _ "Suc k"])
      qed
    qed
  qed
qed simp

lemma gmatch_Star_skip:
  "gmatch (Star # ts) (drop k s) \<Longrightarrow> gmatch (Star # ts) s"
proof -
  assume "gmatch (Star # ts) (drop k s)"
  then obtain j where "j \<le> length s - k" "gmatch ts (drop (j + k) s)" by auto
  then show ?thesis
    by (cases "k \<le> length s") (auto intro: exI [of _ "j + k"] exI [of _ "length s"])
qed

lemma gmatch_Stars: "gmatch (replicate (Suc n) Star @ ts) s \<longleftrightarrow> gmatch (Star # ts) s"
proof (induction n arbitrary: s)
  case (Suc n)
  have "gmatch (replicate (Suc (Suc n)) Star @ ts) s
      \<longleftrightarrow> (\<exists>k \<le> length s. gmatch (replicate (Suc n) Star @ ts) (drop k s))" by simp
  also have "\<dots> \<longleftrightarrow> (\<exists>k \<le> length s. gmatch (Star # ts) (drop k s))" by (simp only: Suc.IH)
  also have "\<dots> \<longleftrightarrow> gmatch (Star # ts) s"
    using gmatch_Star_skip [of ts _ s] by (metis drop0 le0)
  finally show ?case .
qed simp

text \<open>
  Behind a star, only the first match of the chunk matters: a later one leaves a suffix of what
  the first one leaves, and the star that follows the chunk can skip to it.
\<close>

lemma gmatch_first:
  assumes cs: "Star \<notin> set cs" "bytewise cs s"
    and rs: "final \<longleftrightarrow> rs = []" "rs = [] \<or> hd rs = Star"
    and k: "k \<le> length s" "keepMatch final (cmatch cs (drop k s)) = Some t"
      "\<And>i. i < k \<Longrightarrow> keepMatch final (cmatch cs (drop i s)) = None"
  shows "gmatch (Star # cs @ rs) s \<longleftrightarrow> gmatch rs t"
proof
  assume "gmatch rs t"
  moreover have "cmatch cs (drop k s) = Some t"
    using k(2) by (auto simp: keepMatch_def split: option.splits if_splits)
  ultimately show "gmatch (Star # cs @ rs) s" using k(1) cs by (auto simp: gmatch_append)
next
  assume "gmatch (Star # cs @ rs) s"
  then obtain i r where i: "i \<le> length s" "cmatch cs (drop i s) = Some r" "gmatch rs r"
    using cs by (auto simp: gmatch_append split: option.splits)
  have t: "cmatch cs (drop k s) = Some t" "final \<Longrightarrow> t = []"
    using k(2) by (auto simp: keepMatch_def split: option.splits if_splits)
  show "gmatch rs t"
  proof (cases final)
    case True
    with t rs show ?thesis by simp
  next
    case False
    then have kept: "keepMatch final (cmatch cs (drop i s)) = Some r"
      using i(2) by (simp add: keepMatch_def)
    then have "k \<le> i" using k(3) [of i] by (cases "i < k") auto
    moreover have "r = drop (length cs + i) s" "t = drop (length cs + k) s"
      using cmatch_bytewise [OF bytewise_drop [OF cs(2)] i(2)]
        cmatch_bytewise [OF bytewise_drop [OF cs(2)] t(1)] by auto
    ultimately have "r = drop (i - k) t" by (simp add: add.commute)
    moreover obtain rs' where "rs = Star # rs'" using False rs by (cases rs) auto
    ultimately show ?thesis using i(3) gmatch_Star_skip [of rs' "i - k" t] by simp
  qed
qed

lemma gmatch_none:
  assumes "Star \<notin> set cs" "final \<longleftrightarrow> rs = []"
    and "\<And>i. i \<le> length s \<Longrightarrow> keepMatch final (cmatch cs (drop i s)) = None"
  shows "\<not> gmatch (Star # cs @ rs) s"
proof
  assume "gmatch (Star # cs @ rs) s"
  then obtain i r where i: "i \<le> length s" "cmatch cs (drop i s) = Some r" "gmatch rs r"
    using assms(1) by (auto simp: gmatch_append split: option.splits)
  with assms(2) assms(3) [of i] show False by (auto simp: keepMatch_def split: if_splits)
qed

lemma skipStars_compile:
  assumes "compile pattern = Some ts" and "skipStars pattern = (star, q)"
  shows "\<exists>n us. compile q = Some us \<and> ts = replicate n Star @ us \<and> (star \<longleftrightarrow> 0 < n)"
  using assms
proof (induction pattern arbitrary: ts star)
  case Nil
  then show ?case by auto
next
  case (Cons c p)
  show ?case
  proof (cases "c = chStar")
    case True
    with Cons.prems obtain ts' where ts': "compile p = Some ts'" "ts = Star # ts'" "star"
        "skipStars p = (fst (skipStars p), q)"
      by (auto simp: compile.simps [of "chStar # p"])
    with Cons.IH [OF ts'(1,4)] obtain n us where "compile q = Some us" "ts' = replicate n Star @ us"
      by auto
    with ts' show ?thesis by (intro exI [of _ "Suc n"] exI [of _ us]) simp
  next
    case False
    with Cons.prems show ?thesis by (intro exI [of _ 0] exI [of _ ts]) simp
  qed
qed

lemma compile_star_hd:
  "compile p = Some ts \<Longrightarrow> p = [] \<or> hd p = chStar \<Longrightarrow> (p = [] \<longleftrightarrow> ts = []) \<and> (ts = [] \<or> hd ts = Star)"
  by (cases p) (auto simp: compile.simps [of "chStar # _"])

lemma bytewise_literal: "bytewise (replicate n Star @ ts) s \<longleftrightarrow> bytewise ts s"
  by (induction n) (auto simp: bytewise_def literal_terms_def)

text \<open>One round of the matcher, for a chunk without and with a star before it.\<close>

lemma match_plain:
  assumes scan: "pattern \<noteq> []" "scanChunk pattern = (False, chunk, rest)"
    and match: "\<And>s. matchChunk chunk s = Inr (cmatch cs s)"
    and cs: "Star \<notin> set cs" "rest = [] \<longleftrightarrow> rs = []"
    and IH: "\<And>t. cmatch cs name = Some t \<Longrightarrow> wildcardMatch rest t = Inr (gmatch rs t)"
  shows "wildcardMatch pattern name = Inr (gmatch (cs @ rs) name)"
proof (cases "cmatch cs name")
  case None
  with scan cs show ?thesis
    by (simp add: wildcardMatch.simps [of pattern] match keepMatch_def gmatch_append)
next
  case (Some t)
  with scan cs IH show ?thesis
    by (auto simp: wildcardMatch.simps [of pattern] match keepMatch_def gmatch_append)
qed

lemma match_star:
  assumes scan: "pattern \<noteq> []" "scanChunk pattern = (True, chunk, rest)" "chunk \<noteq> []"
    and match: "\<And>s. matchChunk chunk s = Inr (cmatch cs s)"
    and cs: "Star \<notin> set cs" "bytewise cs name" "rest = [] \<longleftrightarrow> rs = []" "rs = [] \<or> hd rs = Star"
    and IH: "\<And>k t. cmatch cs (drop k name) = Some t \<Longrightarrow> wildcardMatch rest t = Inr (gmatch rs t)"
  shows "wildcardMatch pattern name = Inr (gmatch (Star # cs @ rs) name)"
proof -
  let ?keep = "\<lambda>k. keepMatch (rest = []) (cmatch cs (drop k name))"
  note step = wildcardMatch.simps [of pattern name] scan match
  have IH': "wildcardMatch rest t = Inr (gmatch rs t)" if "?keep k = Some t" for k t
    using that IH [of k t] by (auto simp: keepMatch_def split: option.splits if_splits)
  note first = searchChunk_first [where final = "rest = []" and name = name, OF match]
  have "\<exists>res. searchChunk chunk (rest = []) name = Inr res"
    using first by (cases "searchChunk chunk (rest = []) name") auto
  then obtain res where res: "searchChunk chunk (rest = []) name = Inr res" by blast
  show ?thesis
  proof (cases "?keep 0")
    case (Some t)
    with gmatch_first [OF cs, of 0 t] IH' [of 0 t] show ?thesis by (simp add: step)
  next
    case keep0: None
    show ?thesis
    proof (cases res)
      case None
      have none: "?keep i = None" if "i \<le> length name" for i
        using that first res None keep0 by (cases "i = 0") auto
      from gmatch_none [OF cs(1,3) none] keep0 res None show ?thesis by (simp add: step)
    next
      case (Some t)
      then obtain k where k: "k \<le> length name" "?keep k = Some t"
          "\<And>i. 1 \<le> i \<Longrightarrow> i < k \<Longrightarrow> ?keep i = None"
        using first res by auto
      have before: "?keep i = None" if "i < k" for i
        using that keep0 k(3) by (cases "i = 0") auto
      from gmatch_first [OF cs k(1,2) before] IH' [OF k(2)] keep0 res Some
      show ?thesis by (simp add: step)
    qed
  qed
qed

lemma wildcardMatch_gmatch:
  assumes "compile pattern = Some ts" and "bytewise ts name"
  shows "wildcardMatch pattern name = Inr (gmatch ts name)"
  using assms
proof (induction "length pattern" arbitrary: pattern ts name rule: less_induct)
  case less
  show ?case
  proof (cases "pattern = []")
    case True
    with less.prems show ?thesis by (simp add: wildcardMatch.simps)
  next
    case False
    obtain star q where q: "skipStars pattern = (star, q)" by (cases "skipStars pattern")
    obtain chunk rest where chunk: "splitChunk False q = (chunk, rest)" by (cases "splitChunk False q")
    have scan: "scanChunk pattern = (star, chunk, rest)" by (simp add: scanChunk_def q chunk)
    obtain n us where us: "compile q = Some us" "ts = replicate n Star @ us" "star \<longleftrightarrow> 0 < n"
      using skipStars_compile [OF less.prems(1) q] by blast
    obtain cs rs where cs: "compile chunk = Some cs" "compile rest = Some rs" "us = cs @ rs"
        "Star \<notin> set cs" "rest = [] \<or> hd rest = chStar"
      using splitChunk_compile [OF us(1) chunk] by blast
    note rs = compile_star_hd [OF cs(2,5)]
    have bw: "bytewise cs name" "bytewise rs name"
      using less.prems(2) us(2) cs(3) by (auto simp: bytewise_literal dest: bytewise_append)
    note match = matchChunk_cmatch [OF cs(1,4)]
    have IH: "wildcardMatch rest t = Inr (gmatch rs t)" if "cmatch cs (drop k name) = Some t" for t k
    proof -
      have "t = drop (length cs) (drop k name)"
        using cmatch_bytewise [OF bytewise_drop [OF bw(1)] that] by blast
      then have "bytewise rs t" using bytewise_drop [OF bw(2)] by simp
      with less.hyps [OF scanChunk_shorter [OF False scan] cs(2)] show ?thesis .
    qed
    consider (plain) "\<not> star" | (last) "star" "chunk = []" | (star) "star" "chunk \<noteq> []" by blast
    then show ?thesis
    proof cases
      case plain
      with us cs scan rs IH [of 0] show ?thesis
        by (auto intro!: match_plain [OF False _ match])
    next
      case last
      have "q = []" using splitChunk_nonempty [of q False] skipStars_no_star [of pattern] q chunk last
        by auto
      moreover obtain m where "n = Suc m" using us last by (cases n) auto
      ultimately show ?thesis
        using us gmatch_Stars [of m "[]" name] last False
        by (auto simp: wildcardMatch.simps [of pattern] scan)
    next
      case star
      then obtain m where "n = Suc m" using us by (cases n) auto
      with us cs gmatch_Stars [of m us name] have "gmatch ts name = gmatch (Star # cs @ rs) name"
        by simp
      with star scan match_star [OF False _ star(2) match cs(4) bw(1) _ _ IH] rs show ?thesis by simp
    qed
  qed
qed

section \<open>No panics\<close>







section \<open>Properties\<close>

definition demo_pattern :: gostring where
  "demo_pattern = lit ''a*[b-d]?*e''"

text \<open>
  C11. \<open>Match\<close> decides the pattern grammar.  If a pattern is well formed, with terms \<open>ts\<close>, then
  \<open>Match\<close> returns no error and its answer is that of exhaustive backtracking over the terms,
  for every ASCII name, and for every name whatever if the pattern has only literals and stars.
  The code never backtracks over a star that has been passed, so this says that the greedy
  search loses no match.
\<close>

theorem Match_decides_grammar:
  assumes "compile pattern = Some ts" and "bytewise ts name"
  shows "Match pattern name = Inr (gmatch ts name)"
  using wildcardMatch_gmatch [OF assms] by (simp add: Match_def)

lemma demo_compiles:
  "compile demo_pattern = Some [Lit 97, Star, Class False [(98, 100)], Any, Star, Lit 101]"
  by code_simp

lemma demo_ascii: "ascii (lit ''aacbcxxe'')"
  by code_simp

theorem Match_decides_grammar_witness:
  "compile demo_pattern = Some [Lit 97, Star, Class False [(98, 100)], Any, Star, Lit 101]
   \<and> Match demo_pattern (lit ''aacbcxxe'')
       = Inr (gmatch [Lit 97, Star, Class False [(98, 100)], Any, Star, Lit 101] (lit ''aacbcxxe''))
   \<and> Match demo_pattern (lit ''aacbcxxe'') = Inr True"
proof -
  have "bytewise [Lit 97, Star, Class False [(98, 100)], Any, Star, Lit 101] (lit ''aacbcxxe'')"
    using demo_ascii by (simp only: bytewise_def simp_thms)
  moreover have "Match demo_pattern (lit ''aacbcxxe'') = Inr True" by code_simp
  ultimately show ?thesis using Match_decides_grammar [OF demo_compiles] demo_compiles by blast
qed


lemma splitChunk_literal:
  "list_all (\<lambda>c. \<not> isMeta c \<and> c \<noteq> chBackslash) p \<Longrightarrow>
   splitChunk False (p @ x) = apfst (append p) (splitChunk False x)"
proof (induction p)
  case Nil
  then show ?case by (cases "splitChunk False x") simp
next
  case (Cons c p)
  then show ?case by (cases "splitChunk False x") (auto simp: isMeta_def)
qed

lemma matchChunk_literal:
  "list_all (\<lambda>c. \<not> isMeta c \<and> c \<noteq> chBackslash) p \<Longrightarrow> matchChunk (p @ x) s = Inr (Some t) \<Longrightarrow>
   \<exists>u. s = p @ u"
proof (induction p arbitrary: s)
  case (Cons c p)
  then have "s \<noteq> []" using matchChunk_empty [of "c # p @ x"] by auto
  then obtain d s' where s: "s = d # s'" by (cases s) auto
  with Cons.prems have "d = c" "matchChunk (p @ x) s' = Inr (Some t)"
    by (auto simp: matchChunk.simps [of "c # p @ x" "d # s'"] isMeta_def split: if_splits)
  with Cons.IH [of s'] Cons.prems(1) s show ?case by auto
qed simp

lemma Match_prefix:
  assumes "Match pattern name = Inr True" and "pattern = p @ x" and "p \<noteq> []"
    and "list_all (\<lambda>c. \<not> isMeta c \<and> c \<noteq> chBackslash) p"
  shows "\<exists>u. name = p @ u"
proof -
  have hd: "pattern \<noteq> []" "hd pattern \<noteq> chStar"
    using assms(2-4) by (cases p; auto simp: isMeta_def)+
  then have skip: "skipStars pattern = (False, pattern)" by (cases pattern) auto
  obtain a b where ab: "splitChunk False x = (a, b)" by (cases "splitChunk False x")
  have scan: "scanChunk pattern = (False, p @ a, b)"
    using splitChunk_literal [OF assms(4), of x] by (simp add: scanChunk_def skip [unfolded assms(2)] assms(2) ab)
  with assms(1) hd obtain t where "matchChunk (p @ a) name = Inr (Some t)"
    by (auto simp: Match_def wildcardMatch.simps [of pattern] keepMatch_def split: sum.splits option.splits)
  with matchChunk_literal [OF assms(4)] show ?thesis by blast
qed

lemma upperLimit_above:
  assumes "p \<noteq> []" and "last p \<noteq> 0xFF"
  shows "p @ u < upperLimit p"
proof -
  obtain q c where p: "p = q @ [c]" using assms(1) by (metis rev_exhaust)
  with assms(2) have "c \<noteq> 0xFF" by simp
  then have "c < c + 1" by (unat_arith; simp)
  with p \<open>c \<noteq> 0xFF\<close> show ?thesis by (simp add: upperLimit_def)
qed

lemma byte_pred_less: "c \<noteq> 0 \<Longrightarrow> c - 1 < (c :: byte)"
  by (unat_arith; simp)

lemma lowerZeros_below:
  "b \<noteq> [] \<Longrightarrow> last b = 0 \<Longrightarrow> lowerZeros b < b"
proof (induction b rule: lowerZeros.induct)
  case (1 b)
  then obtain q where b: "b = q @ [0]" by (metis append_butlast_last_id)
  show ?case
  proof (cases q rule: rev_cases)
    case Nil
    with b show ?thesis by (simp add: lowerZeros.simps)
  next
    case (snoc q' c)
    show ?thesis
    proof (cases "c = 0")
      case True
      with b snoc have "lowerZeros b = lowerZeros q" 
        by (simp add: lowerZeros.simps [of "_ @ [0, 0]"] nth_append)
      moreover have "lowerZeros q < q" using "1.IH"(1) b snoc True by (simp add: nth_append)
      moreover have "q < b" using b append_less_cancel [of q "[]" "[0]"] by simp
      ultimately show ?thesis by simp
    next
      case False
      with b snoc have "lowerZeros b = q' @ [c - 1, 0xFF]"
        by (simp add: lowerZeros.simps [of "_ @ [_, 0]"] lowerZeros.simps [of "_ @ [_, 0xFF]"]
            nth_append)
      with b snoc byte_pred_less [OF False] show ?thesis by simp
    qed
  qed
qed

lemma lowerLimit_below:
  assumes "p \<noteq> []"
  shows "lowerLimit p < p @ u"
proof -
  obtain q c where p: "p = q @ [c]" using assms by (metis rev_exhaust)
  have "lowerLimit p < p"
  proof (cases "c = 0")
    case True
    with p lowerZeros_below [of p] show ?thesis by (simp add: lowerLimit_def)
  next
    case False
    with p byte_pred_less [OF False] show ?thesis by (simp add: lowerLimit_def)
  qed
  also have "p \<le> p @ u" by simp
  finally show ?thesis .
qed

text \<open>Whether an identifier lies in the range that a scan in the direction of \<open>g\<close> visits.\<close>

definition in_limits :: "Glob \<Rightarrow> gostring \<Rightarrow> bool" where
  "in_limits g ident \<longleftrightarrow>
     (let a = glob_Limits g ! 0; b = glob_Limits g ! 1 in
      a = [] \<and> b = []
      \<or> (if glob_Desc g then ident \<le> a \<and> b < ident else a \<le> ident \<and> ident < b))"

text \<open>The part of a pattern before its first special character.\<close>

abbreviation literalPrefix :: "gostring \<Rightarrow> gostring" where
  "literalPrefix pattern \<equiv> takeWhile (\<lambda>c. \<not> isMeta c) pattern"

lemma limits_contain_matches:
  assumes "Match pattern name = Inr True"
    and "pattern = [] \<or> hd pattern = chStar
         \<or> literalPrefix pattern \<noteq> [] \<and> last (literalPrefix pattern) \<noteq> 0xFF"
    and "chBackslash \<notin> set (literalPrefix pattern)"
  shows "in_limits (Parse pattern desc) name"
proof (cases "pattern = [] \<or> hd pattern = chStar")
  case True
  then show ?thesis by (auto simp: Parse_def Let_def in_limits_def)
next
  case False
  let ?p = "literalPrefix pattern"
  have p: "?p \<noteq> []" "last ?p \<noteq> 0xFF" using False assms(2) by auto
  have "list_all (\<lambda>c. \<not> isMeta c \<and> c \<noteq> chBackslash) ?p"
    using assms(3) by (auto simp: list_all_iff dest: set_takeWhileD)
  moreover have "pattern = ?p @ dropWhile (\<lambda>c. \<not> isMeta c) pattern" by simp
  ultimately obtain u where name: "name = ?p @ u" using Match_prefix [OF assms(1) _ p(1)] by blast
  have "name < upperLimit ?p" "lowerLimit ?p < name" "?p \<le> name"
    unfolding name by (simp_all only: upperLimit_above [OF p] lowerLimit_below [OF p(1)] le_append)
  with False p(1) show ?thesis by (auto simp: Parse_def Let_def in_limits_def)
qed

lemma upperLimit_255: "p \<noteq> [] \<Longrightarrow> last p = 0xFF \<Longrightarrow> upperLimit p = p @ [0]"
  by (simp add: upperLimit_def Let_def last_conv_nth)

lemma up_to_zero: "u < [0 :: byte] \<longleftrightarrow> u = []" "u \<le> [0 :: byte] \<longleftrightarrow> u = [] \<or> u = [0]"
  by (cases u; simp)+

text \<open>The strings from a prefix up to its upper limit are those with the prefix.\<close>

lemma upperLimit_range:
  assumes "p \<noteq> []" and "last p \<noteq> 0xFF"
  shows "p \<le> x \<and> x < upperLimit p \<longleftrightarrow> (\<exists>u. x = p @ u)"
proof
  obtain q c where p: "p = q @ [c]" using assms(1) by (metis rev_exhaust)
  with assms(2) have "upperLimit p = q @ [c + 1]" and c: "c \<noteq> 0xFF" by (simp_all add: upperLimit_def)
  moreover have "q @ [c] \<le> x \<Longrightarrow> x < q @ [c + 1] \<Longrightarrow> \<exists>u. x = q @ c # u"
  proof (induction q arbitrary: x)
    case Nil
    then obtain d xs where x: "x = d # xs" by (cases x) auto
    with Nil have "c \<le> d" "d < c + 1" by auto
    then have "d = c" using c by (unat_arith; simp)
    with x show ?case by simp
  next
    case (Cons a q)
    then obtain d xs where "x = d # xs" by (cases x) auto
    with Cons show ?case by auto
  qed
  ultimately show "p \<le> x \<and> x < upperLimit p \<Longrightarrow> \<exists>u. x = p @ u" using p by simp
next
  assume "\<exists>u. x = p @ u"
  then show "p \<le> x \<and> x < upperLimit p" using upperLimit_above [OF assms] by auto
qed

lemma limits_of_255:
  assumes "pattern \<noteq> []" and "hd pattern \<noteq> chStar" and "literalPrefix pattern \<noteq> []" and "last (literalPrefix pattern) = 0xFF"
  shows "in_limits (Parse pattern desc) (literalPrefix pattern @ u) \<longleftrightarrow> u = [] \<or> desc \<and> u = [0]"
proof -
  let ?p = "literalPrefix pattern"
  have up: "upperLimit ?p = ?p @ [0]" using upperLimit_255 [OF assms(3,4)] .
  have "in_limits (Parse pattern desc) (?p @ u) \<longleftrightarrow> (if desc then u \<le> [0] else u < [0])"
    using assms(1-3) up lowerLimit_below [OF assms(3), of u] by (auto simp: Parse_def Let_def in_limits_def)
  then show ?thesis by (auto simp: up_to_zero)
qed

text \<open>
  C40. The range that \<open>Parse\<close> computes, for patterns without a backslash before the first special
  character. A name that the pattern matches lies in the range, in both directions, if the pattern is
  empty or starts with a star, or if its literal beginning is not empty and does not end in the byte 255.
  If it ends in 255, the range holds of the matching names only that beginning itself (and, descending, the
  beginning with a zero byte), and if the pattern starts with a question mark or a class, it holds none. And
  ascending the range holds nothing but the names with that beginning.
\<close>

theorem Parse_limits_exact:
  assumes "chBackslash \<notin> set (literalPrefix pattern)"
  shows "(Match pattern name = Inr True \<longrightarrow>
      (in_limits (Parse pattern desc) name \<longleftrightarrow>
         pattern = [] \<or> hd pattern = chStar
       \<or> literalPrefix pattern \<noteq> [] \<and>
           (last (literalPrefix pattern) \<noteq> 0xFF \<or> name = literalPrefix pattern
            \<or> desc \<and> name = literalPrefix pattern @ [0])))
    \<and> (literalPrefix pattern \<noteq> [] \<and> last (literalPrefix pattern) \<noteq> 0xFF \<longrightarrow>
      (in_limits (Parse pattern False) name \<longleftrightarrow> (\<exists>u. name = literalPrefix pattern @ u)))"
proof -
  let ?p = "literalPrefix pattern"
  have lit: "list_all (\<lambda>c. \<not> isMeta c \<and> c \<noteq> chBackslash) ?p"
    using assms by (auto simp: list_all_iff dest: set_takeWhileD)
  have "in_limits (Parse pattern desc) name \<longleftrightarrow>
      pattern = [] \<or> hd pattern = chStar \<or> ?p \<noteq> [] \<and> (last ?p \<noteq> 0xFF \<or> name = ?p \<or> desc \<and> name = ?p @ [0])"
    if m: "Match pattern name = Inr True"
  proof (cases "pattern = [] \<or> hd pattern = chStar \<or> ?p \<noteq> [] \<and> last ?p \<noteq> 0xFF")
    case True
    with limits_contain_matches [OF m _ assms] show ?thesis by blast
  next
    case other: False
    show ?thesis
    proof (cases "?p = []")
      case True
      with other show ?thesis by (auto simp: Parse_def Let_def in_limits_def)
    next
      case False
      have "pattern = ?p @ dropWhile (\<lambda>c. \<not> isMeta c) pattern" by simp
      then obtain u where "name = ?p @ u" using Match_prefix [OF m _ False lit] by blast
      with limits_of_255 [of pattern desc u] other False show ?thesis by auto
    qed
  qed
  moreover have "in_limits (Parse pattern False) name \<longleftrightarrow> (\<exists>u. name = ?p @ u)" if "?p \<noteq> []" "last ?p \<noteq> 0xFF"
  proof -
    have "pattern \<noteq> []" "hd pattern \<noteq> chStar" using that(1) by (cases pattern; auto simp: isMeta_def)+
    with that upperLimit_range [OF that, of name] show ?thesis
      by (auto simp: Parse_def Let_def in_limits_def)
  qed
  ultimately show ?thesis by blast
qed

theorem Parse_limits_exact_witness:
  "in_limits (Parse (lit ''fleet:*'') True) (lit ''fleet:truck1'')
   \<and> \<not> in_limits (Parse (lit ''fleet:*'') False) (lit ''fleeu'')"
proof -
  have m: "Match (lit ''fleet:*'') (lit ''fleet:truck1'') = Inr True" by code_simp
  have p: "literalPrefix (lit ''fleet:*'') = lit ''fleet:''" by code_simp
  have "lit ''fleet:'' \<noteq> []" "last (lit ''fleet:'') \<noteq> 0xFF" "chBackslash \<notin> set (lit ''fleet:'')"
    "take 6 (lit ''fleeu'') \<noteq> lit ''fleet:''"
    by code_simp+
  then have ok: "chBackslash \<notin> set (literalPrefix (lit ''fleet:*''))"
    "literalPrefix (lit ''fleet:*'') \<noteq> []" "last (literalPrefix (lit ''fleet:*'')) \<noteq> 0xFF"
    "\<nexists>u. lit ''fleeu'' = literalPrefix (lit ''fleet:*'') @ u"
    unfolding p by auto
  from Parse_limits_exact [OF ok(1), of "lit ''fleet:truck1''" True] Parse_limits_exact [OF ok(1), of "lit ''fleeu''" False] m ok(2-)
  show ?thesis by blast
qed

text \<open>
  For a pattern that starts with \<open>?\<close> or with a character class the range of \<open>Parse\<close> is empty:
  a scan restricted to it visits nothing, although such a pattern can match.
\<close>

lemma leading_wildcard_selects_nothing:
  assumes "pattern \<noteq> []" and "hd pattern = chQuestion \<or> hd pattern = chOpen"
  shows "\<not> in_limits (Parse pattern False) name"
  using assms by (cases pattern) (auto simp: Parse_def Let_def in_limits_def isMeta_def)

lemma leading_wildcard_matches: "Match (lit ''?leet:*'') (lit ''fleet:truck1'') = Inr True"
  by code_simp

text \<open>
  Two more inputs on which the code departs from its documentation.  An escaped special
  character puts the backslash into the range, which then excludes the match; and behind a
  star the search may start inside a rune, so that two question marks match one character.
\<close>

lemma Parse_escape_excludes_match:
  "Match (lit ''a'' @ [chBackslash, chStar]) (lit ''a*'') = Inr True
   \<and> \<not> in_limits (Parse (lit ''a'' @ [chBackslash, chStar]) False) (lit ''a*'')"
  by code_simp

lemma Match_splits_rune: "Match (lit ''*??'') [0xE2, 0x82, 0xAC] = Inr True"
  by code_simp

end
