(* ===== verification/Float64.thy ===== *)
theory Float64
  imports Prelude
begin

text \<open>
  Go's \<^verbatim>\<open>float64\<close> as its 64 bits (IEEE 754 binary64), with the comparisons of the language.
  The order of two values that are not NaN is the order of their signed magnitudes, read as
  integers: the encoding is monotone, and both zeros have magnitude 0.  Every comparison with
  a NaN is false.
\<close>

unbundle bit_operations_syntax

type_synonym float64 = "64 word"

definition f_mag :: "float64 \<Rightarrow> int" where
  "f_mag w = uint (take_bit 63 w)"

definition f_key :: "float64 \<Rightarrow> int" where
  "f_key w = (if bit w 63 then - f_mag w else f_mag w)"

definition f_isnan :: "float64 \<Rightarrow> bool" where
  "f_isnan w \<longleftrightarrow> 0x7FF0000000000000 < f_mag w"

definition f_lt :: "float64 \<Rightarrow> float64 \<Rightarrow> bool" where
  "f_lt a b \<longleftrightarrow> \<not> f_isnan a \<and> \<not> f_isnan b \<and> f_key a < f_key b"

definition f_eq :: "float64 \<Rightarrow> float64 \<Rightarrow> bool" where
  "f_eq a b \<longleftrightarrow> \<not> f_isnan a \<and> \<not> f_isnan b \<and> f_key a = f_key b"

abbreviation f_inf :: float64 where "f_inf \<equiv> 0x7FF0000000000000"
abbreviation f_neginf :: float64 where "f_neginf \<equiv> 0xFFF0000000000000"

lemma f_mag_nonneg: "0 \<le> f_mag w"
  by (simp add: f_mag_def)

lemma f_lt_irrefl [simp]: "\<not> f_lt a a"
  by (simp add: f_lt_def)

lemma f_lt_trans: "f_lt a b \<Longrightarrow> f_lt b c \<Longrightarrow> f_lt a c"
  by (auto simp: f_lt_def)

lemma f_key_inf: "f_key f_inf = 0x7FF0000000000000" "f_key f_neginf = - 0x7FF0000000000000"
  by code_simp+

lemma f_isnan_inf [simp]: "\<not> f_isnan f_inf" "\<not> f_isnan f_neginf"
  by code_simp+

text \<open>The infinities bound every value that is not NaN.\<close>

lemma f_key_bounds:
  assumes "\<not> f_isnan a"
  shows "f_key f_neginf \<le> f_key a" and "f_key a \<le> f_key f_inf"
proof -
  have "f_mag a \<le> 0x7FF0000000000000" using assms by (simp add: f_isnan_def)
  with f_mag_nonneg [of a] show "f_key f_neginf \<le> f_key a" "f_key a \<le> f_key f_inf"
    by (auto simp: f_key_inf) (auto simp: f_key_def)
qed

end
