(* ===== verification/Byte_Order.thy ===== *)
theory Byte_Order
  imports Float64
begin

text \<open>
  Machine integers as octets, in both byte orders (\<^verbatim>\<open>encoding/binary\<close> of the standard library), written to a buffer and read
  from a sequence of octets.
\<close>

datatype ByteOrder = LittleEndian | BigEndian

text \<open>The \<open>n\<close> lowest octets of a word, least significant first, and back.\<close>

definition le_bytes :: "nat \<Rightarrow> 'a :: len word \<Rightarrow> byte list" where
  "le_bytes n w = map (\<lambda>i. ucast (drop_bit (8 * i) w)) [0..<n]"

definition of_le_bytes :: "byte list \<Rightarrow> 'a :: len word" where
  "of_le_bytes bs = foldr (\<lambda>b w. push_bit 8 w OR ucast b) bs 0"

definition put_bytes :: "ByteOrder \<Rightarrow> nat \<Rightarrow> 'a :: len word \<Rightarrow> byte list" where
  "put_bytes bo n w = (case bo of LittleEndian \<Rightarrow> le_bytes n w | BigEndian \<Rightarrow> rev (le_bytes n w))"

definition get_bytes :: "ByteOrder \<Rightarrow> byte list \<Rightarrow> 'a :: len word" where
  "get_bytes bo bs = (case bo of LittleEndian \<Rightarrow> of_le_bytes bs | BigEndian \<Rightarrow> of_le_bytes (rev bs))"

lemma length_le_bytes [simp]: "length (le_bytes n w) = n"
  by (simp add: le_bytes_def)

lemma length_put_bytes [simp]: "length (put_bytes bo n w) = n"
  by (simp add: put_bytes_def split: ByteOrder.split)

lemma of_le_bytes_le_bytes: "of_le_bytes (le_bytes n w) = take_bit (8 * n) (w :: 'a :: len word)"
proof (induction n arbitrary: w)
  case 0
  show ?case by (simp add: le_bytes_def of_le_bytes_def)
next
  case (Suc n)
  have "le_bytes (Suc n) w = ucast w # le_bytes n (drop_bit 8 w)"
    by (simp add: le_bytes_def map_upt_Suc ac_simps del: upt_Suc)
  then have "of_le_bytes (le_bytes (Suc n) w) = push_bit 8 (take_bit (8 * n) (drop_bit 8 w)) OR ucast (ucast w :: byte)"
    using Suc [of "drop_bit 8 w"] by (simp add: of_le_bytes_def)
  also have "\<dots> = take_bit (8 * Suc n) w"
    by (rule bit_word_eqI) (auto simp: bit_simps)
  finally show ?case .
qed

lemma get_put_bytes: "8 * n = LENGTH('a) \<Longrightarrow> get_bytes bo (put_bytes bo n w) = (w :: 'a :: len word)"
  using of_le_bytes_le_bytes [of n w] by (simp add: get_bytes_def put_bytes_def split: ByteOrder.split)

section \<open>Reading\<close>

text \<open>\<^verbatim>\<open>io.ReadFull\<close>: the end of the input is one error, an input that ends too early another.\<close>

datatype read_error = EOF | UnexpectedEOF

definition read_full :: "nat \<Rightarrow> byte list \<Rightarrow> read_error + (byte list \<times> byte list)" where
  "read_full n bs =
     (if length bs < n then Inl (if bs = [] then EOF else UnexpectedEOF) else Inr (take n bs, drop n bs))"

lemma read_full_append [simp]: "length xs = n \<Longrightarrow> read_full n (xs @ bs) = Inr (xs, bs)"
  by (auto simp: read_full_def)

lemma read_full_Inr: "read_full n bs = Inr (xs, bs') \<Longrightarrow> length bs = n + length bs'"
  by (auto simp: read_full_def split: if_splits)

end
