(* ===== verification/Packed_RTree.thy ===== *)
theory Packed_RTree
  imports Byte_Order "HOL-Library.Multiset" "HOL-Library.Monad_Syntax"
begin

text \<open>
  The packed Hilbert R-tree of FlatGeobuf (\<^verbatim>\<open>internal/formats/flatgeobuf/packedrtree\<close>): boxes,
  the level layout, construction, search with a stack or with a heap of tickets,
  serialization, and streaming search from a seekable reader.

  Coordinates are \<^verbatim>\<open>float64\<close> bit patterns.  Go's 64-bit \<^verbatim>\<open>int\<close> is \<open>int\<close> with the overflow checks
  of the code written out; the counters of type \<^verbatim>\<open>uint\<close> are \<open>nat\<close>, since none of them can reach
  \<open>2 ^ 64\<close> (shown with the proofs).  A slice access out of range is a panic value.
\<close>

section \<open>Boxes\<close>

record Box =
  XMin :: float64
  YMin :: float64
  XMax :: float64
  YMax :: float64

definition EmptyBox :: Box where
  "EmptyBox = \<lparr>XMin = f_inf, YMin = f_inf, XMax = f_neginf, YMax = f_neginf\<rparr>"

definition Expand :: "Box \<Rightarrow> Box \<Rightarrow> Box" where
  "Expand b c =
     \<lparr>XMin = (if f_lt (XMin c) (XMin b) then XMin c else XMin b),
      YMin = (if f_lt (YMin c) (YMin b) then YMin c else YMin b),
      XMax = (if f_lt (XMax b) (XMax c) then XMax c else XMax b),
      YMax = (if f_lt (YMax b) (YMax c) then YMax c else YMax b)\<rparr>"

definition ExpandXY :: "Box \<Rightarrow> float64 \<Rightarrow> float64 \<Rightarrow> Box" where
  "ExpandXY b x y =
     \<lparr>XMin = (if f_lt x (XMin b) then x else XMin b),
      YMin = (if f_lt y (YMin b) then y else YMin b),
      XMax = (if f_lt (XMax b) x then x else XMax b),
      YMax = (if f_lt (YMax b) y then y else YMax b)\<rparr>"

definition intersects :: "Box \<Rightarrow> Box \<Rightarrow> bool" where
  "intersects b c \<longleftrightarrow>
     (if f_lt (XMax b) (XMin c) then False
      else if f_lt (YMax b) (YMin c) then False
      else if f_lt (XMax c) (XMin b) then False
      else if f_lt (YMax c) (YMin b) then False
      else True)"

section \<open>Nodes, sizes and levels\<close>

record Ref =
  ref_Box :: Box
  ref_Offset :: "64 word"

text \<open>A node is a reference; in an internal node the offset is the index of its first child.\<close>

type_synonym node = Ref

datatype prt_error = PrtPanic string | PrtError string | PrtDiverges

abbreviation MaxInt :: int where "MaxInt \<equiv> 2 ^ 63 - 1"
abbreviation numNodeBytes :: int where "numNodeBytes \<equiv> 40"

definition validateParams :: "int \<Rightarrow> 16 word \<Rightarrow> prt_error + unit" where
  "validateParams numRefs nodeSize =
     (if numRefs < 1 then Inl (PrtPanic ''empty tree not allowed (num refs must be > 0)'')
      else if nodeSize < 2 then Inl (PrtPanic ''node size must be at least 2'')
      else Inr ())"

text \<open>
  The loop that \<open>size\<close> and \<open>levelify\<close> share: the number of nodes of each level above the
  leaves, up to the root.  The loop has no bound of its own; \<open>None\<close> is that it never ends.
\<close>

partial_function (option) levelCounts :: "nat \<Rightarrow> nat \<Rightarrow> nat list option" where
  "levelCounts nodesThisLevel nodeSize =
     (if (nodesThisLevel + nodeSize - 1) div nodeSize = 1 then Some [1]
      else Option.bind (levelCounts ((nodesThisLevel + nodeSize - 1) div nodeSize) nodeSize)
             (\<lambda>counts. Some ((nodesThisLevel + nodeSize - 1) div nodeSize # counts)))"

declare levelCounts.simps [code]

definition totalNodes :: "int \<Rightarrow> int \<Rightarrow> prt_error + int" where
  "totalNodes numRefs numInternal =
     (if numInternal > MaxInt - numRefs then Inl (PrtError ''total node count overflows int'')
      else Inr (numRefs + numInternal))"

definition size_bytes :: "nat \<Rightarrow> nat \<Rightarrow> prt_error + int" where
  "size_bytes numRefs nodeSize =
     (case levelCounts numRefs nodeSize of
        None \<Rightarrow> Inl PrtDiverges
      | Some counts \<Rightarrow>
          bindE (totalNodes (int numRefs) (int (sum_list counts))) (\<lambda>numNodes.
            if numNodes > MaxInt div numNodeBytes then Inl (PrtError ''index size overflows int'')
            else Inr (numNodes * numNodeBytes)))"

definition Size :: "int \<Rightarrow> 16 word \<Rightarrow> prt_error + int" where
  "Size numRefs nodeSize =
     bindE (validateParams numRefs nodeSize) (\<lambda>_. size_bytes (nat numRefs) (unat nodeSize))"

record levelRange =
  lr_start :: nat
  lr_end :: nat

fun levelIndices :: "nat \<Rightarrow> nat list \<Rightarrow> nat list" where
  "levelIndices nodesRemaining [] = []"
| "levelIndices nodesRemaining (c # counts) =
     (nodesRemaining - c) # levelIndices (nodesRemaining - c) counts"

definition levelify :: "nat \<Rightarrow> nat \<Rightarrow> prt_error + levelRange list" where
  "levelify numRefs nodeSize =
     (case levelCounts numRefs nodeSize of
        None \<Rightarrow> Inl PrtDiverges
      | Some counts \<Rightarrow>
          let nodesPerLevel = numRefs # counts in
          (case totalNodes (int numRefs) (int (sum_list counts)) of
             Inl e \<Rightarrow> Inl (PrtPanic ''total node count overflows int'')
           | Inr numNodes \<Rightarrow>
               Inr (map2 (\<lambda>i c. \<lparr>lr_start = i, lr_end = i + c\<rparr>)
                      (levelIndices (nat numNodes) nodesPerLevel) nodesPerLevel)))"

section \<open>Tickets and their bags\<close>

record ticket =
  nodeIndex :: int
  tk_level :: int

type_synonym ticketBag = "ticket list"
type_synonym pushFunc = "ticketBag \<Rightarrow> ticket \<Rightarrow> ticketBag"
type_synonym popFunc = "ticketBag \<Rightarrow> prt_error + (ticket \<times> ticketBag)"

definition ticket_Less :: "ticketBag \<Rightarrow> nat \<Rightarrow> nat \<Rightarrow> bool" where
  "ticket_Less tq i j \<longleftrightarrow> nodeIndex (tq ! i) < nodeIndex (tq ! j)"

definition ticket_Swap :: "ticketBag \<Rightarrow> nat \<Rightarrow> nat \<Rightarrow> ticketBag" where
  "ticket_Swap tq i j = tq[i := tq ! j, j := tq ! i]"

definition stackPush :: pushFunc where
  "stackPush tq t = tq @ [t]"

definition stackPop :: popFunc where
  "stackPop tq =
     (if tq = [] then Inl (PrtPanic ''index out of range'')
      else Inr (tq ! (length tq - 1), take (length tq - 1) tq))"

text \<open>\<^verbatim>\<open>container/heap\<close> of the Go standard library, on a bag of tickets.\<close>

function heap_up :: "ticketBag \<Rightarrow> nat \<Rightarrow> ticketBag" where
  "heap_up h j =
     (let i = (j - 1) div 2 in
      if i = j \<or> \<not> ticket_Less h j i then h else heap_up (ticket_Swap h i j) i)"
  by pat_completeness auto
termination
  by (relation "measure snd") auto

declare heap_up.simps [simp del]

definition heap_child :: "ticketBag \<Rightarrow> nat \<Rightarrow> nat \<Rightarrow> nat" where
  "heap_child h i n =
     (let j1 = 2 * i + 1; j2 = j1 + 1 in if j2 < n \<and> ticket_Less h j2 j1 then j2 else j1)"

function heap_down :: "ticketBag \<Rightarrow> nat \<Rightarrow> nat \<Rightarrow> ticketBag" where
  "heap_down h i n =
     (if n \<le> 2 * i + 1 then h
      else if \<not> ticket_Less h (heap_child h i n) i then h
      else heap_down (ticket_Swap h i (heap_child h i n)) (heap_child h i n) n)"
  by pat_completeness auto
termination
  by (relation "measure (\<lambda>(h, i, n). n - i)") (auto simp: heap_child_def Let_def)

declare heap_down.simps [simp del]

definition heapPush :: pushFunc where
  "heapPush tq t = (let h = stackPush tq t in heap_up h (length h - 1))"

definition heapPop :: popFunc where
  "heapPop tq =
     (if tq = [] then Inl (PrtPanic ''index out of range'')
      else let n = length tq - 1 in stackPop (heap_down (ticket_Swap tq 0 n) 0 n))"

section \<open>Search\<close>

type_synonym 'st fetchFunc = "'st \<Rightarrow> int \<Rightarrow> int \<Rightarrow> node list \<Rightarrow> prt_error + ('st \<times> node list)"

record 'st packedRTree =
  prt_numRefs :: int
  prt_nodeSize :: int
  prt_levels :: "levelRange list"
  prt_nodes :: "node list"
  prt_push :: pushFunc
  prt_pop :: popFunc
  prt_fetch :: "'st fetchFunc option"

definition zero_node :: node where
  "zero_node = \<lparr>ref_Box = \<lparr>XMin = 0, YMin = 0, XMax = 0, YMax = 0\<rparr>, ref_Offset = 0\<rparr>"

definition noo ::
  "int \<Rightarrow> 16 word \<Rightarrow> pushFunc \<Rightarrow> popFunc \<Rightarrow> 'st fetchFunc option \<Rightarrow> prt_error + 'st packedRTree" where
  "noo numRefs nodeSize push pop fetch =
     bindE (levelify (nat numRefs) (unat nodeSize)) (\<lambda>levels.
       Inr \<lparr>prt_numRefs = numRefs, prt_nodeSize = int (unat nodeSize), prt_levels = levels,
            prt_nodes = replicate (lr_end (levels ! 0)) zero_node,
            prt_push = push, prt_pop = pop, prt_fetch = fetch\<rparr>)"

record Result =
  res_Offset :: "64 word"
  res_RefIndex :: int

type_synonym Results = "Result list"

text \<open>One node of the loop over the nodes of a ticket.\<close>

definition visit ::
  "'st packedRTree \<Rightarrow> Box \<Rightarrow> bool \<Rightarrow> int \<Rightarrow> node list \<Rightarrow> int \<Rightarrow> ticketBag \<times> Results
     \<Rightarrow> prt_error + (ticketBag \<times> Results)" where
  "visit prt b isLeafLevel level nodes pos = (\<lambda>(q, r).
     if pos < 0 \<or> int (length nodes) \<le> pos then Inl (PrtPanic ''index out of range'')
     else let n = nodes ! nat pos in
       if \<not> intersects b (ref_Box n) then Inr (q, r)
       else if isLeafLevel
       then Inr (q, r @ [\<lparr>res_Offset = ref_Offset n,
                          res_RefIndex = pos - int (lr_start (prt_levels prt ! 0))\<rparr>])
       else Inr (prt_push prt q \<lparr>nodeIndex = sint (ref_Offset n), tk_level = level - 1\<rparr>, r))"

text \<open>One iteration of the search loop: the bag, the results, the nodes and the reader state.\<close>

definition searchStep ::
  "'st packedRTree \<Rightarrow> Box \<Rightarrow> 'st \<times> node list \<times> ticketBag \<times> Results
     \<Rightarrow> prt_error + ('st \<times> node list \<times> ticketBag \<times> Results)" where
  "searchStep prt b = (\<lambda>(st, nodes, q, r).
     bindE (prt_pop prt q) (\<lambda>(t, q1).
       if tk_level t < 0 \<or> int (length (prt_levels prt)) \<le> tk_level t
       then Inl (PrtPanic ''index out of range'')
       else let end1 = nodeIndex t + prt_nodeSize prt;
                lend = int (lr_end (prt_levels prt ! nat (tk_level t)));
                end2 = (if lend < end1 then lend else end1);
                isLeafLevel = (nodeIndex t \<ge> int (lr_start (prt_levels prt ! 0)))
            in bindE (case prt_fetch prt of
                        None \<Rightarrow> Inr (st, nodes)
                      | Some fetch \<Rightarrow> fetch st (nodeIndex t) end2 nodes) (\<lambda>(st1, nodes1).
                 bindE (foldE (visit prt b isLeafLevel (tk_level t) nodes1)
                          [nodeIndex t..end2 - 1] (q1, r)) (\<lambda>(q2, r2).
                   Inr (st1, nodes1, q2, r2)))))"

partial_function (option) searchLoop ::
  "'st packedRTree \<Rightarrow> Box \<Rightarrow> 'st \<times> node list \<times> ticketBag \<times> Results
     \<Rightarrow> (prt_error + ('st \<times> Results)) option" where
  "searchLoop prt b s =
     (case searchStep prt b s of
        Inl e \<Rightarrow> Some (Inl e)
      | Inr (st, nodes, q, r) \<Rightarrow>
          if q = [] then Some (Inr (st, r)) else searchLoop prt b (st, nodes, q, r))"

declare searchLoop.simps [code]

definition search ::
  "'st packedRTree \<Rightarrow> 'st \<Rightarrow> Box \<Rightarrow> (prt_error + ('st \<times> Results)) option" where
  "search prt st b =
     searchLoop prt b
       (st, prt_nodes prt, [\<lparr>nodeIndex = 0, tk_level = int (length (prt_levels prt)) - 1\<rparr>], [])"

section \<open>Construction\<close>

definition node_at :: "node list \<Rightarrow> nat \<Rightarrow> prt_error + node" where
  "node_at nodes i =
     (if i < length nodes then Inr (nodes ! i) else Inl (PrtPanic ''index out of range''))"

definition set_node :: "node list \<Rightarrow> nat \<Rightarrow> node \<Rightarrow> prt_error + node list" where
  "set_node nodes i n =
     (if i < length nodes then Inr (nodes[i := n]) else Inl (PrtPanic ''index out of range''))"

fun storeLeaves :: "nat \<Rightarrow> Ref list \<Rightarrow> node list \<Rightarrow> prt_error + node list" where
  "storeLeaves i [] nodes = Inr nodes"
| "storeLeaves i (r # refs) nodes = bindE (set_node nodes i r) (storeLeaves (i + 1) refs)"

text \<open>
  The loop labelled \<open>parent\<close>: it expands the box of one parent by the boxes of its children.
  The flag of the result is that the loop labelled \<open>level\<close> is left too.
\<close>

function parentLoop ::
  "nat \<Rightarrow> nat \<Rightarrow> node list \<Rightarrow> nat \<Rightarrow> nat \<Rightarrow> nat
     \<Rightarrow> prt_error + (node list \<times> nat \<times> nat \<times> bool)" where
  "parentLoop nsize levelEnd nodes child parent j =
     (if length nodes \<le> child \<or> length nodes \<le> parent
      then Inl (PrtPanic ''index out of range'')
      else let nodes' = nodes[parent := (nodes ! parent)
             \<lparr>ref_Box := Expand (ref_Box (nodes ! parent)) (ref_Box (nodes ! child))\<rparr>]
           in if j + 1 = nsize then Inr (nodes', child + 1, parent + 1, False)
              else if child + 1 = levelEnd then Inr (nodes', child + 1, parent, True)
              else parentLoop nsize levelEnd nodes' (child + 1) parent (j + 1))"
  by pat_completeness auto
termination
  by (relation "measure (\<lambda>(nsize, levelEnd, nodes, child, parent, j). length nodes - child)") auto

declare parentLoop.simps [simp del]

lemma parentLoop_progress:
  "parentLoop nsize levelEnd nodes child parent j = Inr (nodes', child', parent', b) \<Longrightarrow>
   child < child' \<and> length nodes' = length nodes"
proof (induction nsize levelEnd nodes child parent j rule: parentLoop.induct)
  case (1 nsize levelEnd nodes child parent j)
  let ?nodes = "nodes[parent := (nodes ! parent)
     \<lparr>ref_Box := Expand (ref_Box (nodes ! parent)) (ref_Box (nodes ! child))\<rparr>]"
  have inb: "\<not> (length nodes \<le> child \<or> length nodes \<le> parent)"
    using "1.prems" by (auto simp: parentLoop.simps [of nsize levelEnd nodes] split: if_splits)
  show ?case
  proof (cases "j + 1 = nsize \<or> child + 1 = levelEnd")
    case True
    with "1.prems" inb show ?thesis
      by (auto simp: parentLoop.simps [of nsize levelEnd nodes] Let_def split: if_splits)
  next
    case False
    with "1.prems" inb
    have "parentLoop nsize levelEnd ?nodes (child + 1) parent (j + 1) = Inr (nodes', child', parent', b)"
      by (simp add: parentLoop.simps [of nsize levelEnd nodes])
    with "1.IH" [OF inb refl] False show ?thesis by fastforce
  qed
qed

text \<open>The loop labelled \<open>level\<close>: one parent after the other.\<close>

function levelLoop ::
  "nat \<Rightarrow> nat \<Rightarrow> node list \<Rightarrow> nat \<Rightarrow> nat \<Rightarrow> prt_error + node list" where
  "levelLoop nsize levelEnd nodes child parent =
     (if child < levelEnd
      then (case set_node nodes parent
                   \<lparr>ref_Box = EmptyBox, ref_Offset = word_of_int (int child)\<rparr> of
              Inl e \<Rightarrow> Inl e
            | Inr nodes1 \<Rightarrow>
                (case parentLoop nsize levelEnd nodes1 child parent 0 of
                   Inl e \<Rightarrow> Inl e
                 | Inr (nodes2, child2, parent2, left) \<Rightarrow>
                     if left then Inr nodes2 else levelLoop nsize levelEnd nodes2 child2 parent2))
      else Inr nodes)"
  by pat_completeness auto
termination
  by (relation "measure (\<lambda>(nsize, levelEnd, nodes, child, parent). levelEnd - child)")
    (auto dest!: parentLoop_progress)

declare levelLoop.simps [simp del]

text \<open>The internal nodes, level by level from the leaves to the root.\<close>

definition buildLevels :: "nat \<Rightarrow> levelRange list \<Rightarrow> node list \<Rightarrow> prt_error + node list" where
  "buildLevels nsize levels nodes =
     foldE (\<lambda>i nodes. levelLoop nsize (lr_end (levels ! i)) nodes
              (lr_start (levels ! i)) (lr_start (levels ! (i + 1))))
       [0..<length levels - 1] nodes"

definition New :: "Ref list \<Rightarrow> 16 word \<Rightarrow> prt_error + unit packedRTree" where
  "New refs nodeSize =
     bindE (Size (int (length refs)) nodeSize) (\<lambda>_.
     bindE (noo (int (length refs)) nodeSize stackPush stackPop None) (\<lambda>prt.
     bindE (storeLeaves (lr_start (prt_levels prt ! 0)) refs (prt_nodes prt)) (\<lambda>nodes.
     bindE (buildLevels (nat (prt_nodeSize prt)) (prt_levels prt) nodes) (\<lambda>nodes'.
       Inr (prt\<lparr>prt_nodes := nodes'\<rparr>)))))"

definition Bounds :: "'st packedRTree \<Rightarrow> prt_error + Box" where
  "Bounds prt = bindE (node_at (prt_nodes prt) 0) (\<lambda>n. Inr (ref_Box n))"

definition NumRefs :: "'st packedRTree \<Rightarrow> int" where
  "NumRefs prt = prt_numRefs prt"

definition NodeSize :: "'st packedRTree \<Rightarrow> 16 word" where
  "NodeSize prt = word_of_int (prt_nodeSize prt)"

text \<open>
  \<open>Search\<close> on an in-memory tree: an error of \<open>search\<close> becomes a panic.
\<close>

definition Search :: "unit packedRTree \<Rightarrow> Box \<Rightarrow> (prt_error + Results) option" where
  "Search prt b =
     map_option (\<lambda>res. case res of
         Inl (PrtError e) \<Rightarrow> Inl (PrtPanic e)
       | Inl e \<Rightarrow> Inl e
       | Inr (_, r) \<Rightarrow> Inr r) (search prt () b)"

section \<open>Serialization\<close>

text \<open>The octets of a 64-bit value, least significant first.\<close>

definition le_octets :: "64 word \<Rightarrow> byte list" where
  "le_octets w = le_bytes 8 w"

definition of_le_octets :: "byte list \<Rightarrow> 64 word" where
  "of_le_octets bs = of_le_bytes bs"

definition node_octets :: "node \<Rightarrow> byte list" where
  "node_octets n = concat (map le_octets
     [XMin (ref_Box n), YMin (ref_Box n), XMax (ref_Box n), YMax (ref_Box n), ref_Offset n])"

definition of_node_octets :: "byte list \<Rightarrow> node" where
  "of_node_octets bs =
     (let f = (\<lambda>i. of_le_octets (take 8 (drop (8 * i) bs))) in
      \<lparr>ref_Box = \<lparr>XMin = f 0, YMin = f 1, XMax = f 2, YMax = f 3\<rparr>, ref_Offset = f 4\<rparr>)"

text \<open>What \<open>Marshal\<close> hands to the writer.\<close>

definition Marshal :: "'st packedRTree \<Rightarrow> byte list" where
  "Marshal prt = concat (map node_octets (prt_nodes prt))"

text \<open>
  A seekable reader over a byte string: its contents and its position.  \<open>ReadFull\<close> is
  \<^verbatim>\<open>io.ReadFull\<close>; \<open>rd_Seek\<close> returns the new absolute position or fails on a negative one.
\<close>

record reader =
  rd_data :: "byte list"
  rd_pos :: int

definition ReadFull :: "reader \<Rightarrow> nat \<Rightarrow> reader \<times> (prt_error + byte list)" where
  "ReadFull r n =
     (let avail = drop (nat (rd_pos r)) (rd_data r) in
      if n \<le> length avail then (r\<lparr>rd_pos := rd_pos r + int n\<rparr>, Inr (take n avail))
      else (r\<lparr>rd_pos := rd_pos r + int (length avail)\<rparr>, Inl (PrtError ''unexpected EOF'')))"

definition rd_SeekTo :: "reader \<Rightarrow> int \<Rightarrow> prt_error + reader" where
  "rd_SeekTo r pos =
     (if pos < 0 then Inl (PrtError ''negative position'') else Inr (r\<lparr>rd_pos := pos\<rparr>))"

fun decode_nodes :: "nat \<Rightarrow> byte list \<Rightarrow> node list" where
  "decode_nodes 0 bs = []"
| "decode_nodes (Suc k) bs = of_node_octets (take 40 bs) # decode_nodes k (drop 40 bs)"

definition Unmarshal :: "reader \<Rightarrow> int \<Rightarrow> 16 word \<Rightarrow> prt_error + (unit packedRTree \<times> reader)" where
  "Unmarshal r numRefs nodeSize =
     bindE (Size numRefs nodeSize) (\<lambda>_.
     bindE (noo numRefs nodeSize stackPush stackPop None) (\<lambda>prt.
       let k = length (prt_nodes prt); (r', res) = ReadFull r (40 * k) in
       bindE res (\<lambda>dst. Inr (prt\<lparr>prt_nodes := decode_nodes k dst\<rparr>, r'))))"

text \<open>
  \<open>readLittleEndianNodes\<close> overwrites the nodes \<open>i\<close> to \<open>j - 1\<close>; taking the address of node \<open>i\<close>
  and the slice behind it panic outside the slice.
\<close>

definition readLittleEndianNodes ::
  "reader \<Rightarrow> int \<Rightarrow> int \<Rightarrow> node list \<Rightarrow> prt_error + (reader \<times> node list)" where
  "readLittleEndianNodes r i j nodes =
     (if i < 0 \<or> int (length nodes) \<le> i \<or> j < i \<or> int (length nodes) < j
      then Inl (PrtPanic ''index out of range'')
      else let k = nat (j - i); (r', res) = ReadFull r (40 * k) in
           bindE res (\<lambda>b. Inr (r', take (nat i) nodes @ decode_nodes k b @ drop (nat j) nodes)))"

text \<open>The closure \<open>fetch\<close> of \<open>Seek\<close>; its state is the reader and the tracked offset.\<close>

definition seek_fetch :: "int \<Rightarrow> (reader \<times> int) fetchFunc" where
  "seek_fetch startOffset = (\<lambda>(rs, offset) i j nodes.
     let rel = startOffset + i * numNodeBytes - offset in
     bindE (if rel \<noteq> 0
            then bindE (rd_SeekTo rs (rd_pos rs + rel)) (\<lambda>rs'. Inr (rs', rd_pos rs'))
            else Inr (rs, offset)) (\<lambda>(rs1, offset1).
     bindE (readLittleEndianNodes rs1 i j nodes) (\<lambda>(rs2, nodes').
       Inr ((rs2, offset1 + (j - i) * numNodeBytes), nodes'))))"

definition Seek ::
  "reader \<Rightarrow> int \<Rightarrow> 16 word \<Rightarrow> Box \<Rightarrow> (prt_error + (Results \<times> reader)) option" where
  "Seek rs numRefs nodeSize b =
     (let startOffset = rd_pos rs in
      case Size numRefs nodeSize of
        Inl e \<Rightarrow> Some (Inl e)
      | Inr sz \<Rightarrow>
          if sz > MaxInt - startOffset
          then Some (Inl (PrtError ''index end offset overflows int64''))
          else (case noo numRefs nodeSize heapPush heapPop (Some (seek_fetch startOffset)) of
                  Inl e \<Rightarrow> Some (Inl e)
                | Inr prt \<Rightarrow>
                    map_option (\<lambda>res. bindE res (\<lambda>((rs', offset), sr).
                      if startOffset + sz \<noteq> offset
                      then bindE (rd_SeekTo rs' (startOffset + sz)) (\<lambda>rs''. Inr (sr, rs''))
                      else Inr (sr, rs'))) (search prt (rs, startOffset) b)))"

end
