(* ===== verification/Packed_RTree_Build.thy ===== *)
theory Packed_RTree_Build
  imports Packed_RTree
begin

text \<open>
  The shape of a packed R-tree: how many nodes each level has and where it starts, that the
  size computation ends and cannot wrap around, and that \<open>New\<close> builds a tree in which every
  node contains all references below it.
\<close>

section \<open>The level layout\<close>

text \<open>The number of nodes of level \<open>i\<close>: \<open>n / s ^ i\<close>, rounded up.\<close>

definition cnt :: "nat \<Rightarrow> nat \<Rightarrow> nat \<Rightarrow> nat" where
  "cnt n s i = (n + s ^ i - 1) div s ^ i"

lemma ceil_le_iff: "0 < a \<Longrightarrow> (n + a - 1) div a \<le> k \<longleftrightarrow> n \<le> k * (a :: nat)"
proof -
  assume a: "0 < a"
  have "(n + a - 1) div a \<le> k \<longleftrightarrow> (n + a - 1) div a < Suc k" by (simp add: less_Suc_eq_le)
  also have "\<dots> \<longleftrightarrow> n + a - 1 < Suc k * a" using a by (rule div_less_iff_less_mult)
  also have "\<dots> \<longleftrightarrow> n \<le> k * a" using a by (simp; linarith)
  finally show ?thesis .
qed

lemma cnt_le_iff: "0 < s \<Longrightarrow> cnt n s i \<le> k \<longleftrightarrow> n \<le> k * s ^ i"
  unfolding cnt_def by (rule ceil_le_iff) simp

lemma less_cnt_iff: "0 < s \<Longrightarrow> k < cnt n s i \<longleftrightarrow> k * s ^ i < n"
  using cnt_le_iff [of s n i k] by (simp only: not_le [symmetric]) blast

lemma cnt_0 [simp]: "cnt n s 0 = n"
  by (simp add: cnt_def)

lemma cnt_step: "0 < s \<Longrightarrow> (cnt n s i + s - 1) div s = cnt n s (Suc i)"
proof -
  assume s: "0 < s"
  have "(cnt n s i + s - 1) div s \<le> k \<longleftrightarrow> cnt n s (Suc i) \<le> k" for k
    using ceil_le_iff [OF s, of "cnt n s i" k] s by (simp add: cnt_le_iff mult.assoc)
  from this [of "cnt n s (Suc i)"] this [of "(cnt n s i + s - 1) div s"] show ?thesis
    by (intro order_antisym) simp_all
qed

lemma cnt_shift: "0 < s \<Longrightarrow> cnt (cnt n s 1) s i = cnt n s (Suc i)"
proof (induction i)
  case (Suc i)
  then show ?case using cnt_step [of s "cnt n s 1" i] cnt_step [of s n "Suc i"] by simp
qed simp

lemma cnt_pos: "0 < s \<Longrightarrow> 0 < n \<Longrightarrow> 0 < cnt n s i"
  by (simp add: less_cnt_iff)

lemma cnt_1_less: "2 \<le> s \<Longrightarrow> 1 < n \<Longrightarrow> cnt n s 1 < n"
proof -
  assume s: "2 \<le> s" and n: "1 < n"
  have "n \<le> 2 * (n - 1)" using n by simp
  also have "\<dots> \<le> (n - 1) * s" using s by (simp add: mult.commute)
  finally have "cnt n s 1 \<le> n - 1" using s by (simp add: cnt_le_iff)
  then show ?thesis using n by simp
qed

text \<open>The height: the first level above the leaves that has one node only.\<close>

definition is_height :: "nat \<Rightarrow> nat \<Rightarrow> nat \<Rightarrow> bool" where
  "is_height n s h \<longleftrightarrow> 1 \<le> h \<and> cnt n s h = 1"

lemma levelCounts_cnt:
  "1 \<le> n \<Longrightarrow> 2 \<le> s \<Longrightarrow>
   \<exists>h. is_height n s h \<and> levelCounts n s = Some (map (cnt n s) [1..<Suc h])"
proof (induction n rule: less_induct)
  case (less n)
  have m: "(n + s - 1) div s = cnt n s 1" using cnt_step [of s n 0] less.prems by simp
  show ?case
  proof (cases "cnt n s 1 = 1")
    case True
    with m show ?thesis
      by (intro exI [of _ 1]) (auto simp: is_height_def levelCounts.simps)
  next
    case False
    then have "1 < n" using less.prems cnt_1_less cnt_pos [of s n 1]
      by (cases "n = 1") (auto simp: cnt_def)
    with less.prems have "cnt n s 1 < n" "1 \<le> cnt n s 1"
      using cnt_1_less cnt_pos [of s n 1] by auto
    with less.IH [of "cnt n s 1"] less.prems obtain h where
      h: "is_height (cnt n s 1) s h" "levelCounts (cnt n s 1) s = Some (map (cnt (cnt n s 1) s) [1..<Suc h])"
      by auto
    have shift: "cnt n s (Suc i) = cnt (cnt n s 1) s i" for i
      by (rule cnt_shift [symmetric]) (use less.prems in simp)
    have "map (cnt (cnt n s 1) s) [1..<Suc h] = map (cnt n s) (map Suc [1..<Suc h])"
      by (simp only: map_map comp_def shift)
    then have "map (cnt (cnt n s 1) s) [1..<Suc h] = map (cnt n s) [2..<Suc (Suc h)]"
      by (simp only: map_Suc_upt numeral_2_eq_2 One_nat_def)
    moreover have "[1..<Suc (Suc h)] = 1 # [2..<Suc (Suc h)]"
      using upt_conv_Cons [of 1 "Suc (Suc h)"] by (simp add: numeral_2_eq_2)
    moreover have "is_height n s (Suc h)" using h(1) shift [of h] by (simp add: is_height_def)
    ultimately show ?thesis using h(2) False m
      by (intro exI [of _ "Suc h"]) (simp add: levelCounts.simps [of n] del: upt_Suc)
  qed
qed

text \<open>The counters of type \<^verbatim>\<open>uint\<close> stay below twice the number of references.\<close>

lemma levelCounts_sum:
  "1 \<le> n \<Longrightarrow> 2 \<le> s \<Longrightarrow> levelCounts n s = Some cs \<Longrightarrow> sum_list cs < 2 * n"
proof (induction n arbitrary: cs rule: less_induct)
  case (less n)
  have m: "(n + s - 1) div s = cnt n s 1" using cnt_step [of s n 0] less.prems by simp
  show ?case
  proof (cases "cnt n s 1 = 1")
    case True
    with less.prems m show ?thesis by (auto simp: levelCounts.simps [of n])
  next
    case False
    then have n: "1 < n" using less.prems cnt_pos [of s n 1]
      by (cases "n = 1") (auto simp: cnt_def)
    have "n \<le> ((n + 1) div 2) * 2" by presburger
    also have "\<dots> \<le> ((n + 1) div 2) * s" using less.prems by simp
    finally have half: "cnt n s 1 \<le> (n + 1) div 2" using less.prems by (simp add: cnt_le_iff)
    with n False have n3: "3 \<le> n" using cnt_pos [of s n 1] less.prems by (cases "n = 2") auto
    from less.prems(3) m False obtain cs' where cs': "levelCounts (cnt n s 1) s = Some cs'"
        "cs = cnt n s 1 # cs'"
      by (auto simp: levelCounts.simps [of n] split: Option.bind_splits)
    have "sum_list cs' < 2 * cnt n s 1"
      using less.IH [OF _ _ _ cs'(1)] cnt_1_less [OF less.prems(2) n] cnt_pos [of s n 1] less.prems
      by simp
    then have "sum_list cs < 3 * cnt n s 1" using cs'(2) by simp
    moreover have "2 * ((n + 1) div 2) \<le> n + 1" by simp
    ultimately show ?thesis using half n3 by linarith
  qed
qed

text \<open>Where each level starts: behind the levels above it.\<close>

definition start :: "nat \<Rightarrow> nat \<Rightarrow> nat \<Rightarrow> nat \<Rightarrow> nat" where
  "start n s h i = sum_list (map (cnt n s) [Suc i..<Suc h])"

definition numNodes :: "nat \<Rightarrow> nat \<Rightarrow> nat \<Rightarrow> nat" where
  "numNodes n s h = start n s h 0 + n"

lemma start_top [simp]: "start n s h h = 0"
  by (simp add: start_def)

lemma start_step: "i < h \<Longrightarrow> start n s h i = start n s h (Suc i) + cnt n s (Suc i)"
  by (simp add: start_def upt_conv_Cons del: upt_Suc)

lemma start_mono: "i \<le> j \<Longrightarrow> j \<le> h \<Longrightarrow> start n s h j \<le> start n s h i"
proof (induction j rule: dec_induct)
  case (step j)
  then show ?case using start_step [of j h n s] by simp
qed simp

lemma start_end: "i \<le> h \<Longrightarrow> start n s h i + cnt n s i \<le> numNodes n s h"
proof (cases i)
  case (Suc k)
  assume "i \<le> h"
  with Suc have "start n s h i + cnt n s i = start n s h k" using start_step [of k h n s] by simp
  also have "\<dots> \<le> start n s h 0" using start_mono [of 0 k h n s] Suc \<open>i \<le> h\<close> by simp
  finally show ?thesis by (simp add: numNodes_def)
qed (simp add: numNodes_def)

definition layout :: "nat \<Rightarrow> nat \<Rightarrow> nat \<Rightarrow> levelRange list" where
  "layout n s h =
     map (\<lambda>i. \<lparr>lr_start = start n s h i, lr_end = start n s h i + cnt n s i\<rparr>) [0..<Suc h]"

lemma levelIndices_start:
  "i \<le> Suc h \<Longrightarrow>
   levelIndices (sum_list (map (cnt n s) [i..<Suc h])) (map (cnt n s) [i..<Suc h])
     = map (start n s h) [i..<Suc h]"
proof (induction i rule: inc_induct)
  case (step i)
  then have "[i..<Suc h] = i # [Suc i..<Suc h]" by (simp add: upt_conv_Cons)
  with step.IH show ?case by (simp add: start_def del: upt_Suc)
qed simp

lemma levelify_layout:
  assumes "1 \<le> n" and "2 \<le> s" and "levelCounts n s = Some (map (cnt n s) [1..<Suc h])"
    and "int (numNodes n s h) \<le> MaxInt"
  shows "levelify n s = Inr (layout n s h)"
proof -
  have cs: "n # map (cnt n s) [1..<Suc h] = map (cnt n s) [0..<Suc h]"
    by (simp add: upt_conv_Cons [of 0] del: upt_Suc)
  have sum: "sum_list (map (cnt n s) [0..<Suc h]) = numNodes n s h"
    by (simp add: numNodes_def start_def upt_conv_Cons [of 0] del: upt_Suc)
  have total: "totalNodes (int n) (int (sum_list (map (cnt n s) [1..<Suc h]))) = Inr (int (numNodes n s h))"
    using assms(4) by (simp add: totalNodes_def numNodes_def start_def del: upt_Suc)
  have "levelIndices (numNodes n s h) (map (cnt n s) [0..<Suc h]) = map (start n s h) [0..<Suc h]"
    using levelIndices_start [of 0 h n s] sum by simp
  then show ?thesis
    by (simp add: levelify_def assms(3) total Let_def cs layout_def zip_map_map zip_same_conv_map
        del: upt_Suc One_nat_def)
qed

lemma size_bytes_iff:
  assumes "1 \<le> n" and "2 \<le> s" and "levelCounts n s = Some (map (cnt n s) [1..<Suc h])"
    and "size_bytes n s = Inr sz"
  shows "int (numNodes n s h) * 40 \<le> MaxInt" and "sz = int (numNodes n s h) * 40"
proof -
  have total: "int n + int (sum_list (map (cnt n s) [1..<Suc h])) = int (numNodes n s h)"
    by (simp add: numNodes_def start_def del: upt_Suc)
  define N where "N = int (sum_list (map (cnt n s) [1..<Suc h]))"
  have N: "int n + N = int (numNodes n s h)" using total by (simp add: N_def)
  from assms(4) have "\<not> N > MaxInt - int n" "\<not> int n + N > MaxInt div 40" "sz = (int n + N) * 40"
    unfolding size_bytes_def assms(3) option.case N_def [symmetric] totalNodes_def
    by (simp_all only: bindE_simps sum.distinct sum.inject not_False_eq_True split: if_splits)
  with N show "int (numNodes n s h) * 40 \<le> MaxInt" "sz = int (numNodes n s h) * 40" by simp_all
qed

section \<open>Boxes\<close>

definition box_no_nan :: "Box \<Rightarrow> bool" where
  "box_no_nan b \<longleftrightarrow> \<not> f_isnan (XMin b) \<and> \<not> f_isnan (YMin b) \<and> \<not> f_isnan (XMax b) \<and> \<not> f_isnan (YMax b)"

text \<open>The second box contains the first one.\<close>

definition box_in :: "Box \<Rightarrow> Box \<Rightarrow> bool" where
  "box_in c b \<longleftrightarrow> box_no_nan b \<and> box_no_nan c
     \<and> f_key (XMin b) \<le> f_key (XMin c) \<and> f_key (YMin b) \<le> f_key (YMin c)
     \<and> f_key (XMax c) \<le> f_key (XMax b) \<and> f_key (YMax c) \<le> f_key (YMax b)"

lemma box_in_refl: "box_no_nan b \<Longrightarrow> box_in b b"
  by (simp add: box_in_def)

lemma box_in_trans: "box_in a b \<Longrightarrow> box_in b c \<Longrightarrow> box_in a c"
  by (auto simp: box_in_def)

lemma box_no_nan_Empty: "box_no_nan EmptyBox"
  by (simp add: box_no_nan_def EmptyBox_def)

lemma pick_low:
  "\<not> f_isnan b \<Longrightarrow> \<not> f_isnan c \<Longrightarrow> m = (if f_lt c b then c else b) \<Longrightarrow>
   \<not> f_isnan m \<and> f_key m \<le> f_key b \<and> f_key m \<le> f_key c"
  by (simp add: f_lt_def)

lemma pick_high:
  "\<not> f_isnan b \<Longrightarrow> \<not> f_isnan c \<Longrightarrow> m = (if f_lt b c then c else b) \<Longrightarrow>
   \<not> f_isnan m \<and> f_key b \<le> f_key m \<and> f_key c \<le> f_key m"
  by (simp add: f_lt_def)

lemma Expand_sel:
  "XMin (Expand b c) = (if f_lt (XMin c) (XMin b) then XMin c else XMin b)"
  "YMin (Expand b c) = (if f_lt (YMin c) (YMin b) then YMin c else YMin b)"
  "XMax (Expand b c) = (if f_lt (XMax b) (XMax c) then XMax c else XMax b)"
  "YMax (Expand b c) = (if f_lt (YMax b) (YMax c) then YMax c else YMax b)"
  by (simp_all only: Expand_def Box.simps)

lemma Expand_contains:
  assumes "box_no_nan b" and "box_no_nan c"
  shows "box_in b (Expand b c)" and "box_in c (Expand b c)"
proof -
  note fin = assms [unfolded box_no_nan_def]
  note picks = pick_low [OF _ _ Expand_sel(1), of b c] pick_low [OF _ _ Expand_sel(2), of b c]
    pick_high [OF _ _ Expand_sel(3), of b c] pick_high [OF _ _ Expand_sel(4), of b c]
  show "box_in b (Expand b c)" "box_in c (Expand b c)"
    using fin picks unfolding box_in_def box_no_nan_def by blast+
qed

lemma foldl_Expand_finite:
  "box_no_nan b \<Longrightarrow> \<forall>c \<in> set cs. box_no_nan c \<Longrightarrow> box_in b (foldl Expand b cs)"
proof (induction cs arbitrary: b)
  case (Cons c cs)
  then have "box_in b (Expand b c)" "box_no_nan (Expand b c)"
    using Expand_contains [of b c] by (auto simp: box_in_def)
  with Cons show ?case using box_in_trans by auto
qed (simp add: box_in_refl)

lemma foldl_Expand_contains:
  "box_no_nan b \<Longrightarrow> \<forall>c \<in> set cs. box_no_nan c \<Longrightarrow> c \<in> set cs \<Longrightarrow> box_in c (foldl Expand b cs)"
proof (induction cs arbitrary: b)
  case (Cons d cs)
  have ex: "box_in d (Expand b d)" "box_no_nan (Expand b d)"
    using Expand_contains [of b d] Cons.prems by (auto simp: box_in_def)
  show ?case
  proof (cases "c = d")
    case True
    have "box_in (Expand b d) (foldl Expand (Expand b d) cs)"
      using foldl_Expand_finite [of "Expand b d" cs] ex(2) Cons.prems by simp
    with ex(1) True box_in_trans show ?thesis by auto
  next
    case False
    with Cons ex(2) show ?thesis by auto
  qed
qed simp

lemma f_lt_above: "f_lt x b \<Longrightarrow> f_key b \<le> f_key c \<Longrightarrow> \<not> f_isnan c \<Longrightarrow> f_lt x c"
  by (simp add: f_lt_def)

lemma f_lt_below: "f_lt b x \<Longrightarrow> f_key c \<le> f_key b \<Longrightarrow> \<not> f_isnan c \<Longrightarrow> f_lt c x"
  by (simp add: f_lt_def)

lemma intersects_iff:
  "intersects b c \<longleftrightarrow> \<not> f_lt (XMax b) (XMin c) \<and> \<not> f_lt (YMax b) (YMin c)
     \<and> \<not> f_lt (XMax c) (XMin b) \<and> \<not> f_lt (YMax c) (YMin b)"
  by (simp add: intersects_def)

lemma intersects_mono: "box_in c b \<Longrightarrow> intersects q c \<Longrightarrow> intersects q b"
  unfolding intersects_iff box_in_def box_no_nan_def by (blast intro: f_lt_above f_lt_below)

section \<open>Construction\<close>

text \<open>The children that the loop over one parent visits, and the box it leaves there.\<close>

definition span :: "node list \<Rightarrow> nat \<Rightarrow> nat \<Rightarrow> Box list" where
  "span nodes a b = map (\<lambda>i. ref_Box (nodes ! i)) [a..<b]"

lemma span_Cons: "a < b \<Longrightarrow> span nodes a b = ref_Box (nodes ! a) # span nodes (a + 1) b"
  by (simp add: span_def upt_conv_Cons)

lemma span_update: "p < a \<Longrightarrow> span (nodes[p := x]) a b = span nodes a b"
  by (simp add: span_def)

lemma parentLoop_result:
  assumes "child < levelEnd" and "levelEnd \<le> length nodes" and "parent < child" and "j < s"
  shows "parentLoop s levelEnd nodes child parent j =
    (let e = min levelEnd (child + (s - j)); left = levelEnd < child + (s - j) in
     Inr (nodes[parent := (nodes ! parent)
            \<lparr>ref_Box := foldl Expand (ref_Box (nodes ! parent)) (span nodes child e)\<rparr>],
          e, if left then parent else parent + 1, left))"
  using assms
proof (induction s levelEnd nodes child parent j rule: parentLoop.induct)
  case (1 s levelEnd nodes child parent j)
  let ?nodes = "nodes[parent := (nodes ! parent)
     \<lparr>ref_Box := Expand (ref_Box (nodes ! parent)) (ref_Box (nodes ! child))\<rparr>]"
  have inb: "\<not> (length nodes \<le> child \<or> length nodes \<le> parent)" using "1.prems" by simp
  show ?case
  proof (cases "j + 1 = s \<or> child + 1 = levelEnd")
    case True
    then have "min levelEnd (child + (s - j)) = child + 1" using "1.prems" by auto
    with True "1.prems" inb show ?thesis
      by (auto simp: parentLoop.simps [of s levelEnd nodes] Let_def span_def)
  next
    case False
    then have step: "parentLoop s levelEnd nodes child parent j
        = parentLoop s levelEnd ?nodes (child + 1) parent (j + 1)"
      using inb by (simp add: parentLoop.simps [of s levelEnd nodes])
    have e: "child + 1 + (s - (j + 1)) = child + (s - j)" "child < min levelEnd (child + (s - j))"
      using "1.prems" False by auto
    have IH: "parentLoop s levelEnd ?nodes (child + 1) parent (j + 1) =
       (let e = min levelEnd (child + 1 + (s - (j + 1))); left = levelEnd < child + 1 + (s - (j + 1)) in
        Inr (?nodes[parent := (?nodes ! parent)
            \<lparr>ref_Box := foldl Expand (ref_Box (?nodes ! parent)) (span ?nodes (child + 1) e)\<rparr>],
          e, if left then parent else parent + 1, left))"
      by (rule "1.IH" [OF inb refl]) (use False "1.prems" in auto)
    show ?thesis
      unfolding step IH e using inb "1.prems"(3) span_Cons [OF e(2), of nodes]
      by (simp add: Let_def span_update)
  qed
qed

text \<open>The parents from the \<open>k\<close>-th on, after the loop over one level of \<open>c\<close> nodes from \<open>st\<close>.\<close>

lemma levelLoop_result:
  assumes "2 \<le> s" and "st + c \<le> length nodes" and "ps + (c + s - 1) div s \<le> st"
  shows "\<exists>nodes'. levelLoop s (st + c) nodes (st + k * s) (ps + k) = Inr nodes'
    \<and> length nodes' = length nodes
    \<and> (\<forall>p. p < ps + k \<or> ps + (c + s - 1) div s \<le> p \<longrightarrow> nodes' ! p = nodes ! p)
    \<and> (\<forall>m. k \<le> m \<longrightarrow> m * s < c \<longrightarrow> nodes' ! (ps + m) =
         \<lparr>ref_Box = foldl Expand EmptyBox (span nodes (st + m * s) (min (st + c) (st + m * s + s))),
          ref_Offset = word_of_int (int (st + m * s))\<rparr>)"
  using assms(2)
proof (induction "c - k * s" arbitrary: k nodes rule: less_induct)
  case less
  have kc: "m < (c + s - 1) div s \<longleftrightarrow> m * s < c" for m
    using ceil_le_iff [of s c m] assms(1) by linarith
  show ?case
  proof (cases "k * s < c")
    case False
    then have "\<not> m * s < c" if "k \<le> m" for m
      using that mult_le_mono1 [of k m s] by linarith
    with False show ?thesis by (auto simp: levelLoop.simps)
  next
    case True
    define child where "child = st + k * s"
    define nodes1 where "nodes1 = nodes[ps + k := \<lparr>ref_Box = EmptyBox, ref_Offset = word_of_int (int child)\<rparr>]"
    define e where "e = min (st + c) (child + s)"
    define nodes2 where "nodes2 = nodes[ps + k := \<lparr>ref_Box = foldl Expand EmptyBox (span nodes child e),
        ref_Offset = word_of_int (int child)\<rparr>]"
    have k: "ps + k < st" using kc [of k] True assms(3) by linarith
    then have pk: "ps + k < child" "ps + k < length nodes" "child < st + c"
      using True less.prems by (auto simp: child_def)
    have set: "set_node nodes (ps + k) \<lparr>ref_Box = EmptyBox, ref_Offset = word_of_int (int child)\<rparr> = Inr nodes1"
      using pk by (simp add: set_node_def nodes1_def)
    have par: "parentLoop s (st + c) nodes1 child (ps + k) 0
        = Inr (nodes2, e, if st + c < child + s then ps + k else ps + k + 1, st + c < child + s)"
      using parentLoop_result [of child "st + c" nodes1 "ps + k" 0 s] pk less.prems assms(1)
      by (simp add: nodes1_def nodes2_def e_def Let_def span_update)
    have at_k: "nodes2 ! (ps + k) = \<lparr>ref_Box = foldl Expand EmptyBox (span nodes child e),
        ref_Offset = word_of_int (int child)\<rparr>"
      and off_k: "\<And>p. p \<noteq> ps + k \<Longrightarrow> nodes2 ! p = nodes ! p" "length nodes2 = length nodes"
      using pk by (auto simp: nodes2_def)
    show ?thesis
    proof (cases "st + c < child + s")
      case left: True
      then have res: "levelLoop s (st + c) nodes child (ps + k) = Inr nodes2"
        using pk set par by (simp add: levelLoop.simps [of s "st + c" nodes])
      have last: "m = k" if "k \<le> m" "m * s < c" for m
      proof (rule ccontr)
        assume "m \<noteq> k"
        then have "(k + 1) * s \<le> m * s" using that by (intro mult_le_mono1) simp
        with left that show False by (simp add: child_def)
      qed
      have "nodes2 ! p = nodes ! p" if "p < ps + k \<or> ps + (c + s - 1) div s \<le> p" for p
        using that kc [of k] True off_k(1) [of p] by auto
      with res at_k off_k(2) last show ?thesis
        unfolding child_def [symmetric] by (intro exI [of _ nodes2]) (auto simp: child_def e_def)
    next
      case False
      then have e: "e = st + (k + 1) * s" by (simp add: e_def child_def)
      have res: "levelLoop s (st + c) nodes child (ps + k)
          = levelLoop s (st + c) nodes2 (st + (k + 1) * s) (ps + (k + 1))"
        using pk set par False by (simp add: levelLoop.simps [of s "st + c" nodes] e)
      have dec: "c - (k + 1) * s < c - k * s" using True assms(1) by simp
      have sp: "span nodes2 (st + m * s) b = span nodes (st + m * s) b" for m b
        unfolding nodes2_def using k by (intro span_update) simp
      obtain nodes' where n': "levelLoop s (st + c) nodes2 (st + (k + 1) * s) (ps + (k + 1)) = Inr nodes'"
          "length nodes' = length nodes2"
          "\<And>p. p < ps + (k + 1) \<or> ps + (c + s - 1) div s \<le> p \<Longrightarrow> nodes' ! p = nodes2 ! p"
          "\<And>m. k + 1 \<le> m \<Longrightarrow> m * s < c \<Longrightarrow> nodes' ! (ps + m) =
             \<lparr>ref_Box = foldl Expand EmptyBox (span nodes (st + m * s) (min (st + c) (st + m * s + s))),
              ref_Offset = word_of_int (int (st + m * s))\<rparr>"
        using less.hyps [OF dec, of nodes2] less.prems off_k(2) unfolding sp by auto
      have "nodes' ! p = nodes ! p" if "p < ps + k \<or> ps + (c + s - 1) div s \<le> p" for p
        using n'(3) [of p] off_k(1) [of p] that kc [of k] True by auto
      moreover have "nodes' ! (ps + m) =
             \<lparr>ref_Box = foldl Expand EmptyBox (span nodes (st + m * s) (min (st + c) (st + m * s + s))),
              ref_Offset = word_of_int (int (st + m * s))\<rparr>" if "k \<le> m" "m * s < c" for m
        using that n'(3) [of "ps + k"] n'(4) [of m] at_k
        by (cases "m = k") (simp_all add: child_def e_def)
      ultimately show ?thesis
        unfolding child_def [symmetric] using res n'(1,2) off_k(2) by (intro exI [of _ nodes']) auto
    qed
  qed
qed

text \<open>
  The nodes of level \<open>i\<close> are as they should be: the \<open>k\<close>-th one contains every reference \<open>j\<close> with
  \<open>j div s ^ i = k\<close>, and above the leaves its offset is the index of its first child.
\<close>

definition level_ok :: "nat \<Rightarrow> nat \<Rightarrow> nat \<Rightarrow> Ref list \<Rightarrow> node list \<Rightarrow> nat \<Rightarrow> bool" where
  "level_ok n s h refs nodes i \<longleftrightarrow>
     (\<forall>k < cnt n s i. let b = nodes ! (start n s h i + k) in
        box_no_nan (ref_Box b)
        \<and> (\<forall>j < n. j div s ^ i = k \<longrightarrow> box_in (ref_Box (refs ! j)) (ref_Box b))
        \<and> (\<forall>i'. i = Suc i' \<longrightarrow> ref_Offset b = word_of_int (int (start n s h i' + k * s))))"

definition tree_ok :: "nat \<Rightarrow> nat \<Rightarrow> nat \<Rightarrow> Ref list \<Rightarrow> node list \<Rightarrow> bool" where
  "tree_ok n s h refs nodes \<longleftrightarrow>
     length refs = n \<and> length nodes = numNodes n s h
     \<and> (\<forall>j < n. nodes ! (start n s h 0 + j) = refs ! j)
     \<and> (\<forall>i \<le> h. level_ok n s h refs nodes i)"

lemma storeLeaves_result:
  "i + length refs \<le> length nodes \<Longrightarrow>
   storeLeaves i refs nodes = Inr (take i nodes @ refs @ drop (i + length refs) nodes)"
proof (induction refs arbitrary: i nodes)
  case (Cons r refs)
  have "storeLeaves i (r # refs) nodes = storeLeaves (i + 1) refs (nodes[i := r])"
    using Cons.prems by (simp add: set_node_def)
  also have "\<dots> = Inr (take (i + 1) (nodes[i := r]) @ refs @ drop (i + 1 + length refs) (nodes[i := r]))"
    using Cons.IH [of "i + 1" "nodes[i := r]"] Cons.prems by simp
  also have "take (i + 1) (nodes[i := r]) = take i nodes @ [r]"
    using Cons.prems by (simp add: take_Suc_conv_app_nth)
  finally show ?case by simp
qed simp

lemma level_ok_Suc:
  assumes s: "2 \<le> s" and i: "i < h" and ok: "level_ok n s h refs nodes i"
    and nodes': "\<And>m. m * s < cnt n s i \<Longrightarrow> nodes' ! (start n s h (Suc i) + m) =
      \<lparr>ref_Box = foldl Expand EmptyBox (span nodes (start n s h i + m * s)
          (min (start n s h i + cnt n s i) (start n s h i + m * s + s))),
       ref_Offset = word_of_int (int (start n s h i + m * s))\<rparr>"
  shows "level_ok n s h refs nodes' (Suc i)"
  unfolding level_ok_def Let_def
proof (intro allI impI)
  fix k
  assume k: "k < cnt n s (Suc i)"
  let ?st = "start n s h i" and ?e = "min (start n s h i + cnt n s i) (start n s h i + k * s + s)"
  have ks: "k * s < cnt n s i" using k s by (simp add: less_cnt_iff mult.assoc)
  define bs where "bs = span nodes (?st + k * s) ?e"
  have fin: "\<forall>c \<in> set bs. box_no_nan c"
  proof
    fix c
    assume "c \<in> set bs"
    then obtain p where p: "c = ref_Box (nodes ! p)" "?st + k * s \<le> p" "p < ?st + cnt n s i"
      by (auto simp: bs_def span_def)
    then have "c = ref_Box (nodes ! (?st + (p - ?st)))" "p - ?st < cnt n s i" by auto
    with ok show "box_no_nan c" by (auto simp: level_ok_def Let_def)
  qed
  have node: "nodes' ! (start n s h (Suc i) + k) = \<lparr>ref_Box = foldl Expand EmptyBox bs,
      ref_Offset = word_of_int (int (?st + k * s))\<rparr>"
    using nodes' [OF ks] by (simp add: bs_def)
  have "box_in (ref_Box (refs ! j)) (foldl Expand EmptyBox bs)" if j: "j < n" "j div s ^ Suc i = k" for j
  proof -
    let ?m = "j div s ^ i"
    have m: "?m div s = k" using j(2) by (simp add: div_mult2_eq [symmetric] mult.commute)
    have mc: "?m < cnt n s i"
    proof -
      have "?m * s ^ i < n" by (rule le_less_trans [OF _ j(1)]) simp
      then show ?thesis using s less_cnt_iff [of s ?m n i] by simp
    qed
    have "k * s \<le> ?m" "?m < k * s + s"
      using m s div_times_less_eq_dividend [of ?m s] dividend_less_div_times [of s ?m] by auto
    then have "ref_Box (nodes ! (?st + ?m)) \<in> set bs"
      using mc by (auto simp: bs_def span_def)
    then have "box_in (ref_Box (nodes ! (?st + ?m))) (foldl Expand EmptyBox bs)"
      using foldl_Expand_contains [OF box_no_nan_Empty fin] by simp
    moreover have "box_in (ref_Box (refs ! j)) (ref_Box (nodes ! (?st + ?m)))"
      using ok mc j(1) by (auto simp: level_ok_def Let_def)
    ultimately show ?thesis using box_in_trans by blast
  qed
  moreover have "box_no_nan (foldl Expand EmptyBox bs)"
    using foldl_Expand_finite [OF box_no_nan_Empty fin] by (simp add: box_in_def)
  ultimately show "box_no_nan (ref_Box (nodes' ! (start n s h (Suc i) + k)))
      \<and> (\<forall>j < n. j div s ^ Suc i = k \<longrightarrow>
           box_in (ref_Box (refs ! j)) (ref_Box (nodes' ! (start n s h (Suc i) + k))))
      \<and> (\<forall>i'. Suc i = Suc i' \<longrightarrow>
           ref_Offset (nodes' ! (start n s h (Suc i) + k)) = word_of_int (int (start n s h i' + k * s)))"
    by (simp add: node)
qed

lemma level_ok_cong:
  "(\<And>p. start n s h i \<le> p \<Longrightarrow> p < start n s h i + cnt n s i \<Longrightarrow> nodes' ! p = nodes ! p) \<Longrightarrow>
   level_ok n s h refs nodes i \<Longrightarrow> level_ok n s h refs nodes' i"
  by (simp add: level_ok_def)

lemma layout_nth [simp]: "i \<le> h \<Longrightarrow>
  layout n s h ! i = \<lparr>lr_start = start n s h i, lr_end = start n s h i + cnt n s i\<rparr>"
  by (simp add: layout_def del: upt_Suc)

lemma layout_length [simp]: "length (layout n s h) = Suc h"
  by (simp add: layout_def)

text \<open>The construction, level by level.\<close>

lemma buildLevels_upto:
  assumes s: "2 \<le> s" and len: "length nodes = numNodes n s h" and ok: "level_ok n s h refs nodes 0"
    and m: "m \<le> h"
  shows "\<exists>nodes'. foldE (\<lambda>i nodes. levelLoop s (lr_end (layout n s h ! i)) nodes
              (lr_start (layout n s h ! i)) (lr_start (layout n s h ! (i + 1)))) [0..<m] nodes = Inr nodes'
    \<and> length nodes' = numNodes n s h
    \<and> (\<forall>p. start n s h 0 \<le> p \<longrightarrow> nodes' ! p = nodes ! p)
    \<and> (\<forall>i \<le> m. level_ok n s h refs nodes' i)"
  using m
proof (induction m)
  case 0
  with len ok show ?case by simp
next
  case (Suc m)
  then obtain nodes1 where n1: "foldE (\<lambda>i nodes. levelLoop s (lr_end (layout n s h ! i)) nodes
              (lr_start (layout n s h ! i)) (lr_start (layout n s h ! (i + 1)))) [0..<m] nodes = Inr nodes1"
      "length nodes1 = numNodes n s h" "\<forall>p. start n s h 0 \<le> p \<longrightarrow> nodes1 ! p = nodes ! p"
      "\<forall>i \<le> m. level_ok n s h refs nodes1 i"
    by auto
  let ?st = "start n s h m" and ?c = "cnt n s m" and ?ps = "start n s h (Suc m)"
  have up: "(?c + s - 1) div s = cnt n s (Suc m)" using cnt_step [of s n m] s by simp
  have st: "?st = ?ps + cnt n s (Suc m)" using start_step [of m h n s] Suc.prems by simp
  have "?st + ?c \<le> length nodes1" using start_end [of m h n s] n1(2) Suc.prems by simp
  then obtain nodes2 where n2: "levelLoop s (?st + ?c) nodes1 ?st ?ps = Inr nodes2"
      "length nodes2 = length nodes1"
      "\<And>p. p < ?ps \<or> ?ps + cnt n s (Suc m) \<le> p \<Longrightarrow> nodes2 ! p = nodes1 ! p"
      "\<And>k. k * s < ?c \<Longrightarrow> nodes2 ! (?ps + k) =
         \<lparr>ref_Box = foldl Expand EmptyBox (span nodes1 (?st + k * s) (min (?st + ?c) (?st + k * s + s))),
          ref_Offset = word_of_int (int (?st + k * s))\<rparr>"
    using levelLoop_result [of s ?st ?c nodes1 ?ps 0] s st unfolding up by auto
  have same: "level_ok n s h refs nodes2 i" if "i \<le> m" for i
  proof (rule level_ok_cong)
    show "level_ok n s h refs nodes1 i" using n1(4) that by simp
    have "?st \<le> start n s h i" using start_mono [of i m h n s] that Suc.prems by simp
    then show "nodes2 ! p = nodes1 ! p" if "start n s h i \<le> p" for p
      using n2(3) [of p] that st by simp
  qed
  have "level_ok n s h refs nodes2 (Suc m)"
    by (rule level_ok_Suc [OF s _ _ n2(4)]) (use Suc.prems n1(4) in auto)
  moreover have "nodes2 ! p = nodes ! p" if "start n s h 0 \<le> p" for p
    using n2(3) [of p] n1(3) that st start_mono [of 0 m h n s] Suc.prems by simp
  ultimately show ?case
    using n1 n2(1,2) same Suc.prems by (auto simp: foldE_append le_Suc_eq)
qed

lemma Size_Inr:
  assumes "Size numRefs nodeSize = Inr sz"
  shows "\<exists>h. 1 \<le> numRefs \<and> 2 \<le> unat nodeSize \<and> is_height (nat numRefs) (unat nodeSize) h
    \<and> levelify (nat numRefs) (unat nodeSize) = Inr (layout (nat numRefs) (unat nodeSize) h)
    \<and> sz = int (numNodes (nat numRefs) (unat nodeSize) h) * 40
    \<and> sz \<le> MaxInt"
proof -
  let ?n = "nat numRefs" and ?s = "unat nodeSize"
  have n: "1 \<le> numRefs" "\<not> nodeSize < 2" "size_bytes ?n ?s = Inr sz"
    using assms by (auto simp: Size_def validateParams_def split: if_splits)
  then have s: "2 \<le> ?s" "1 \<le> ?n" by (simp_all add: word_less_nat_alt)
  obtain h where h: "is_height ?n ?s h" "levelCounts ?n ?s = Some (map (cnt ?n ?s) [1..<Suc h])"
    using levelCounts_cnt [OF s(2,1)] by blast
  note sz = size_bytes_iff [OF s(2,1) h(2) n(3)]
  have "levelify ?n ?s = Inr (layout ?n ?s h)"
    by (rule levelify_layout [OF s(2,1) h(2)]) (use sz(1) in linarith)
  with n s h(1) sz show ?thesis by auto
qed

lemma New_tree:
  assumes "Size (int (length refs)) nodeSize = Inr sz"
    and fin: "\<forall>r \<in> set refs. box_no_nan (ref_Box r)"
  shows "\<exists>prt h. New refs nodeSize = Inr prt
    \<and> is_height (length refs) (unat nodeSize) h \<and> 2 \<le> unat nodeSize
    \<and> sz = int (numNodes (length refs) (unat nodeSize) h) * 40 \<and> sz \<le> MaxInt
    \<and> levelify (length refs) (unat nodeSize) = Inr (layout (length refs) (unat nodeSize) h)
    \<and> prt_levels prt = layout (length refs) (unat nodeSize) h
    \<and> prt_nodeSize prt = int (unat nodeSize) \<and> prt_numRefs prt = int (length refs)
    \<and> tree_ok (length refs) (unat nodeSize) h refs (prt_nodes prt)
    \<and> prt_push prt = stackPush \<and> prt_pop prt = stackPop \<and> prt_fetch prt = None"
proof -
  let ?n = "length refs" and ?s = "unat nodeSize"
  obtain h where h: "2 \<le> ?s" "is_height ?n ?s h" "levelify ?n ?s = Inr (layout ?n ?s h)"
      "sz = int (numNodes ?n ?s h) * 40" "sz \<le> MaxInt"
    using Size_Inr [OF assms(1)] by auto
  define zero where "zero = replicate (numNodes ?n ?s h) zero_node"
  define nodes where "nodes = take (start ?n ?s h 0) zero @ refs"
  have len: "length nodes = numNodes ?n ?s h" by (simp add: nodes_def zero_def numNodes_def)
  have store: "storeLeaves (start ?n ?s h 0) refs zero = Inr nodes"
    using storeLeaves_result [of "start ?n ?s h 0" refs zero] by (simp add: zero_def nodes_def numNodes_def)
  have leaf: "nodes ! (start ?n ?s h 0 + j) = refs ! j" if "j < ?n" for j
    using that by (simp add: nodes_def zero_def numNodes_def nth_append)
  have ok0: "level_ok ?n ?s h refs nodes 0"
    using fin leaf by (simp add: level_ok_def box_in_refl)
  obtain nodes' where n': "buildLevels ?s (layout ?n ?s h) nodes = Inr nodes'"
      "length nodes' = numNodes ?n ?s h" "\<forall>p. start ?n ?s h 0 \<le> p \<longrightarrow> nodes' ! p = nodes ! p"
      "\<forall>i \<le> h. level_ok ?n ?s h refs nodes' i"
    using buildLevels_upto [OF h(1) len ok0, of h] by (auto simp: buildLevels_def)
  then have "tree_ok ?n ?s h refs nodes'" using leaf by (simp add: tree_ok_def)
  moreover have "noo (int ?n) nodeSize stackPush stackPop (None :: unit fetchFunc option)
      = Inr \<lparr>prt_numRefs = int ?n, prt_nodeSize = int ?s, prt_levels = layout ?n ?s h,
          prt_nodes = zero, prt_push = stackPush, prt_pop = stackPop, prt_fetch = None\<rparr>"
    using h(3) by (simp add: noo_def zero_def numNodes_def)
  ultimately show ?thesis
    using h n'(1) assms(1) store by (auto simp: New_def)
qed

end
