(* ===== verification/Packed_RTree_Search.thy ===== *)
theory Packed_RTree_Search
  imports Packed_RTree_Build
begin

text \<open>
  Search in a packed R-tree.  What the loop relies on is stated as two interfaces, a bag of
  tickets and a source of nodes; over them it is shown that the search ends and returns
  exactly the references whose box intersects the query.
\<close>

section \<open>Interfaces of the search\<close>

text \<open>
  A bag of tickets: what \<open>search\<close> relies on is that \<open>push\<close> adds one ticket and that \<open>pop\<close> takes
  one out of a bag that is not empty, whichever.
\<close>

locale ticket_bag =
  fixes push :: pushFunc and pop :: popFunc
  assumes mset_push: "mset (push q t) = add_mset t (mset q)"
    and pop_nonempty: "q \<noteq> [] \<Longrightarrow> \<exists>t q'. pop q = Inr (t, q') \<and> mset q = add_mset t (mset q')"

text \<open>
  A source of nodes: loading the nodes from \<open>i\<close> to \<open>j - 1\<close> makes them those of the tree \<open>full\<close>,
  and keeps the relation \<open>R\<close> between the state of the source and the node array.
\<close>

locale node_source =
  fixes load :: "'st \<Rightarrow> int \<Rightarrow> int \<Rightarrow> node list \<Rightarrow> prt_error + ('st \<times> node list)"
    and R :: "'st \<Rightarrow> node list \<Rightarrow> bool" and full :: "node list"
  assumes load_ok: "R st nodes \<Longrightarrow> 0 \<le> i \<Longrightarrow> i < j \<Longrightarrow> j \<le> int (length full) \<Longrightarrow>
    \<exists>st' nodes'. load st i j nodes = Inr (st', nodes') \<and> R st' nodes' \<and> length nodes' = length full
      \<and> (\<forall>p. i \<le> p \<longrightarrow> p < j \<longrightarrow> nodes' ! nat p = full ! nat p)"

interpretation stack: ticket_bag stackPush stackPop
proof
  fix q :: ticketBag and t
  show "mset (stackPush q t) = add_mset t (mset q)" by (simp add: stackPush_def)
  assume "q \<noteq> []"
  then obtain q' t' where "q = q' @ [t']" by (metis rev_exhaust)
  then show "\<exists>t q'. stackPop q = Inr (t, q') \<and> mset q = add_mset t (mset q')"
    by (simp add: stackPop_def)
qed

lemma mset_ticket_Swap [simp]:
  "i < length h \<Longrightarrow> j < length h \<Longrightarrow> mset (ticket_Swap h i j) = mset h"
  by (simp add: ticket_Swap_def mset_swap)

lemma length_ticket_Swap [simp]: "length (ticket_Swap h i j) = length h"
  by (simp add: ticket_Swap_def)

lemma mset_heap_up: "j < length h \<Longrightarrow> mset (heap_up h j) = mset h"
proof (induction h j rule: heap_up.induct)
  case (1 h j)
  let ?i = "(j - 1) div 2"
  have i: "?i < length h" using "1.prems" by linarith
  show ?case
  proof (cases "?i = j \<or> \<not> ticket_Less h j ?i")
    case False
    with "1.IH" [OF refl False] i "1.prems" show ?thesis by (simp add: heap_up.simps [of h j] Let_def)
  qed (simp add: heap_up.simps [of h j] Let_def)
qed

lemma heap_child_bounds: "2 * i + 1 < n \<Longrightarrow> i < heap_child h i n \<and> heap_child h i n < n"
  by (auto simp: heap_child_def Let_def)

lemma heap_down_perm:
  "n \<le> length h \<Longrightarrow> mset (heap_down h i n) = mset h \<and> length (heap_down h i n) = length h
     \<and> (\<forall>p. n \<le> p \<longrightarrow> heap_down h i n ! p = h ! p)"
proof (induction h i n rule: heap_down.induct)
  case (1 h i n)
  let ?c = "heap_child h i n"
  show ?case
  proof (cases "n \<le> 2 * i + 1 \<or> \<not> ticket_Less h ?c i")
    case True
    then show ?thesis by (auto simp: heap_down.simps [of h i n])
  next
    case False
    then have c: "i < ?c" "?c < n" using heap_child_bounds [of i n h] by auto
    have "heap_down h i n = heap_down (ticket_Swap h i ?c) ?c n"
      using False by (simp add: heap_down.simps [of h i n])
    with "1.IH" False c "1.prems" show ?thesis by (auto simp: ticket_Swap_def mset_swap)
  qed
qed

interpretation heap: ticket_bag heapPush heapPop
proof
  fix q :: ticketBag and t
  show "mset (heapPush q t) = add_mset t (mset q)"
    by (simp add: heapPush_def stackPush_def Let_def mset_heap_up)
  assume q: "q \<noteq> []"
  let ?d = "heap_down (ticket_Swap q 0 (length q - 1)) 0 (length q - 1)"
  have "mset ?d = mset q" "?d \<noteq> []"
    using heap_down_perm [of "length q - 1" "ticket_Swap q 0 (length q - 1)" 0] q
    by (auto simp flip: length_greater_0_conv)
  with stack.pop_nonempty [of ?d] q show "\<exists>t q'. heapPop q = Inr (t, q') \<and> mset q = add_mset t (mset q')"
    by (simp add: heapPop_def Let_def)
qed

interpretation mem: node_source "\<lambda>st i j nodes. Inr (st, nodes)" "\<lambda>st nodes. nodes = full" full
  for full :: "node list"
  by unfold_locales auto

section \<open>Search is exact\<close>

definition result_of :: "Ref list \<Rightarrow> nat \<Rightarrow> Result" where
  "result_of refs j = \<lparr>res_Offset = ref_Offset (refs ! j), res_RefIndex = int j\<rparr>"

text \<open>The results for those references among \<open>js\<close> whose box intersects the query.\<close>

definition hits :: "Ref list \<Rightarrow> Box \<Rightarrow> nat list \<Rightarrow> Results" where
  "hits refs b js = map (result_of refs) (filter (\<lambda>j. intersects b (ref_Box (refs ! j))) js)"

lemma hits_simps [simp]:
  "hits refs b [] = []"
  "hits refs b (xs @ ys) = hits refs b xs @ hits refs b ys"
  by (simp_all add: hits_def)

text \<open>A ticket for the \<open>k\<close>-th group of nodes of level \<open>i\<close>, and the results it stands for.\<close>

definition ticket_for :: "nat \<Rightarrow> nat \<Rightarrow> nat \<Rightarrow> nat \<Rightarrow> nat \<Rightarrow> ticket" where
  "ticket_for n s h i k = \<lparr>nodeIndex = int (start n s h i + k * s), tk_level = int i\<rparr>"

definition ticket_ok :: "nat \<Rightarrow> nat \<Rightarrow> nat \<Rightarrow> ticket \<Rightarrow> bool" where
  "ticket_ok n s h t \<longleftrightarrow> (\<exists>i k. i \<le> h \<and> k * s < cnt n s i \<and> t = ticket_for n s h i k)"

definition under :: "nat \<Rightarrow> nat \<Rightarrow> nat \<Rightarrow> nat \<Rightarrow> nat list" where
  "under n s i k = filter (\<lambda>j. j div s ^ i = k) [0..<n]"

definition owed :: "nat \<Rightarrow> nat \<Rightarrow> nat \<Rightarrow> Ref list \<Rightarrow> Box \<Rightarrow> ticket \<Rightarrow> Result multiset" where
  "owed n s h refs b t =
     (let i = nat (tk_level t); k = (nat (nodeIndex t) - start n s h i) div s in
      mset (hits refs b (under n s (Suc i) k)))"

lemma owed_ticket_for:
  "0 < s \<Longrightarrow> owed n s h refs b (ticket_for n s h i k) = mset (hits refs b (under n s (Suc i) k))"
  unfolding owed_def ticket_for_def Let_def ticket.simps nat_int by simp

lemma mset_filter_partition:
  assumes "distinct ms"
  shows "mset (filter (\<lambda>j. P j \<and> g j \<in> set ms) xs) = (\<Sum>m\<leftarrow>ms. mset (filter (\<lambda>j. P j \<and> g j = m) xs))"
  using assms
proof (induction ms)
  case (Cons m ms)
  have "mset (filter (\<lambda>j. P j \<and> g j \<in> set (m # ms)) xs)
      = mset (filter (\<lambda>j. P j \<and> g j = m) xs) + mset (filter (\<lambda>j. P j \<and> g j \<in> set ms) xs)"
    using Cons.prems by (induction xs) auto
  with Cons show ?case by simp
qed simp

lemma hits_under:
  "hits refs b (under n s i k)
     = map (result_of refs) (filter (\<lambda>j. intersects b (ref_Box (refs ! j)) \<and> j div s ^ i = k) [0..<n])"
  by (simp add: hits_def under_def conj_commute)

lemma div_eq_iff_range:
  assumes "0 < (s :: nat)"
  shows "m div s = k \<longleftrightarrow> k * s \<le> m \<and> m < k * s + s"
proof
  assume "m div s = k"
  then show "k * s \<le> m \<and> m < k * s + s"
    using div_times_less_eq_dividend [of m s] dividend_less_div_times [OF assms, of m]
    by (simp add: add.commute)
next
  assume "k * s \<le> m \<and> m < k * s + s"
  then show "m div s = k" by (intro div_nat_eqI) (simp_all add: mult.commute)
qed

text \<open>The references under a group of nodes are those under its members.\<close>

lemma under_group:
  assumes "2 \<le> s" and "j < n"
  shows "j div s ^ Suc i = k \<longleftrightarrow> j div s ^ i \<in> set [k * s..<min (cnt n s i) (k * s + s)]"
proof -
  have "j div s ^ i * s ^ i < n" by (rule le_less_trans [OF _ assms(2)]) simp
  then have "j div s ^ i < cnt n s i" using less_cnt_iff [of s "j div s ^ i" n i] assms(1) by simp
  moreover have "j div s ^ Suc i = (j div s ^ i) div s"
    by (simp add: div_mult2_eq [symmetric] mult.commute)
  moreover have "(j div s ^ i) div s = k \<longleftrightarrow> k * s \<le> j div s ^ i \<and> j div s ^ i < k * s + s"
    by (rule div_eq_iff_range) (use assms(1) in simp)
  ultimately show ?thesis by (simp del: power_Suc)
qed

lemma image_mset_sum_list: "image_mset f (\<Sum>m\<leftarrow>ms. g m) = (\<Sum>m\<leftarrow>ms. image_mset f (g m))"
  by (induction ms) auto

lemma under_split:
  assumes "2 \<le> s"
  shows "mset (hits refs b (under n s (Suc i) k))
    = (\<Sum>m \<leftarrow> [k * s..<min (cnt n s i) (k * s + s)]. mset (hits refs b (under n s i m)))"
proof -
  let ?ms = "[k * s..<min (cnt n s i) (k * s + s)]"
  let ?P = "\<lambda>j. intersects b (ref_Box (refs ! j))"
  have "filter (\<lambda>j. ?P j \<and> j div s ^ Suc i = k) [0..<n] = filter (\<lambda>j. ?P j \<and> j div s ^ i \<in> set ?ms) [0..<n]"
  proof (rule filter_cong [OF refl])
    fix j
    assume "j \<in> set [0..<n]"
    then have "j < n" by simp
    from under_group [OF assms this, of i k]
    show "(?P j \<and> j div s ^ Suc i = k) = (?P j \<and> j div s ^ i \<in> set ?ms)" by (simp only:)
  qed
  then show ?thesis
    by (simp only: hits_under mset_map mset_filter_partition [OF distinct_upt] image_mset_sum_list)
qed

text \<open>The loop over the nodes of a ticket, for leaves and for internal nodes.\<close>

definition child_ticket :: "int \<Rightarrow> node \<Rightarrow> ticket" where
  "child_ticket level n = \<lparr>nodeIndex = sint (ref_Offset n), tk_level = level - 1\<rparr>"

lemma visit_leaves:
  "\<forall>p \<in> set ps. p < length nodes \<Longrightarrow>
   foldE (visit prt b True level nodes) (map int ps) (q, r) =
     Inr (q, r @ map (\<lambda>p. \<lparr>res_Offset = ref_Offset (nodes ! p),
                           res_RefIndex = int p - int (lr_start (prt_levels prt ! 0))\<rparr>)
               (filter (\<lambda>p. intersects b (ref_Box (nodes ! p))) ps))"
  by (induction ps arbitrary: r) (auto simp: visit_def)

lemma visit_inner:
  "\<forall>p \<in> set ps. p < length nodes \<Longrightarrow>
   foldE (visit prt b False level nodes) (map int ps) (q, r) =
     Inr (fold (\<lambda>p q. prt_push prt q (child_ticket level (nodes ! p)))
            (filter (\<lambda>p. intersects b (ref_Box (nodes ! p))) ps) q, r)"
  by (induction ps arbitrary: q) (auto simp: visit_def child_ticket_def)

lemma visits_cong:
  assumes "length nodes = length nodes'" and "\<forall>p \<in> set ps. nodes ! p = nodes' ! p"
  shows "foldE (visit prt b leaf level nodes) (map int ps) = foldE (visit prt b leaf level nodes') (map int ps)"
proof
  fix qr
  show "foldE (visit prt b leaf level nodes) (map int ps) qr
      = foldE (visit prt b leaf level nodes') (map int ps) qr"
    using assms(2)
  proof (induction ps arbitrary: qr)
    case (Cons p ps)
    have "visit prt b leaf level nodes (int p) qr = visit prt b leaf level nodes' (int p) qr"
      using Cons.prems assms(1) by (cases qr) (simp add: visit_def)
    with Cons show ?case by (cases "visit prt b leaf level nodes' (int p) qr") auto
  qed simp
qed

lemma map_int_upt: "map int [a..<b] = [int a..int b - 1]"
  by (induction b) (auto simp: upto_rec2)

text \<open>The weight of a bag, which each round of the search decreases.\<close>

definition weight :: "nat \<Rightarrow> ticketBag \<Rightarrow> nat" where
  "weight s q = (\<Sum>t \<in># mset q. (s + 1) ^ nat (tk_level t))"

definition owed_bag :: "nat \<Rightarrow> nat \<Rightarrow> nat \<Rightarrow> Ref list \<Rightarrow> Box \<Rightarrow> ticketBag \<Rightarrow> Result multiset" where
  "owed_bag n s h refs b q = (\<Sum>t \<in># mset q. owed n s h refs b t)"

context ticket_bag
begin

lemma mset_fold_push: "mset (fold (\<lambda>p q. push q (f p)) ps q) = mset q + mset (map f ps)"
  by (induction ps arbitrary: q) (auto simp: mset_push)

end

text \<open>A query over a tree: the arguments that the lemmas about one round share.\<close>

definition query_ok ::
  "nat \<Rightarrow> nat \<Rightarrow> nat \<Rightarrow> Ref list \<Rightarrow> node list \<Rightarrow> 'st packedRTree \<Rightarrow> bool" where
  "query_ok n s h refs full prt \<longleftrightarrow>
     2 \<le> s \<and> is_height n s h \<and> tree_ok n s h refs full
     \<and> int (numNodes n s h) * 40 \<le> MaxInt
     \<and> prt_levels prt = layout n s h \<and> prt_nodeSize prt = int s"

text \<open>The group of nodes that a ticket names, and its range of positions.\<close>

lemma group_range:
  assumes "k * s < cnt n s i" and "i \<le> h"
  shows "(let end1 = int (start n s h i + k * s) + int s;
              lend = int (start n s h i + cnt n s i)
          in if lend < end1 then lend else end1)
       = int (start n s h i + min (cnt n s i) (k * s + s))"
  unfolding Let_def of_nat_add [symmetric] of_nat_less_iff min_def by (simp add: add.assoc)

lemma inner_before_leaves:
  "k * s < cnt n s (Suc i) \<Longrightarrow> Suc i \<le> h \<Longrightarrow> start n s h (Suc i) + k * s < start n s h 0"
  using start_step [of i h n s] start_mono [of 0 i h n s] by simp

lemma group_positions:
  "map int (map ((+) a) [x..<y]) = [int (a + x)..int (a + y) - 1]"
proof -
  have "map ((+) a) [x..<y] = [a + x..<a + y]" by (induction y) auto
  then show ?thesis by (simp only: map_int_upt)
qed

lemma tree_ok_box_in:
  assumes "tree_ok n s h refs full" and "i \<le> h" and "j < n" and "j div s ^ i < cnt n s i"
  shows "box_in (ref_Box (refs ! j)) (ref_Box (full ! (start n s h i + j div s ^ i)))"
proof -
  have "level_ok n s h refs full i" using assms(1,2) by (simp add: tree_ok_def)
  then show ?thesis using assms(3,4) by (simp add: level_ok_def Let_def)
qed

text \<open>A node that does not intersect the query has no hit below it.\<close>

lemma no_hit_below:
  assumes "tree_ok n s h refs full" and "i \<le> h" and "m < cnt n s i"
    and "\<not> intersects b (ref_Box (full ! (start n s h i + m)))"
  shows "hits refs b (under n s i m) = []"
proof -
  have "\<not> intersects b (ref_Box (refs ! j))" if "j < n" "j div s ^ i = m" for j
    using assms(3,4) tree_ok_box_in [OF assms(1,2) that(1)] that(2) intersects_mono by blast
  then show ?thesis by (auto simp: hits_under filter_empty_conv)
qed

lemma sum_list_filter_zero:
  "(\<And>m. m \<in> set ms \<Longrightarrow> \<not> P m \<Longrightarrow> f m = (0 :: 'a :: comm_monoid_add)) \<Longrightarrow>
   (\<Sum>m\<leftarrow>filter P ms. f m) = (\<Sum>m\<leftarrow>ms. f m)"
  by (induction ms) auto

lemma sint_of_small: "0 \<le> k \<Longrightarrow> k < 2 ^ 63 \<Longrightarrow> sint (word_of_int k :: 64 word) = k"
  by (simp add: int_word_sint)

text \<open>The child tickets of the nodes of a group.\<close>

lemma child_ticket_for:
  assumes "query_ok n s h refs full prt" and "Suc i \<le> h" and "m < cnt n s (Suc i)"
  shows "child_ticket (int (Suc i)) (full ! (start n s h (Suc i) + m)) = ticket_for n s h i m"
    and "ticket_ok n s h (ticket_for n s h i m)"
proof -
  have ok: "2 \<le> s" "tree_ok n s h refs full" "int (numNodes n s h) * 40 \<le> MaxInt"
    using assms(1) by (auto simp: query_ok_def)
  have ms: "m * s < cnt n s i" using assms(3) ok(1) by (simp add: less_cnt_iff mult.assoc)
  then show "ticket_ok n s h (ticket_for n s h i m)" using assms(2)
    unfolding ticket_ok_def by (intro exI [of _ i] exI [of _ m]) simp
  have "start n s h i + m * s < numNodes n s h"
    using start_end [of i h n s] ms assms(2) by simp
  then have "sint (word_of_int (int (start n s h i + m * s)) :: 64 word) = int (start n s h i + m * s)"
    using ok(3) by (intro sint_of_small) linarith+
  moreover have "ref_Offset (full ! (start n s h (Suc i) + m)) = word_of_int (int (start n s h i + m * s))"
  proof -
    have "level_ok n s h refs full (Suc i)" using ok(2) assms(2) by (simp add: tree_ok_def)
    then show ?thesis using assms(3) by (simp add: level_ok_def Let_def)
  qed
  ultimately show "child_ticket (int (Suc i)) (full ! (start n s h (Suc i) + m)) = ticket_for n s h i m"
    by (simp only: child_ticket_def ticket_for_def) simp
qed


lemma searchStep_eq:
  assumes "prt_pop prt q = Inr (t, q1)" and "0 \<le> tk_level t" and "tk_level t < int (length (prt_levels prt))"
    and "(if int (lr_end (prt_levels prt ! nat (tk_level t))) < nodeIndex t + prt_nodeSize prt
          then int (lr_end (prt_levels prt ! nat (tk_level t)))
          else nodeIndex t + prt_nodeSize prt) = e"
    and "(case prt_fetch prt of None \<Rightarrow> Inr (st, nodes)
          | Some fetch \<Rightarrow> fetch st (nodeIndex t) e nodes) = Inr (st1, nodes1)"
  shows "searchStep prt b (st, nodes, q, r) =
    bindE (foldE (visit prt b (nodeIndex t \<ge> int (lr_start (prt_levels prt ! 0))) (tk_level t) nodes1)
             [nodeIndex t..e - 1] (q1, r)) (\<lambda>(q2, r2). Inr (st1, nodes1, q2, r2))"
proof -
  have range: "\<not> (tk_level t < 0 \<or> int (length (prt_levels prt)) \<le> tk_level t)" using assms(2,3) by simp
  show ?thesis
    unfolding searchStep_def prod.case assms(1) bindE_simps if_not_P [OF range] Let_def assms(4,5) ..
qed

text \<open>The tree uses these operations on its bag and this source of nodes.\<close>

definition engine_runs ::
  "pushFunc \<Rightarrow> popFunc \<Rightarrow> 'st fetchFunc \<Rightarrow> node list \<Rightarrow> nat \<Rightarrow> nat \<Rightarrow> nat \<Rightarrow> Ref list
     \<Rightarrow> 'st packedRTree \<Rightarrow> bool" where
  "engine_runs push pop load full n s h refs prt \<longleftrightarrow>
     query_ok n s h refs full prt \<and> prt_push prt = push \<and> prt_pop prt = pop
     \<and> (case prt_fetch prt of None \<Rightarrow> (\<lambda>st i j nodes. Inr (st, nodes)) | Some f \<Rightarrow> f) = load"

text \<open>The search engine over its two interfaces.\<close>

locale prt_engine = ticket_bag push pop + node_source load R full
  for push :: pushFunc and pop :: popFunc
    and load :: "'st \<Rightarrow> int \<Rightarrow> int \<Rightarrow> node list \<Rightarrow> prt_error + ('st \<times> node list)"
    and R :: "'st \<Rightarrow> node list \<Rightarrow> bool" and full :: "node list"
begin

abbreviation "runs \<equiv> engine_runs push pop load full"

text \<open>One round, on the ticket that is popped: the loop over its nodes sees those of the tree.\<close>

lemma load_nat:
  assumes "R st nodes" and "x < y" and "y \<le> length full"
  shows "\<exists>st' nodes'. load st (int x) (int y) nodes = Inr (st', nodes') \<and> R st' nodes'
    \<and> length nodes' = length full \<and> (\<forall>p. x \<le> p \<longrightarrow> p < y \<longrightarrow> nodes' ! p = full ! p)"
proof -
  obtain st' nodes' where "load st (int x) (int y) nodes = Inr (st', nodes')" "R st' nodes'"
      "length nodes' = length full"
      and p: "\<forall>p. int x \<le> p \<longrightarrow> p < int y \<longrightarrow> nodes' ! nat p = full ! nat p"
    using load_ok [OF assms(1), of "int x" "int y"] assms(2,3) by auto
  moreover have "nodes' ! p = full ! p" if "x \<le> p" "p < y" for p
    using p [rule_format, of "int p"] that by simp
  ultimately show ?thesis by blast
qed

lemma round:
  assumes run: "runs n s h refs prt" and R: "R st nodes"
    and q: "pop q = Inr (ticket_for n s h i k, q1)" and k: "k * s < cnt n s i" and i: "i \<le> h"
  shows "\<exists>st' nodes'. R st' nodes' \<and> searchStep prt b (st, nodes, q, r) =
      bindE (foldE (visit prt b (start n s h 0 \<le> start n s h i + k * s) (int i) full)
               (map int [start n s h i + k * s..<start n s h i + min (cnt n s i) (k * s + s)]) (q1, r))
        (\<lambda>(q2, r2). Inr (st', nodes', q2, r2))"
proof -
  define x where "x = start n s h i + k * s"
  define y where "y = start n s h i + min (cnt n s i) (k * s + s)"
  have Q: "2 \<le> s" "tree_ok n s h refs full" "prt_levels prt = layout n s h" "prt_nodeSize prt = int s"
    and P: "prt_push prt = push" "prt_pop prt = pop"
      "(case prt_fetch prt of None \<Rightarrow> (\<lambda>st i j nodes. Inr (st, nodes)) | Some f \<Rightarrow> f) = load"
    using run by (auto simp: engine_runs_def query_ok_def)
  have xy: "x < y" "y \<le> length full"
    using k Q(1,2) start_end [OF i, of n s] by (auto simp: x_def y_def tree_ok_def)
  obtain st' nodes' where ld: "load st (int x) (int y) nodes = Inr (st', nodes')" "R st' nodes'"
      "length nodes' = length full" "\<forall>p. x \<le> p \<longrightarrow> p < y \<longrightarrow> nodes' ! p = full ! p"
    using load_nat [OF R xy] by blast
  have t: "nodeIndex (ticket_for n s h i k) = int x" "tk_level (ticket_for n s h i k) = int i"
    by (simp_all add: ticket_for_def x_def)
  have end2: "(if int (lr_end (prt_levels prt ! nat (tk_level (ticket_for n s h i k))))
        < nodeIndex (ticket_for n s h i k) + prt_nodeSize prt
      then int (lr_end (prt_levels prt ! nat (tk_level (ticket_for n s h i k))))
      else nodeIndex (ticket_for n s h i k) + prt_nodeSize prt) = int y"
    using group_range [OF k i] i
    by (simp only: t Q(3,4) nat_int layout_nth levelRange.simps Let_def x_def y_def)
  have fetch: "(case prt_fetch prt of None \<Rightarrow> Inr (st, nodes)
      | Some fetch \<Rightarrow> fetch st (nodeIndex (ticket_for n s h i k)) (int y) nodes) = Inr (st', nodes')"
    using ld(1) P(3) by (cases "prt_fetch prt") (auto simp: t)
  have vis: "foldE (visit prt b lf (int i) nodes') (map int [x..<y]) = foldE (visit prt b lf (int i) full) (map int [x..<y])"
    for lf
    by (rule visits_cong) (use ld(3,4) in auto)
  have "searchStep prt b (st, nodes, q, r) =
      bindE (foldE (visit prt b (start n s h 0 \<le> x) (int i) full) (map int [x..<y]) (q1, r))
        (\<lambda>(q2, r2). Inr (st', nodes', q2, r2))"
    using searchStep_eq [OF q [folded P(2)] _ _ end2 fetch, of b r] i
    by (simp add: t Q(3) map_int_upt [symmetric] vis)
  with ld(2) show ?thesis unfolding x_def y_def by blast
qed

end

lemma hits_conv:
  "hits refs b js = map (\<lambda>j. \<lparr>res_Offset = ref_Offset (refs ! j), res_RefIndex = int j\<rparr>)
     (filter (\<lambda>j. intersects b (ref_Box (refs ! j))) js)"
  by (simp add: hits_def result_of_def [abs_def])

lemma upt_shift: "[a + x..<a + y] = map ((+) a) [x..<y]"
  by (induction y) auto

lemma under_leaf_group:
  assumes "2 \<le> s"
  shows "under n s 1 k = [k * s..<min n (k * s + s)]"
proof -
  have "under n s 1 k = filter (\<lambda>j. k * s \<le> j \<and> j < k * s + s) [0..<n]"
    unfolding under_def using assms by (intro filter_cong [OF refl]) (simp add: div_eq_iff_range)
  also have "\<dots> = [k * s..<min n (k * s + s)]"
  proof (induction n)
    case (Suc n)
    show ?case
    proof (cases "n < k * s + s")
      case True
      with Suc show ?thesis by (auto simp: min_def)
    next
      case False
      with Suc show ?thesis by (auto simp: min_def not_less)
    qed
  qed simp
  finally show ?thesis .
qed

lemma foldE_visit_leaves:
  assumes "tree_ok n s h refs full" and "prt_levels prt = layout n s h" and "y \<le> n"
  shows "foldE (visit prt b True level full) (map int [start n s h 0 + x..<start n s h 0 + y]) (q, r)
     = Inr (q, r @ hits refs b [x..<y])"
proof -
  let ?a = "start n s h 0"
  have leaf: "full ! (?a + j) = refs ! j" if "j < n" for j using assms(1) that by (simp add: tree_ok_def)
  have "\<forall>p \<in> set [?a + x..<?a + y]. p < length full"
    using assms(1,3) by (auto simp: tree_ok_def numNodes_def)
  from visit_leaves [OF this, of prt b level q r] show ?thesis
    using assms(2,3) leaf
    by (auto simp: upt_shift hits_conv filter_map comp_def intro!: map_cong filter_cong)
qed

context prt_engine
begin

lemma round_leaves:
  assumes run: "runs n s h refs prt" and R: "R st nodes"
    and q: "pop q = Inr (ticket_for n s h 0 k, q1)" and k: "k * s < n"
  shows "\<exists>st' nodes'. R st' nodes' \<and> searchStep prt b (st, nodes, q, r)
      = Inr (st', nodes', q1, r @ hits refs b (under n s 1 k))"
proof -
  have Q: "2 \<le> s" "tree_ok n s h refs full" "prt_levels prt = layout n s h"
    using run by (auto simp: engine_runs_def query_ok_def)
  obtain st' nodes' where "R st' nodes'" and step: "searchStep prt b (st, nodes, q, r) =
      bindE (foldE (visit prt b True (int 0) full)
               (map int [start n s h 0 + k * s..<start n s h 0 + min n (k * s + s)]) (q1, r))
        (\<lambda>(q2, r2). Inr (st', nodes', q2, r2))"
    using round [OF run R q, of b r] k by auto
  then show ?thesis
    using foldE_visit_leaves [OF Q(2,3), of "min n (k * s + s)" b "int 0" "k * s" q1 r]
    by (auto simp: under_leaf_group [OF Q(1)] simp del: of_nat_0 One_nat_def)
qed

lemma round_inner:
  assumes run: "runs n s h refs prt" and R: "R st nodes"
    and q: "pop q = Inr (ticket_for n s h (Suc i) k, q1)"
    and k: "k * s < cnt n s (Suc i)" and i: "Suc i \<le> h"
  shows "\<exists>st' nodes' q2 ms. R st' nodes' \<and> searchStep prt b (st, nodes, q, r) = Inr (st', nodes', q2, r)
    \<and> ms = filter (\<lambda>m. intersects b (ref_Box (full ! (start n s h (Suc i) + m))))
              [k * s..<min (cnt n s (Suc i)) (k * s + s)]
    \<and> mset q2 = mset q1 + mset (map (ticket_for n s h i) ms)
    \<and> (\<exists>(f :: nat \<Rightarrow> ticket) ps. q2 = fold (\<lambda>p q. push q (f p)) ps q1)"
proof -
  let ?a = "start n s h (Suc i)" and ?e = "min (cnt n s (Suc i)) (k * s + s)"
  let ?hit = "\<lambda>p. intersects b (ref_Box (full ! p))"
  have Q: "query_ok n s h refs full prt" "tree_ok n s h refs full" "prt_push prt = push"
    using run by (auto simp: engine_runs_def query_ok_def)
  have inner: "\<not> start n s h 0 \<le> ?a + k * s" using inner_before_leaves [OF k i] by simp
  obtain st' nodes' where R': "R st' nodes'" and step: "searchStep prt b (st, nodes, q, r) =
      bindE (foldE (visit prt b False (int (Suc i)) full) (map int [?a + k * s..<?a + ?e]) (q1, r))
        (\<lambda>(q2, r2). Inr (st', nodes', q2, r2))"
    using round [OF run R q k i, of b r] inner by auto
  define ms where "ms = filter (\<lambda>m. ?hit (?a + m)) [k * s..<?e]"
  define q2 where "q2 = fold (\<lambda>p q. push q (child_ticket (int (Suc i)) (full ! p)))
    (filter ?hit [?a + k * s..<?a + ?e]) q1"
  have "\<forall>p \<in> set [?a + k * s..<?a + ?e]. p < length full"
    using start_end [OF i, of n s] Q(2) by (auto simp: tree_ok_def)
  from visit_inner [OF this, of prt b "int (Suc i)" q1 r] have
    "searchStep prt b (st, nodes, q, r) = Inr (st', nodes', q2, r)"
    using step by (simp add: q2_def Q(3))
  moreover have "mset q2 = mset q1 + mset (map (ticket_for n s h i) ms)"
  proof -
    have "map (\<lambda>p. child_ticket (int (Suc i)) (full ! p)) (filter ?hit [?a + k * s..<?a + ?e])
        = map (\<lambda>m. child_ticket (int (Suc i)) (full ! (?a + m))) ms"
      by (simp add: upt_shift filter_map comp_def ms_def)
    also have "\<dots> = map (ticket_for n s h i) ms"
      using child_ticket_for(1) [OF Q(1) i] by (intro map_cong refl) (auto simp: ms_def)
    finally show ?thesis by (simp only: q2_def mset_fold_push)
  qed
  moreover have "\<exists>(f :: nat \<Rightarrow> ticket) ps. q2 = fold (\<lambda>p q. push q (f p)) ps q1"
    by (intro exI [of _ "\<lambda>p. child_ticket (int (Suc i)) (full ! p)"]
        exI [of _ "filter ?hit [?a + k * s..<?a + ?e]"]) (rule q2_def)
  ultimately show ?thesis
    using R' by (intro exI [of _ st'] exI [of _ nodes'] exI [of _ q2] exI [of _ ms])
      (simp add: ms_def)
qed

end

text \<open>What one round keeps: the results so far and those owed; and it makes the bag lighter.\<close>

lemma owed_children:
  assumes "query_ok n s h refs full prt" and "Suc i \<le> h"
    and "ms = filter (\<lambda>m. intersects b (ref_Box (full ! (start n s h (Suc i) + m))))
              [k * s..<min (cnt n s (Suc i)) (k * s + s)]"
  shows "(\<Sum>t \<in># mset (map (ticket_for n s h i) ms). owed n s h refs b t)
    = mset (hits refs b (under n s (Suc (Suc i)) k))"
proof -
  have s: "2 \<le> s" "tree_ok n s h refs full" using assms(1) by (auto simp: query_ok_def)
  have "(\<Sum>t \<in># mset (map (ticket_for n s h i) ms). owed n s h refs b t)
      = (\<Sum>m\<leftarrow>ms. mset (hits refs b (under n s (Suc i) m)))"
    using s(1) by (induction ms) (auto simp: owed_ticket_for)
  also have "\<dots> = (\<Sum>m\<leftarrow>[k * s..<min (cnt n s (Suc i)) (k * s + s)]. mset (hits refs b (under n s (Suc i) m)))"
    unfolding assms(3)
    by (rule sum_list_filter_zero) (use no_hit_below [OF s(2) assms(2)] in simp)
  finally show ?thesis using under_split [OF s(1)] by simp
qed

lemma weight_children:
  assumes "length ms \<le> s"
  shows "(\<Sum>t \<in># mset (map (ticket_for n s h i) ms). (s + 1) ^ nat (tk_level t)) < (s + 1) ^ Suc i"
proof -
  have "(\<Sum>t \<in># mset (map (ticket_for n s h i) ms). (s + 1) ^ nat (tk_level t)) = length ms * (s + 1) ^ i"
    by (induction ms) (auto simp: ticket_for_def)
  also have "\<dots> < (s + 1) * (s + 1) ^ i" using assms by (intro mult_strict_right_mono) auto
  finally show ?thesis by simp
qed

context prt_engine
begin

lemma round_progress:
  assumes run: "runs n s h refs prt" and R: "R st nodes" and q: "q \<noteq> []" "\<forall>t \<in> set q. ticket_ok n s h t"
  shows "\<exists>st' nodes' q' r'. searchStep prt b (st, nodes, q, r) = Inr (st', nodes', q', r') \<and> R st' nodes'
    \<and> (\<forall>t \<in> set q'. ticket_ok n s h t)
    \<and> mset r' + owed_bag n s h refs b q' = mset r + owed_bag n s h refs b q
    \<and> weight s q' < weight s q"
proof -
  have Q: "2 \<le> s" "query_ok n s h refs full prt" using run by (auto simp: engine_runs_def query_ok_def)
  obtain t q1 where t: "pop q = Inr (t, q1)" "mset q = add_mset t (mset q1)"
    using pop_nonempty [OF q(1)] by blast
  then have "t \<in> set q" "set q1 \<subseteq> set q" using set_mset_mset [of q] set_mset_mset [of q1] by auto
  then obtain i k where i: "i \<le> h" "k * s < cnt n s i" "t = ticket_for n s h i k"
    using q(2) unfolding ticket_ok_def by blast
  have q1: "\<forall>t \<in> set q1. ticket_ok n s h t" using q(2) \<open>set q1 \<subseteq> set q\<close> by blast
  have ow: "owed_bag n s h refs b q = mset (hits refs b (under n s (Suc i) k)) + owed_bag n s h refs b q1"
    using t(2) i(3) Q(1) by (simp add: owed_bag_def owed_ticket_for)
  have we: "weight s q = (s + 1) ^ i + weight s q1"
    using t(2) i(3) by (simp add: weight_def ticket_for_def)
  show ?thesis
  proof (cases i)
    case 0
    then obtain st' nodes' where "R st' nodes'"
        "searchStep prt b (st, nodes, q, r) = Inr (st', nodes', q1, r @ hits refs b (under n s 1 k))"
      using round_leaves [OF run R, of q k q1 b r] t(1) i by auto
    with q1 ow we 0 show ?thesis by auto
  next
    case (Suc i')
    obtain st' nodes' q2 ms where r: "R st' nodes'" "searchStep prt b (st, nodes, q, r) = Inr (st', nodes', q2, r)"
        and ms: "ms = filter (\<lambda>m. intersects b (ref_Box (full ! (start n s h (Suc i') + m))))
              [k * s..<min (cnt n s (Suc i')) (k * s + s)]"
        and q2: "mset q2 = mset q1 + mset (map (ticket_for n s h i') ms)"
      using round_inner [OF run R, of q i' k q1 b r] t(1) i Suc by fastforce
    have "length ms \<le> length [k * s..<min (cnt n s (Suc i')) (k * s + s)]"
      unfolding ms by (rule length_filter_le)
    then have len: "length ms \<le> s" by simp
    have "set q2 = set q1 \<union> ticket_for n s h i' ` set ms"
      using arg_cong [OF q2, of set_mset] by simp
    moreover have "ticket_ok n s h (ticket_for n s h i' m)" if "m \<in> set ms" for m
      using child_ticket_for(2) [OF Q(2), of i' m] that i(1) Suc by (auto simp: ms)
    ultimately have "\<forall>t \<in> set q2. ticket_ok n s h t" using q1 by auto
    moreover have "owed_bag n s h refs b q2 = owed_bag n s h refs b q"
      using owed_children [OF Q(2) _ ms] i(1) Suc q2 ow by (simp add: owed_bag_def)
    moreover have "weight s q2 < weight s q"
      using weight_children [OF len, of n h i'] q2 we Suc by (simp add: weight_def)
    ultimately show ?thesis using r by auto
  qed
qed

lemma searchLoop_exact:
  assumes run: "runs n s h refs prt"
  shows "R st nodes \<Longrightarrow> q \<noteq> [] \<Longrightarrow> \<forall>t \<in> set q. ticket_ok n s h t \<Longrightarrow>
    \<exists>st' nodes' r'. searchLoop prt b (st, nodes, q, r) = Some (Inr (st', r')) \<and> R st' nodes'
      \<and> mset r' = mset r + owed_bag n s h refs b q"
proof (induction "weight s q" arbitrary: st nodes q r rule: less_induct)
  case less
  obtain st1 nodes1 q1 r1 where step: "searchStep prt b (st, nodes, q, r) = Inr (st1, nodes1, q1, r1)"
      "R st1 nodes1" "\<forall>t \<in> set q1. ticket_ok n s h t"
      "mset r1 + owed_bag n s h refs b q1 = mset r + owed_bag n s h refs b q" "weight s q1 < weight s q"
    using round_progress [OF run less.prems] by blast
  show ?case
  proof (cases "q1 = []")
    case True
    with step show ?thesis
      by (intro exI [of _ st1] exI [of _ nodes1] exI [of _ r1])
        (simp add: searchLoop.simps [of prt b "(st, nodes, q, r)"] owed_bag_def)
  next
    case False
    obtain st' nodes' r' where "searchLoop prt b (st1, nodes1, q1, r1) = Some (Inr (st', r'))" "R st' nodes'"
        "mset r' = mset r1 + owed_bag n s h refs b q1"
      using less.hyps [OF step(5,2) False step(3)] by blast
    with step False show ?thesis
      by (intro exI [of _ st'] exI [of _ nodes'] exI [of _ r'])
        (simp add: searchLoop.simps [of prt b "(st, nodes, q, r)"])
  qed
qed

lemma search_start:
  assumes run: "runs n s h refs prt"
  shows "search prt st b = searchLoop prt b (st, prt_nodes prt, [ticket_for n s h h 0], [])"
    and "ticket_ok n s h (ticket_for n s h h 0)"
    and "owed_bag n s h refs b [ticket_for n s h h 0] = mset (hits refs b [0..<n])"
proof -
  have Q: "2 \<le> s" "is_height n s h" "prt_levels prt = layout n s h"
    using run by (auto simp: engine_runs_def query_ok_def)
  have root: "\<lparr>nodeIndex = 0, tk_level = int (length (prt_levels prt)) - 1\<rparr> = ticket_for n s h h 0"
    by (simp add: ticket_for_def Q(3))
  show "search prt st b = searchLoop prt b (st, prt_nodes prt, [ticket_for n s h h 0], [])"
    unfolding search_def root ..
  show "ticket_ok n s h (ticket_for n s h h 0)"
    using Q(2) unfolding ticket_ok_def by (intro exI [of _ h] exI [of _ 0]) (simp add: is_height_def)
  have "n \<le> 1 * s ^ h" using Q cnt_le_iff [of s n h 1] by (simp add: is_height_def)
  also have "\<dots> \<le> s ^ Suc h" using Q(1) by simp
  finally have "under n s (Suc h) 0 = [0..<n]"
    unfolding under_def by (intro filter_True) auto
  then show "owed_bag n s h refs b [ticket_for n s h h 0] = mset (hits refs b [0..<n])"
    using Q(1) by (simp add: owed_bag_def owed_ticket_for)
qed

theorem search_exact:
  assumes run: "runs n s h refs prt" and R: "R st (prt_nodes prt)"
  shows "\<exists>st' nodes' r'. search prt st b = Some (Inr (st', r')) \<and> R st' nodes'
      \<and> mset r' = mset (hits refs b [0..<n])"
  using searchLoop_exact [OF run R, of "[ticket_for n s h h 0]" b "[]"] search_start [OF run]
  by simp

end

end
