(* ===== verification/Packed_RTree_Order.thy ===== *)
theory Packed_RTree_Order
  imports Packed_RTree_Search
begin

text \<open>
  The order of the results of a search that draws its tickets from a heap: the heap operations keep
  the heap order, the least ticket comes out first, and the references are found by ascending index.
\<close>

section \<open>The heap of tickets\<close>

abbreviation heap_key :: "ticketBag \<Rightarrow> nat \<Rightarrow> int" where
  "heap_key h i \<equiv> nodeIndex (h ! i)"

definition par :: "nat \<Rightarrow> nat" where
  "par i = (i - 1) div 2"

lemma par_less: "0 < i \<Longrightarrow> par i < i"
  unfolding par_def by linarith

lemma par_0 [simp]: "par 0 = 0"
  by (simp add: par_def)

lemma par_eq_iff: "0 < m \<Longrightarrow> par m = i \<longleftrightarrow> m = 2 * i + 1 \<or> m = 2 * i + 2"
  unfolding par_def by presburger

lemma heap_up_step:
  "heap_up h j = (if par j = j \<or> \<not> ticket_Less h j (par j) then h
     else heap_up (ticket_Swap h (par j) j) (par j))"
  by (subst heap_up.simps) (simp only: par_def Let_def)

definition heap_ok :: "ticketBag \<Rightarrow> nat \<Rightarrow> bool" where
  "heap_ok h n \<longleftrightarrow> (\<forall>i. 0 < i \<longrightarrow> i < n \<longrightarrow> heap_key h (par i) \<le> heap_key h i)"

text \<open>A heap but for the edge above \<open>j\<close>, and but for the edges below \<open>i\<close>.\<close>

definition up_ok :: "ticketBag \<Rightarrow> nat \<Rightarrow> bool" where
  "up_ok h j \<longleftrightarrow>
     (\<forall>i. 0 < i \<longrightarrow> i < length h \<longrightarrow> i \<noteq> j \<longrightarrow> heap_key h (par i) \<le> heap_key h i)
   \<and> (\<forall>i. 0 < i \<longrightarrow> i < length h \<longrightarrow> par i = j \<longrightarrow> 0 < j \<longrightarrow> heap_key h (par j) \<le> heap_key h i)"

definition down_ok :: "ticketBag \<Rightarrow> nat \<Rightarrow> nat \<Rightarrow> bool" where
  "down_ok h i n \<longleftrightarrow>
     (\<forall>m. 0 < m \<longrightarrow> m < n \<longrightarrow> par m \<noteq> i \<longrightarrow> heap_key h (par m) \<le> heap_key h m)
   \<and> (\<forall>m. 0 < m \<longrightarrow> m < n \<longrightarrow> par m = i \<longrightarrow> 0 < i \<longrightarrow> heap_key h (par i) \<le> heap_key h m)"

lemma swap_nth:
  assumes "i < length h" and "j < length h"
  shows "ticket_Swap h i j ! m = (if m = i then h ! j else if m = j then h ! i else h ! m)"
  using assms by (auto simp: ticket_Swap_def nth_list_update)

lemma length_heap_up: "length (heap_up h j) = length h"
proof (induction h j rule: heap_up.induct)
  case (1 h j)
  show ?case
  proof (cases "par j = j \<or> \<not> ticket_Less h j (par j)")
    case True
    then show ?thesis by (simp add: heap_up_step [of h j])
  next
    case False
    with "1.IH" [OF par_def False] show ?thesis by (simp add: heap_up_step [of h j])
  qed
qed

lemma up_ok_swap:
  assumes "up_ok h j" and "j < length h" and "par j \<noteq> j" and "ticket_Less h j (par j)"
  shows "up_ok (ticket_Swap h (par j) j) (par j)"
proof -
  have j: "0 < j" using assms(3) by (cases j) auto
  then have pj: "par j < j" "par j < length h" using par_less [of j] assms(2) by auto
  have less: "heap_key h j < heap_key h (par j)" using assms(4) by (simp add: ticket_Less_def)
  have edge: "heap_key h (par i) \<le> heap_key h i" if "0 < i" "i < length h" "i \<noteq> j" for i
    using assms(1) that by (simp add: up_ok_def)
  have kid: "heap_key h (par j) \<le> heap_key h i" if "0 < i" "i < length h" "par i = j" for i
    using assms(1) that j by (auto simp: up_ok_def)
  let ?h = "ticket_Swap h (par j) j"
  note nth = swap_nth [OF pj(2) assms(2)]
  have "heap_key ?h (par i) \<le> heap_key ?h i" if i: "0 < i" "i < length h" "i \<noteq> par j" for i
  proof -
    consider "i = j" | "i \<noteq> j" "par i = j" | "i \<noteq> j" "par i = par j" | "i \<noteq> j" "par i \<noteq> j" "par i \<noteq> par j"
      by blast
    then show ?thesis
      using edge [OF i(1,2)] kid [OF i(1,2)] less i(3) pj(1) unfolding nth by cases simp_all
  qed
  moreover have "heap_key ?h (par (par j)) \<le> heap_key ?h i"
    if i: "0 < i" "i < length h" "par i = par j" "0 < par j" for i
  proof -
    have "par (par j) < par j" using i(4) by (rule par_less)
    then have top: "heap_key ?h (par (par j)) = heap_key h (par (par j))" using pj unfolding nth by simp
    have "heap_key h (par (par j)) \<le> heap_key h (par j)" using edge [of "par j"] i(4) pj by simp
    moreover have "heap_key h (par j) \<le> heap_key ?h i"
      using edge [OF i(1,2)] i par_less [OF i(1)] unfolding nth by (cases "i = j") auto
    ultimately show ?thesis using top by simp
  qed
  ultimately show ?thesis by (simp add: up_ok_def)
qed

lemma heap_up_ok: "up_ok h j \<Longrightarrow> j < length h \<Longrightarrow> heap_ok (heap_up h j) (length h)"
proof (induction h j rule: heap_up.induct)
  case (1 h j)
  show ?case
  proof (cases "par j = j \<or> \<not> ticket_Less h j (par j)")
    case True
    then have "heap_key h (par i) \<le> heap_key h i" if "0 < i" "i < length h" for i
      using "1.prems"(1) that by (cases "i = j") (auto simp: up_ok_def ticket_Less_def)
    with True show ?thesis by (simp add: heap_up_step [of h j] heap_ok_def)
  next
    case False
    then have p: "par j < length h" using "1.prems"(2) par_less [of j] by (cases j) auto
    have "heap_ok (heap_up (ticket_Swap h (par j) j) (par j)) (length (ticket_Swap h (par j) j))"
      using "1.IH" [OF par_def False] up_ok_swap [OF "1.prems"] False p by simp
    with False show ?thesis by (simp add: heap_up_step [of h j])
  qed
qed

lemma heap_child_least:
  assumes "2 * i + 1 < n"
  shows "0 < heap_child h i n" and "par (heap_child h i n) = i"
    and "0 < m \<Longrightarrow> m < n \<Longrightarrow> par m = i \<Longrightarrow> heap_key h (heap_child h i n) \<le> heap_key h m"
  using assms by (auto simp: heap_child_def Let_def ticket_Less_def par_eq_iff)

lemma down_ok_swap:
  assumes "down_ok h i n" and "2 * i + 1 < n" and "n \<le> length h"
    and "ticket_Less h (heap_child h i n) i"
  shows "down_ok (ticket_Swap h i (heap_child h i n)) (heap_child h i n) n"
proof -
  define c where "c = heap_child h i n"
  have c: "i < c" "c < n" using heap_child_bounds [OF assms(2)] by (auto simp: c_def)
  have less: "heap_key h c < heap_key h i" using assms(4) by (simp add: ticket_Less_def c_def)
  have parc: "par c = i" using heap_child_least(2) [OF assms(2)] by (simp add: c_def)
  have least: "heap_key h c \<le> heap_key h m" if "0 < m" "m < n" "par m = i" for m
    using heap_child_least(3) [OF assms(2) that] by (simp add: c_def)
  have edge: "heap_key h (par m) \<le> heap_key h m" if "0 < m" "m < n" "par m \<noteq> i" for m
    using assms(1) that by (simp add: down_ok_def)
  have top: "heap_key h (par i) \<le> heap_key h m" if "0 < m" "m < n" "par m = i" "0 < i" for m
    using assms(1) that by (simp add: down_ok_def)
  have il: "i < length h" "c < length h" using c assms(3) by auto
  let ?h = "ticket_Swap h i c"
  note nth = swap_nth [OF il]
  have "heap_key ?h (par m) \<le> heap_key ?h m" if m: "0 < m" "m < n" "par m \<noteq> c" for m
  proof -
    have pm: "par m < m" using m(1) by (rule par_less)
    consider "m = c" | "m \<noteq> c" "par m = i" | "m = i" | "m \<noteq> c" "m \<noteq> i" "par m \<noteq> i" by blast
    then show ?thesis
    proof cases
      case 3
      have "0 < c" using c(1) by simp
      with 3 top [of c] c parc m pm show ?thesis unfolding nth by simp
    qed (use edge [OF m(1,2)] least [OF m(1,2)] less parc m(3) c pm in \<open>simp_all add: nth\<close>)
  qed
  moreover have "heap_key ?h (par c) \<le> heap_key ?h m" if m: "0 < m" "m < n" "par m = c" for m
  proof -
    have "m \<noteq> i" "m \<noteq> c" using m c par_less [OF m(1)] by auto
    then show ?thesis using edge [OF m(1,2)] m c parc unfolding nth by auto
  qed
  ultimately show ?thesis unfolding c_def [symmetric] by (simp add: down_ok_def)
qed


lemma heap_down_ok: "down_ok h i n \<Longrightarrow> n \<le> length h \<Longrightarrow> heap_ok (heap_down h i n) n"
proof (induction h i n rule: heap_down.induct)
  case (1 h i n)
  let ?c = "heap_child h i n"
  show ?case
  proof (cases "n \<le> 2 * i + 1 \<or> \<not> ticket_Less h ?c i")
    case True
    have "heap_key h (par m) \<le> heap_key h m" if m: "0 < m" "m < n" for m
    proof (cases "par m = i")
      case False
      with "1.prems"(1) m show ?thesis by (simp add: down_ok_def)
    next
      case par: True
      then have "2 * i + 1 < n" using m par_eq_iff [of m i] by auto
      with heap_child_least(3) [of i n m h] True m par show ?thesis
        by (auto simp: ticket_Less_def)
    qed
    with True show ?thesis by (auto simp: heap_down.simps [of h i n] heap_ok_def)
  next
    case False
    then have "heap_down h i n = heap_down (ticket_Swap h i ?c) ?c n"
      by (simp add: heap_down.simps [of h i n])
    with "1.IH" down_ok_swap [OF "1.prems"(1)] False "1.prems"(2) show ?thesis by simp
  qed
qed

lemma heap_root_least: "heap_ok h n \<Longrightarrow> m < n \<Longrightarrow> heap_key h 0 \<le> heap_key h m"
proof (induction m rule: less_induct)
  case (less m)
  show ?case
  proof (cases "m = 0")
    case False
    then have "par m < m" using par_less by simp
    with less have "heap_key h 0 \<le> heap_key h (par m)" by simp
    also have "\<dots> \<le> heap_key h m" using less.prems False by (simp add: heap_ok_def)
    finally show ?thesis .
  qed simp
qed

lemma heapPush_ok:
  assumes "heap_ok q (length q)"
  shows "heap_ok (heapPush q t) (length (heapPush q t))"
proof -
  have "up_ok (q @ [t]) (length q)"
    unfolding up_ok_def
  proof (intro conjI allI impI)
    fix i
    assume i: "0 < i" "i < length (q @ [t])"
    note less = par_less [OF i(1)]
    show "heap_key (q @ [t]) (par i) \<le> heap_key (q @ [t]) i" if "i \<noteq> length q"
      using assms i less that by (simp add: heap_ok_def nth_append)
    show "heap_key (q @ [t]) (par (length q)) \<le> heap_key (q @ [t]) i" if "par i = length q"
      using i less that by simp
  qed
  from heap_up_ok [OF this] show ?thesis
    by (simp add: heapPush_def stackPush_def Let_def length_heap_up)
qed

lemma heapPop_ok:
  assumes ok: "heap_ok q (length q)" and q: "q \<noteq> []" and pop: "heapPop q = Inr (t, q')"
  shows "heap_ok q' (length q') \<and> (\<forall>u \<in> set q. nodeIndex t \<le> nodeIndex u)"
proof -
  define n where "n = length q - 1"
  define d where "d = heap_down (ticket_Swap q 0 n) 0 n"
  have n: "n < length q" "0 < length q" using q by (auto simp: n_def)
  note nth = swap_nth [OF n(2,1)]
  have "down_ok (ticket_Swap q 0 n) 0 n"
    unfolding down_ok_def
  proof (intro conjI allI impI)
    fix m
    assume m: "0 < m" "m < n"
    show "heap_key (ticket_Swap q 0 n) (par m) \<le> heap_key (ticket_Swap q 0 n) m" if "par m \<noteq> 0"
      using ok m n that par_less [OF m(1)] by (simp add: heap_ok_def nth)
  qed simp
  then have dn: "heap_ok d n" unfolding d_def using n by (intro heap_down_ok) auto
  have d: "length d = length q" "d ! n = q ! 0"
    using heap_down_perm [of n "ticket_Swap q 0 n" 0] n unfolding d_def by (auto simp: nth)
  then have t: "t = d ! n" "q' = take n d"
    using pop q by (auto simp: heapPop_def Let_def stackPop_def d_def n_def split: if_splits)
  have "heap_ok q' (length q')"
    unfolding heap_ok_def
  proof (intro allI impI)
    fix i
    assume i: "0 < i" "i < length q'"
    then show "heap_key q' (par i) \<le> heap_key q' i"
      using dn d n par_less [OF i(1)] by (simp add: t heap_ok_def)
  qed
  moreover have "nodeIndex t \<le> nodeIndex u" if "u \<in> set q" for u
    using that heap_root_least [OF ok] t d by (auto simp: in_set_conv_nth)
  ultimately show ?thesis by blast
qed

text \<open>A bag that hands out the ticket with the least node index.\<close>

locale ordered_bag = ticket_bag push pop for push :: pushFunc and pop :: popFunc +
  fixes inv :: "ticketBag \<Rightarrow> bool"
  assumes inv_single: "inv [t]"
    and inv_push: "inv q \<Longrightarrow> inv (push q t)"
    and pop_least: "inv q \<Longrightarrow> q \<noteq> [] \<Longrightarrow> pop q = Inr (t, q') \<Longrightarrow>
      inv q' \<and> (\<forall>u \<in> set q. nodeIndex t \<le> nodeIndex u)"

interpretation heap_ordered: ordered_bag heapPush heapPop "\<lambda>q. heap_ok q (length q)"
proof unfold_locales
  show "heap_ok [t] (length [t])" for t by (simp add: heap_ok_def)
qed (use heapPush_ok heapPop_ok in blast)+

section \<open>Results in index order\<close>

abbreviation ref_indices :: "Results \<Rightarrow> int list" where
  "ref_indices r \<equiv> map res_RefIndex r"

definition unique :: "'a multiset \<Rightarrow> bool" where
  "unique M \<longleftrightarrow> (\<forall>x. count M x \<le> 1)"

lemma unique_distinct: "distinct xs \<Longrightarrow> unique (mset xs)"
  by (simp add: unique_def distinct_count_atmost_1)

lemma hits_indices: "ref_indices (hits refs b js) = map int (filter (\<lambda>j. intersects b (ref_Box (refs ! j))) js)"
  by (simp add: hits_def result_of_def)

lemma sorted_hits: "sorted js \<Longrightarrow> sorted (ref_indices (hits refs b js))"
  unfolding hits_indices by (simp add: sorted_map sorted_wrt_filter)

lemma distinct_hits: "distinct js \<Longrightarrow> distinct (hits refs b js)"
  unfolding hits_def by (intro distinct_map [THEN iffD2] conjI inj_onI) (auto simp: result_of_def)

lemma owed_leaf_range:
  assumes "2 \<le> s" and "x \<in># owed n s h refs b (ticket_for n s h 0 k)"
  shows "int (k * s) \<le> res_RefIndex x" and "res_RefIndex x < int (k * s + s)"
proof -
  have "x \<in> set (hits refs b [k * s..<min n (k * s + s)])"
    using assms under_leaf_group [OF assms(1), of n k] by (simp add: owed_ticket_for)
  then have "res_RefIndex x \<in> set (ref_indices (hits refs b [k * s..<min n (k * s + s)]))" by simp
  then obtain j where "res_RefIndex x = int j" "k * s \<le> j" "j < k * s + s"
    unfolding hits_indices by auto
  then show "int (k * s) \<le> res_RefIndex x" "res_RefIndex x < int (k * s + s)" by linarith+
qed

text \<open>
  Once there is a result, only tickets for leaves are left, and what they owe comes after it.
\<close>

definition in_order :: "nat \<Rightarrow> nat \<Rightarrow> nat \<Rightarrow> Ref list \<Rightarrow> Box \<Rightarrow> ticketBag \<Rightarrow> Results \<Rightarrow> bool" where
  "in_order n s h refs b q r \<longleftrightarrow>
     sorted (ref_indices r) \<and> (r \<noteq> [] \<longrightarrow> (\<forall>t \<in> set q. tk_level t = 0))
     \<and> (\<forall>t \<in> set q. \<forall>x \<in> set r. \<forall>y \<in># owed n s h refs b t. res_RefIndex x \<le> res_RefIndex y)"

text \<open>Behind the least ticket, if that is one for leaves, all tickets are for later leaves.\<close>

lemma leaf_tickets_after:
  assumes "ticket_ok n s h u" and "nodeIndex (ticket_for n s h 0 k) \<le> nodeIndex u" and "0 < s"
  shows "\<exists>m. k \<le> m \<and> m * s < n \<and> u = ticket_for n s h 0 m"
proof -
  obtain i m where u: "i \<le> h" "m * s < cnt n s i" "u = ticket_for n s h i m"
    using assms(1) unfolding ticket_ok_def by blast
  have le: "start n s h 0 + k * s \<le> start n s h i + m * s"
    using assms(2) unfolding u(3) ticket_for_def ticket.simps of_nat_le_iff .
  have "i = 0"
  proof (cases i)
    case (Suc i')
    with inner_before_leaves [of m s n i' h] u le show ?thesis by simp
  qed
  with le u assms(3) show ?thesis by auto
qed

lemma in_order_leaf:
  assumes s: "2 \<le> s" and ord: "in_order n s h refs b q r"
    and q: "mset q = add_mset (ticket_for n s h 0 k) (mset q1)"
    and after: "\<And>u. u \<in> set q1 \<Longrightarrow> \<exists>m. k \<le> m \<and> u = ticket_for n s h 0 m"
    and uniq: "unique (mset r + owed_bag n s h refs b q)"
  shows "in_order n s h refs b q1 (r @ hits refs b (under n s 1 k))"
proof -
  let ?t = "ticket_for n s h 0 k" and ?owed = "owed n s h refs b"
  have owed: "?owed ?t = mset (hits refs b (under n s 1 k))" using s by (simp add: owed_ticket_for)
  have sub: "?t \<in> set q" "set q1 \<subseteq> set q" using arg_cong [OF q, of set_mset] by auto
  have old: "res_RefIndex x \<le> res_RefIndex y" if "u \<in> set q" "x \<in> set r" "y \<in># ?owed u" for u x y
    using ord that by (auto simp: in_order_def)
  have "sorted (under n s 1 k)" unfolding under_def by (intro sorted_wrt_filter sorted_upt)
  then have "sorted (ref_indices (r @ hits refs b (under n s 1 k)))"
    using ord old [OF sub(1)] sorted_hits [of "under n s 1 k" refs b]
    by (auto simp: in_order_def sorted_append owed)
  moreover have "res_RefIndex x \<le> res_RefIndex y"
    if u: "u \<in> set q1" and x: "x \<in># ?owed ?t" and y: "y \<in># ?owed u" for u x y
  proof -
    obtain m where m: "k \<le> m" "u = ticket_for n s h 0 m" using after [OF u] by blast
    have "m \<noteq> k"
    proof
      assume "m = k"
      then have "x \<in># ?owed u" using x m by simp
      then have "x \<in># owed_bag n s h refs b q1" using u by (auto simp: owed_bag_def)
      then have "0 < count (owed_bag n s h refs b q1) x" "0 < count (?owed ?t) x"
        using x unfolding count_greater_zero_iff by simp_all
      moreover have "count (owed_bag n s h refs b q) x = count (?owed ?t) x + count (owed_bag n s h refs b q1) x"
        by (simp add: owed_bag_def q)
      ultimately have "2 \<le> count (mset r + owed_bag n s h refs b q) x" unfolding count_union by linarith
      with uniq show False unfolding unique_def by (metis not_less_eq_eq numeral_2_eq_2 One_nat_def)
    qed
    then have "k * s + s \<le> m * s" using m(1) mult_le_mono1 [of "Suc k" m s] by simp
    moreover have "res_RefIndex x < int (k * s + s)" using owed_leaf_range(2) [OF s x] .
    moreover have "int (m * s) \<le> res_RefIndex y" using owed_leaf_range(1) [OF s] y m(2) by simp
    ultimately show ?thesis by linarith
  qed
  moreover have "tk_level u = 0" if "u \<in> set q1" for u
    using after [OF that] by (auto simp: ticket_for_def)
  ultimately show ?thesis
    using old sub(2) by (auto simp: in_order_def owed)
qed

locale ordered_engine =
  prt_engine push pop load R full + ordered_bag push pop inv
  for push :: pushFunc and pop :: popFunc
    and load :: "'st \<Rightarrow> int \<Rightarrow> int \<Rightarrow> node list \<Rightarrow> prt_error + ('st \<times> node list)"
    and R :: "'st \<Rightarrow> node list \<Rightarrow> bool" and full :: "node list" and inv :: "ticketBag \<Rightarrow> bool"
begin

lemma inv_fold_push: "inv q \<Longrightarrow> inv (fold (\<lambda>p q. push q (f p)) ps q)"
  by (induction ps arbitrary: q) (auto intro: inv_push)

lemma round_in_order:
  assumes run: "runs n s h refs prt" and R: "R st nodes" and q: "q \<noteq> []" "\<forall>t \<in> set q. ticket_ok n s h t"
    and inv: "inv q" and ord: "in_order n s h refs b q r"
    and uniq: "unique (mset r + owed_bag n s h refs b q)"
    and step: "searchStep prt b (st, nodes, q, r) = Inr (st', nodes', q', r')"
  shows "inv q' \<and> in_order n s h refs b q' r'"
proof -
  have s: "2 \<le> s" using run by (auto simp: engine_runs_def query_ok_def)
  obtain t q1 where t: "pop q = Inr (t, q1)" "mset q = add_mset t (mset q1)"
    using pop_nonempty [OF q(1)] by blast
  have sub: "t \<in> set q" "set q1 \<subseteq> set q" using arg_cong [OF t(2), of set_mset] by auto
  obtain i k where i: "i \<le> h" "k * s < cnt n s i" "t = ticket_for n s h i k"
    using q(2) sub(1) unfolding ticket_ok_def by blast
  have least: "inv q1" "\<And>u. u \<in> set q \<Longrightarrow> nodeIndex t \<le> nodeIndex u"
    using pop_least [OF inv q(1) t(1)] by auto
  show ?thesis
  proof (cases i)
    case 0
    have "\<exists>m. k \<le> m \<and> u = ticket_for n s h 0 m" if "u \<in> set q1" for u
      using leaf_tickets_after [of n s h u k] q(2) sub(2) that least(2) [of u] i(3) 0 s by auto
    from in_order_leaf [OF s ord _ this uniq] t(2) i(3) 0
    have "in_order n s h refs b q1 (r @ hits refs b (under n s 1 k))" by simp
    moreover have "q' = q1" "r' = r @ hits refs b (under n s 1 k)"
      using round_leaves [OF run R, of q k q1 b r] t(1) i 0 step by auto
    ultimately show ?thesis using least(1) by simp
  next
    case (Suc i')
    have "tk_level t \<noteq> 0" using i(3) Suc by (simp add: ticket_for_def)
    then have r: "r = []" using ord sub(1) by (auto simp: in_order_def)
    obtain q2 f ps where "searchStep prt b (st, nodes, q, r) = Inr (st', nodes', q2, r)"
        "q2 = fold (\<lambda>p q. push q ((f :: nat \<Rightarrow> ticket) p)) ps q1"
      using round_inner [OF run R, of q i' k q1 b r] t(1) i Suc step by fastforce
    then show ?thesis using step r least(1) inv_fold_push [of q1 f ps] by (simp add: in_order_def)
  qed
qed

lemma searchLoop_sorted:
  assumes run: "runs n s h refs prt"
  shows "R st nodes \<Longrightarrow> q \<noteq> [] \<Longrightarrow> \<forall>t \<in> set q. ticket_ok n s h t \<Longrightarrow> inv q \<Longrightarrow>
    in_order n s h refs b q r \<Longrightarrow> unique (mset r + owed_bag n s h refs b q) \<Longrightarrow>
    searchLoop prt b (st, nodes, q, r) = Some (Inr (st', r')) \<Longrightarrow> sorted (ref_indices r')"
proof (induction "weight s q" arbitrary: st nodes q r rule: less_induct)
  case less
  obtain st1 nodes1 q1 r1 where step: "searchStep prt b (st, nodes, q, r) = Inr (st1, nodes1, q1, r1)"
      "R st1 nodes1" "\<forall>t \<in> set q1. ticket_ok n s h t"
      "mset r1 + owed_bag n s h refs b q1 = mset r + owed_bag n s h refs b q" "weight s q1 < weight s q"
    using round_progress [OF run less.prems(1-3)] by blast
  have ord: "inv q1" "in_order n s h refs b q1 r1"
    using round_in_order [OF run less.prems(1-6) step(1)] by auto
  show ?case
  proof (cases "q1 = []")
    case True
    with step less.prems(7) ord show ?thesis
      by (simp add: searchLoop.simps [of prt b "(st, nodes, q, r)"] in_order_def)
  next
    case False
    then have "searchLoop prt b (st1, nodes1, q1, r1) = Some (Inr (st', r'))"
      using step(1) less.prems(7) by (simp add: searchLoop.simps [of prt b "(st, nodes, q, r)"])
    with less.hyps [OF step(5,2) False step(3) ord] step(4) less.prems(6) show ?thesis by simp
  qed
qed

theorem search_in_order:
  assumes run: "runs n s h refs prt" and R: "R st (prt_nodes prt)"
  shows "\<exists>st' nodes'. search prt st b = Some (Inr (st', hits refs b [0..<n])) \<and> R st' nodes'"
proof -
  let ?hits = "hits refs b [0..<n]"
  obtain st' nodes' r where r: "search prt st b = Some (Inr (st', r))" "R st' nodes'" "mset r = mset ?hits"
    using search_exact [OF run R] by blast
  have "unique (owed_bag n s h refs b [ticket_for n s h h 0])"
    using search_start(3) [OF run] distinct_hits [of "[0..<n]"] by (simp add: unique_distinct)
  then have "sorted (ref_indices r)"
    using searchLoop_sorted [OF run R, of "[ticket_for n s h h 0]" b "[]" st' r]
      search_start(1,2) [OF run] r(1) inv_single by (simp add: in_order_def)
  moreover have "inj_on res_RefIndex (set ?hits)" by (auto simp: hits_def result_of_def inj_on_def)
  ultimately have "r = ?hits"
    using r(3) sorted_hits [of "[0..<n]" refs b] mset_eq_setD [OF r(3)]
    by (intro map_sorted_distinct_set_unique [of res_RefIndex])
       (auto simp: distinct_map distinct_hits mset_eq_imp_distinct_iff [OF r(3)])
  then show ?thesis using r by blast
qed

end

end
