(* ===== verification/Packed_RTree_IO.thy ===== *)
theory Packed_RTree_IO
  imports Packed_RTree_Order
begin

text \<open>
  The serialized packed R-tree: octets of nodes, a tree behind a seekable reader, and the properties
  of the tree: exactness of \<open>Search\<close> and \<open>Seek\<close>, the round trip of \<open>Marshal\<close> and \<open>Unmarshal\<close>, the
  bounds, and termination and range of \<open>Size\<close>.
\<close>

section \<open>Octets\<close>

lemma of_le_octets_le_octets [simp]: "of_le_octets (le_octets w) = w"
  using get_put_bytes [of 8 LittleEndian w]
  by (simp add: le_octets_def of_le_octets_def get_bytes_def put_bytes_def)

lemma length_le_octets [simp]: "length (le_octets w) = 8"
  by (simp add: le_octets_def)

lemma length_node_octets [simp]: "length (node_octets n) = 40"
  by (simp add: node_octets_def)

lemma of_node_octets_node_octets [simp]: "of_node_octets (node_octets n) = n"
  by (simp add: of_node_octets_def node_octets_def Let_def)

definition octets :: "node list \<Rightarrow> byte list" where
  "octets nodes = concat (map node_octets nodes)"

lemma octets_append [simp]: "octets (xs @ ys) = octets xs @ octets ys"
  by (simp add: octets_def)

lemma length_octets [simp]: "length (octets nodes) = 40 * length nodes"
  by (induction nodes) (auto simp: octets_def)

lemma decode_octets: "decode_nodes (length nodes) (octets nodes @ rest) = nodes"
  by (induction nodes) (auto simp: octets_def)

text \<open>The octets of the nodes \<open>i\<close> to \<open>j - 1\<close> are a slice of the octets of all nodes.\<close>

lemma octets_slice:
  assumes "i \<le> j" and "j \<le> length nodes"
  shows "take (40 * (j - i)) (drop (40 * i) (octets nodes @ rest)) = octets (take (j - i) (drop i nodes))"
proof -
  have "nodes = take i nodes @ take (j - i) (drop i nodes) @ drop (j - i) (drop i nodes)"
    by (metis append_take_drop_id)
  then have "octets nodes = octets (take i nodes) @ octets (take (j - i) (drop i nodes))
      @ octets (drop (j - i) (drop i nodes))"
    by (metis octets_append)
  moreover have "length (octets (take i nodes)) = 40 * i"
    "length (octets (take (j - i) (drop i nodes))) = 40 * (j - i)"
    using assms by auto
  ultimately show ?thesis by simp
qed

section \<open>The two sources of nodes\<close>

definition stream_rel ::
  "byte list \<Rightarrow> node list \<Rightarrow> byte list \<Rightarrow> reader \<times> int \<Rightarrow> node list \<Rightarrow> bool" where
  "stream_rel pre full post st nodes \<longleftrightarrow>
     rd_data (fst st) = pre @ octets full @ post \<and> rd_pos (fst st) = snd st \<and> 0 \<le> snd st
     \<and> length nodes = length full"

lemma ReadFull_slice:
  assumes "rd_data r = pre @ octets full @ post" and "rd_pos r = int (length pre + 40 * i)"
    and "i \<le> j" and "j \<le> length full"
  shows "ReadFull r (40 * (j - i)) =
    (r\<lparr>rd_pos := rd_pos r + int (40 * (j - i))\<rparr>, Inr (octets (take (j - i) (drop i full))))"
proof -
  have nat: "nat (rd_pos r) = length pre + 40 * i" using assms(2) by simp
  have avail: "drop (nat (rd_pos r)) (rd_data r) = drop (40 * i) (octets full @ post)"
    unfolding nat assms(1) by simp
  have "40 * (j - i) \<le> length (drop (40 * i) (octets full @ post))"
    using assms(3,4) by simp
  then show ?thesis
    unfolding ReadFull_def Let_def avail octets_slice [OF assms(3,4)] by simp
qed

lemma seek_fetch_ok:
  assumes R: "stream_rel pre full post st nodes" and ij: "i < j" "j \<le> length full"
  shows "\<exists>rs'. seek_fetch (int (length pre)) st (int i) (int j) nodes
      = Inr ((rs', rd_pos rs'), take i nodes @ take (j - i) (drop i full) @ drop j nodes)
    \<and> rd_data rs' = rd_data (fst st) \<and> 0 \<le> rd_pos rs'"
proof -
  obtain rs offset where st: "st = (rs, offset)" by (cases st)
  have rs: "rd_data rs = pre @ octets full @ post" "rd_pos rs = offset" "0 \<le> offset"
      "length nodes = length full"
    using R by (auto simp: stream_rel_def st)
  define rs1 where "rs1 = rs\<lparr>rd_pos := int (length pre + 40 * i)\<rparr>"
  have seek: "(if int (length pre) + int i * numNodeBytes - offset \<noteq> 0
      then bindE (rd_SeekTo rs (rd_pos rs + (int (length pre) + int i * numNodeBytes - offset)))
             (\<lambda>rs'. Inr (rs', rd_pos rs'))
      else Inr (rs, offset)) = Inr (rs1, rd_pos rs1)"
    using rs by (auto simp: rd_SeekTo_def rs1_def)
  have "rd_data rs1 = pre @ octets full @ post" "rd_pos rs1 = int (length pre + 40 * i)"
    using rs by (simp_all add: rs1_def)
  from ReadFull_slice [OF this, of j] ij
  have read: "readLittleEndianNodes rs1 (int i) (int j) nodes
      = Inr (rs1\<lparr>rd_pos := rd_pos rs1 + int (40 * (j - i))\<rparr>,
             take i nodes @ take (j - i) (drop i full) @ drop j nodes)"
    using rs(4) decode_octets [of "take (j - i) (drop i full)" "[]"]
    by (simp add: readLittleEndianNodes_def Let_def nat_diff_distrib del: of_nat_diff)
  show ?thesis
    unfolding st seek_fetch_def prod.case Let_def seek bindE_simps read
    using ij rs by (intro exI [of _ "rs1\<lparr>rd_pos := rd_pos rs1 + int (40 * (j - i))\<rparr>"])
      (auto simp: rs1_def)
qed

interpretation stream: node_source "seek_fetch (int (length pre))" "stream_rel pre full post" full
  for pre full post
proof
  fix st nodes i j
  assume R: "stream_rel pre full post st nodes" and i: "0 \<le> i" "i < j" "j \<le> int (length full)"
  define x y where "x = nat i" and "y = nat j"
  have xy: "i = int x" "j = int y" "x < y" "y \<le> length full" using i by (auto simp: x_def y_def)
  from seek_fetch_ok [OF R xy(3,4)] obtain rs' where
    rs': "seek_fetch (int (length pre)) st i j nodes
      = Inr ((rs', rd_pos rs'), take x nodes @ take (y - x) (drop x full) @ drop y nodes)"
      "rd_data rs' = rd_data (fst st)" "0 \<le> rd_pos rs'"
    using xy by auto
  have len: "length nodes = length full" using R by (simp add: stream_rel_def)
  have "(take x nodes @ take (y - x) (drop x full) @ drop y nodes) ! nat p = full ! nat p"
    if "i \<le> p" "p < j" for p
    using that xy len by (auto simp: nth_append)
  moreover have "stream_rel pre full post (rs', rd_pos rs')
      (take x nodes @ take (y - x) (drop x full) @ drop y nodes)"
    using R rs' xy by (auto simp: stream_rel_def)
  ultimately show "\<exists>st' nodes'. seek_fetch (int (length pre)) st i j nodes = Inr (st', nodes')
      \<and> stream_rel pre full post st' nodes' \<and> length nodes' = length full
      \<and> (\<forall>p. i \<le> p \<longrightarrow> p < j \<longrightarrow> nodes' ! nat p = full ! nat p)"
    using rs'(1) xy len by (intro exI) auto
qed

interpretation stack_mem: prt_engine stackPush stackPop "\<lambda>st i j nodes. Inr (st, nodes)"
  "\<lambda>st nodes. nodes = full" full for full :: "node list"
  ..

interpretation heap_stream: ordered_engine heapPush heapPop "seek_fetch (int (length pre))"
  "stream_rel pre full post" full "\<lambda>q. heap_ok q (length q)" for pre full post
  ..


text \<open>A tree in memory and the octets of a tree behind a reader.\<close>

lemma New_query:
  assumes "Size (int (length refs)) nodeSize = Inr sz" and "\<forall>r \<in> set refs. box_no_nan (ref_Box r)"
  shows "\<exists>prt h. New refs nodeSize = Inr prt \<and> int (length (Marshal prt)) = sz
    \<and> engine_runs stackPush stackPop (\<lambda>st i j nodes. Inr (st, nodes)) (prt_nodes prt)
         (length refs) (unat nodeSize) h refs prt
    \<and> prt_numRefs prt = int (length refs) \<and> prt_fetch prt = None
    \<and> levelify (length refs) (unat nodeSize) = Inr (layout (length refs) (unat nodeSize) h)"
proof -
  let ?n = "length refs" and ?s = "unat nodeSize"
  obtain prt h where prt: "New refs nodeSize = Inr prt" "is_height ?n ?s h" "2 \<le> ?s"
      "sz = int (numNodes ?n ?s h) * 40" "sz \<le> MaxInt" "levelify ?n ?s = Inr (layout ?n ?s h)"
      "prt_levels prt = layout ?n ?s h"
      "prt_nodeSize prt = int ?s" "prt_numRefs prt = int ?n" "tree_ok ?n ?s h refs (prt_nodes prt)"
      "prt_push prt = stackPush" "prt_pop prt = stackPop" "prt_fetch prt = None"
    using New_tree [OF assms] by blast
  have "engine_runs stackPush stackPop (\<lambda>st i j nodes. Inr (st, nodes)) (prt_nodes prt) ?n ?s h refs prt"
    unfolding engine_runs_def query_ok_def using prt by simp
  moreover have "int (length (Marshal prt)) = sz"
    using prt(4,10) by (simp add: Marshal_def octets_def [symmetric] tree_ok_def)
  ultimately show ?thesis using prt(1,6,9,13) by blast
qed

lemma Search_hits:
  assumes "engine_runs stackPush stackPop (\<lambda>st i j nodes. Inr (st, nodes)) (prt_nodes prt) n s h refs prt"
  shows "\<exists>r. Search prt b = Some (Inr r) \<and> mset r = mset (hits refs b [0..<n])"
  using stack_mem.search_exact [OF assms refl, of "()" b] by (auto simp: Search_def)

text \<open>The tree that \<open>Seek\<close> searches has the levels of the serialized one, and fetches its nodes.\<close>

lemma Seek_hits:
  assumes run: "engine_runs stackPush stackPop (\<lambda>st i j nodes. Inr (st, nodes)) (prt_nodes prt)
      (length refs) (unat nodeSize) h refs prt"
    and size: "Size (int (length refs)) nodeSize = Inr sz"
      "levelify (length refs) (unat nodeSize) = Inr (layout (length refs) (unat nodeSize) h)"
    and rs: "rd_data rs = pre @ Marshal prt @ post" "rd_pos rs = int (length pre)"
      "sz \<le> MaxInt - int (length pre)"
  shows "Seek rs (int (length refs)) nodeSize b =
    Some (Inr (hits refs b [0..<length refs], rs\<lparr>rd_pos := int (length pre) + sz\<rparr>))"
proof -
  let ?n = "length refs" and ?s = "unat nodeSize" and ?full = "prt_nodes prt"
  define sk where "sk = \<lparr>prt_numRefs = int ?n, prt_nodeSize = int ?s, prt_levels = layout ?n ?s h,
    prt_nodes = replicate (numNodes ?n ?s h) zero_node, prt_push = heapPush, prt_pop = heapPop,
    prt_fetch = Some (seek_fetch (int (length pre)))\<rparr>"
  have noo: "noo (int ?n) nodeSize heapPush heapPop (Some (seek_fetch (int (length pre)))) = Inr sk"
    using size(2) by (simp add: noo_def sk_def numNodes_def)
  have Q: "query_ok ?n ?s h refs ?full sk"
    using run by (simp add: engine_runs_def query_ok_def sk_def)
  then have runs: "engine_runs heapPush heapPop (seek_fetch (int (length pre))) ?full ?n ?s h refs sk"
    by (simp add: engine_runs_def sk_def)
  have "stream_rel pre ?full post (rs, int (length pre)) (prt_nodes sk)"
    using rs Q by (simp add: stream_rel_def Marshal_def octets_def sk_def query_ok_def tree_ok_def)
  from heap_stream.search_in_order [OF runs this, of b] obtain rs1 off nodes' where
    r: "search sk (rs, int (length pre)) b = Some (Inr ((rs1, off), hits refs b [0..<?n]))"
      "stream_rel pre ?full post (rs1, off) nodes'" by auto
  have sz: "0 \<le> sz" using Size_Inr [OF size(1)] by auto
  have rs1: "rd_data rs1 = rd_data rs" "rd_pos rs1 = off"
    using r(2) rs(1) by (auto simp: stream_rel_def Marshal_def octets_def)
  then have "rs1\<lparr>rd_pos := p\<rparr> = rs\<lparr>rd_pos := p\<rparr>" for p by simp
  moreover have "rs1 = rs\<lparr>rd_pos := off\<rparr>" using rs1 by simp
  ultimately show ?thesis
    unfolding Seek_def rs(2) Let_def size(1) sum.case noo r(1)
    using rs(3) sz by (auto simp: rd_SeekTo_def)
qed

lemma Unmarshal_Marshal:
  assumes run: "engine_runs stackPush stackPop (\<lambda>st i j nodes. Inr (st, nodes)) (prt_nodes prt)
      (length refs) (unat nodeSize) h refs prt" and new: "prt_numRefs prt = int (length refs)"
      "prt_fetch prt = None"
    and size: "Size (int (length refs)) nodeSize = Inr sz"
      "levelify (length refs) (unat nodeSize) = Inr (layout (length refs) (unat nodeSize) h)"
      "int (length (Marshal prt)) = sz"
    and rs: "rd_data rs = pre @ Marshal prt @ post" "rd_pos rs = int (length pre)"
  shows "Unmarshal rs (int (length refs)) nodeSize = Inr (prt, rs\<lparr>rd_pos := int (length pre) + sz\<rparr>)"
proof -
  let ?n = "length refs" and ?s = "unat nodeSize"
  have prt: "prt = \<lparr>prt_numRefs = int ?n, prt_nodeSize = int ?s, prt_levels = layout ?n ?s h,
      prt_nodes = prt_nodes prt, prt_push = stackPush, prt_pop = stackPop, prt_fetch = None\<rparr>"
    and len: "length (prt_nodes prt) = numNodes ?n ?s h"
    using run new by (auto simp: engine_runs_def query_ok_def tree_ok_def)
  let ?k = "numNodes ?n ?s h"
  have sz: "sz = int (40 * ?k)" using size(3) len by (simp add: Marshal_def octets_def [symmetric])
  have read: "ReadFull rs (40 * ?k) = (rs\<lparr>rd_pos := rd_pos rs + int (40 * ?k)\<rparr>, Inr (octets (prt_nodes prt)))"
    using ReadFull_slice [of rs pre "prt_nodes prt" post 0 ?k] rs len by (simp add: Marshal_def octets_def)
  have noo: "noo (int ?n) nodeSize stackPush stackPop None
      = Inr (prt\<lparr>prt_nodes := replicate ?k zero_node\<rparr>)"
    by (subst prt) (simp add: noo_def size(2) numNodes_def)
  have "prt\<lparr>prt_nodes := decode_nodes ?k (octets (prt_nodes prt))\<rparr> = prt"
    using decode_octets [of "prt_nodes prt" "[]"] len by simp
  then show ?thesis
    by (simp add: Unmarshal_def size(1) noo read Let_def sz rs(2))
qed

section \<open>Properties\<close>

text \<open>What a query means: one pass over all references.\<close>

definition linear_search :: "Ref list \<Rightarrow> Box \<Rightarrow> Results" where
  "linear_search refs b = hits refs b [0..<length refs]"

text \<open>Three unit boxes along the diagonal, and a query that meets the first two.\<close>

definition demo_refs :: "Ref list" where
  "demo_refs =
     [\<lparr>ref_Box = \<lparr>XMin = 0, YMin = 0, XMax = 0x3FF0000000000000, YMax = 0x3FF0000000000000\<rparr>, ref_Offset = 0\<rparr>,
      \<lparr>ref_Box = \<lparr>XMin = 0x3FF0000000000000, YMin = 0x3FF0000000000000,
                 XMax = 0x4000000000000000, YMax = 0x4000000000000000\<rparr>, ref_Offset = 100\<rparr>,
      \<lparr>ref_Box = \<lparr>XMin = 0x4008000000000000, YMin = 0x4008000000000000,
                 XMax = 0x4010000000000000, YMax = 0x4010000000000000\<rparr>, ref_Offset = 200\<rparr>]"

definition demo_box :: Box where
  "demo_box = \<lparr>XMin = 0, YMin = 0, XMax = 0x4000000000000000, YMax = 0x4000000000000000\<rparr>"

lemma demo_size: "Size (int (length demo_refs)) 2 = Inr 240"
  by code_simp

lemma demo_no_nan: "\<forall>r \<in> set demo_refs. box_no_nan (ref_Box r)"
  by code_simp

lemma demo_hits: "map res_RefIndex (linear_search demo_refs demo_box) = [0, 1]"
  by code_simp

text \<open>
  C1. For a non-empty collection of references without NaN coordinates whose index fits, \<open>New\<close> builds
  a tree without a panic, and \<open>Search\<close> on it ends and returns each reference whose box intersects
  the query exactly once: the same results as a pass over all references.
\<close>

theorem Search_exact:
  assumes "Size (int (length refs)) nodeSize = Inr sz" and "\<forall>r \<in> set refs. box_no_nan (ref_Box r)"
  shows "\<exists>prt r. New refs nodeSize = Inr prt \<and> Search prt b = Some (Inr r)
    \<and> mset r = mset (linear_search refs b)"
  using New_query [OF assms] Search_hits unfolding linear_search_def by blast

theorem Search_exact_witness:
  "\<exists>prt r. New demo_refs 2 = Inr prt \<and> Search prt demo_box = Some (Inr r)
    \<and> mset (map res_RefIndex r) = {#0, 1#}"
proof -
  obtain prt r where "New demo_refs 2 = Inr prt" "Search prt demo_box = Some (Inr r)"
      "mset r = mset (linear_search demo_refs demo_box)"
    using Search_exact [OF demo_size demo_no_nan, of demo_box] by blast
  moreover from this(3) have "mset (map res_RefIndex r) = mset (map res_RefIndex (linear_search demo_refs demo_box))"
    unfolding mset_map by simp
  ultimately show ?thesis unfolding demo_hits by auto
qed

text \<open>
  C10. \<open>Seek\<close> on a reader that stands at a serialized index, with any octets before and after it,
  returns the results of the pass over all references in the order of the references, without
  reading the index into memory as a whole, and leaves the reader right behind the index.
\<close>

theorem Seek_in_order:
  assumes "Size (int (length refs)) nodeSize = Inr sz" and "\<forall>r \<in> set refs. box_no_nan (ref_Box r)"
    and "New refs nodeSize = Inr prt" and "rd_data rs = pre @ Marshal prt @ post"
    and "rd_pos rs = int (length pre)" and "int (length pre) + sz \<le> MaxInt"
  shows "Seek rs (int (length refs)) nodeSize b =
    Some (Inr (linear_search refs b, rs\<lparr>rd_pos := int (length pre) + sz\<rparr>))"
  using New_query [OF assms(1,2)] Seek_hits [OF _ assms(1) _ assms(4,5), of _ b] assms(3,6)
  unfolding linear_search_def by auto

theorem Seek_in_order_witness:
  "\<exists>prt. New demo_refs 2 = Inr prt \<and>
     Seek \<lparr>rd_data = [7, 8] @ Marshal prt @ [9], rd_pos = 2\<rparr> 3 2 demo_box =
       Some (Inr (linear_search demo_refs demo_box,
                  \<lparr>rd_data = [7, 8] @ Marshal prt @ [9], rd_pos = 242\<rparr>))"
proof -
  obtain prt where prt: "New demo_refs 2 = Inr prt"
    using New_query [OF demo_size demo_no_nan] by blast
  have "length demo_refs = 3" by (simp add: demo_refs_def)
  with Seek_in_order [OF demo_size demo_no_nan prt,
      of "\<lparr>rd_data = [7, 8] @ Marshal prt @ [9], rd_pos = 2\<rparr>" "[7, 8]" "[9]" demo_box] prt
  show ?thesis by simp
qed

text \<open>
  C16. Round trip: \<open>Unmarshal\<close> on a reader that stands at what \<open>Marshal\<close> wrote gives back the same
  tree, and leaves the reader right behind it.
\<close>

theorem Unmarshal_inverts_Marshal:
  assumes "Size (int (length refs)) nodeSize = Inr sz" and "\<forall>r \<in> set refs. box_no_nan (ref_Box r)"
    and "New refs nodeSize = Inr prt" and "rd_data rs = pre @ Marshal prt @ post"
    and "rd_pos rs = int (length pre)"
  shows "Unmarshal rs (int (length refs)) nodeSize = Inr (prt, rs\<lparr>rd_pos := int (length pre) + sz\<rparr>)"
  using New_query [OF assms(1,2)] Unmarshal_Marshal [OF _ _ _ assms(1) _ _ assms(4,5)] assms(3) by auto

theorem Unmarshal_inverts_Marshal_witness:
  "\<exists>prt. New demo_refs 2 = Inr prt \<and>
     Unmarshal \<lparr>rd_data = [7] @ Marshal prt @ [9], rd_pos = 1\<rparr> 3 2 =
       Inr (prt, \<lparr>rd_data = [7] @ Marshal prt @ [9], rd_pos = 241\<rparr>)"
proof -
  obtain prt where prt: "New demo_refs 2 = Inr prt"
    using New_query [OF demo_size demo_no_nan] by blast
  have "length demo_refs = 3" by (simp add: demo_refs_def)
  with Unmarshal_inverts_Marshal [OF demo_size demo_no_nan prt,
      of "\<lparr>rd_data = [7] @ Marshal prt @ [9], rd_pos = 1\<rparr>" "[7]" "[9]"] prt
  show ?thesis by simp
qed

text \<open>
  C30. The loop of \<open>Size\<close> that climbs from the leaves to the root ends for every number of references
  that an \<^verbatim>\<open>int\<close> can hold and every node size that is allowed, none of its \<^verbatim>\<open>uint\<close> values wraps
  around, and \<open>Size\<close> is the exact size of the index in bytes or an error, the latter only if
  the size does not fit an \<^verbatim>\<open>int\<close>.
\<close>

theorem Size_terminates_in_range:
  assumes "1 \<le> numRefs" and "numRefs \<le> MaxInt" and "2 \<le> nodeSize"
  shows "\<exists>counts. levelCounts (nat numRefs) (unat nodeSize) = Some counts
    \<and> (\<forall>c \<in> set (nat numRefs # counts). int (c + unat nodeSize) < 2 ^ 64)
    \<and> int (sum_list counts) < 2 ^ 64
    \<and> (if (numRefs + int (sum_list counts)) * 40 \<le> MaxInt
       then Size numRefs nodeSize = Inr ((numRefs + int (sum_list counts)) * 40)
       else \<exists>e. Size numRefs nodeSize = Inl (PrtError e))"
proof -
  have n: "1 \<le> nat numRefs" "int (nat numRefs) = numRefs" "2 \<le> unat nodeSize"
    using assms by (simp_all add: word_le_nat_alt)
  obtain h cs where cs: "levelCounts (nat numRefs) (unat nodeSize) = Some cs"
      "cs = map (cnt (nat numRefs) (unat nodeSize)) [1..<Suc h]"
    using levelCounts_cnt [OF n(1,3)] by blast
  have sum: "sum_list cs < 2 * nat numRefs" using levelCounts_sum [OF n(1,3) cs(1)] .
  have total: "int (sum_list cs) < 2 * numRefs"
    using sum n(2) by linarith
  have small: "int (unat nodeSize) < 2 ^ 16" using unsigned_less [of nodeSize] by simp
  have "cnt (nat numRefs) (unat nodeSize) i \<le> nat numRefs" for i
    using n(3) by (simp add: cnt_le_iff)
  then have "c \<le> nat numRefs" if "c \<in> set (nat numRefs # cs)" for c
    using that unfolding cs(2) by auto
  then have "int (c + unat nodeSize) < 2 ^ 64" if "c \<in> set (nat numRefs # cs)" for c
    using that small assms(2) n(2) by fastforce
  moreover have "\<not> numRefs < 1" "\<not> nodeSize < 2" using assms by auto
  then have "Size numRefs nodeSize = size_bytes (nat numRefs) (unat nodeSize)"
    by (simp add: Size_def validateParams_def)
  then have "if (numRefs + int (sum_list cs)) * 40 \<le> MaxInt
       then Size numRefs nodeSize = Inr ((numRefs + int (sum_list cs)) * 40)
       else \<exists>e. Size numRefs nodeSize = Inl (PrtError e)"
    using assms(1) by (auto simp: size_bytes_def totalNodes_def cs(1))
  ultimately show ?thesis using cs(1) total assms(2) by (intro exI [of _ cs]) auto
qed

theorem Size_terminates_in_range_witness:
  "levelCounts 3 2 = Some [2, 1] \<and> Size 3 2 = Inr 240"
proof -
  have "levelCounts 3 2 = Some [2, 1]" by code_simp
  moreover have "unat (2 :: 16 word) = 2" by simp
  ultimately show ?thesis using Size_terminates_in_range [of 3 2] by (simp del: unat_numeral)
qed

text \<open>
  The box of the root, which \<open>Bounds\<close> returns, contains the box of every reference.
\<close>

theorem Bounds_contain_refs:
  assumes "Size (int (length refs)) nodeSize = Inr sz" and "\<forall>r \<in> set refs. box_no_nan (ref_Box r)"
  shows "\<exists>prt bounds. New refs nodeSize = Inr prt \<and> Bounds prt = Inr bounds
    \<and> NumRefs prt = int (length refs) \<and> NodeSize prt = nodeSize
    \<and> (\<forall>r \<in> set refs. box_in (ref_Box r) bounds)"
proof -
  let ?n = "length refs" and ?s = "unat nodeSize"
  obtain prt h where prt: "New refs nodeSize = Inr prt" "is_height ?n ?s h" "2 \<le> ?s"
      "prt_nodeSize prt = int ?s" "prt_numRefs prt = int ?n" "tree_ok ?n ?s h refs (prt_nodes prt)"
    using New_tree [OF assms] by blast
  let ?b = "ref_Box (prt_nodes prt ! 0)"
  have len: "length (prt_nodes prt) = numNodes ?n ?s h" and lev: "level_ok ?n ?s h refs (prt_nodes prt) h"
    using prt(6) by (auto simp: tree_ok_def)
  have n: "?n \<le> 1 * ?s ^ h" using prt(2,3) cnt_le_iff [of ?s ?n h 1] by (simp add: is_height_def)
  have "box_in (ref_Box (refs ! j)) ?b" if "j < ?n" for j
    using lev prt(2) that n unfolding level_ok_def is_height_def Let_def by simp
  then have "\<forall>r \<in> set refs. box_in (ref_Box r) ?b" by (auto simp: in_set_conv_nth)
  moreover have "0 < numNodes ?n ?s h" using start_end [of h h ?n ?s] prt(2) by (simp add: is_height_def)
  ultimately show ?thesis
    using prt(1,4,5) len by (auto simp: Bounds_def node_at_def NumRefs_def NodeSize_def)
qed

theorem Bounds_contain_refs_witness:
  "\<exists>prt bounds. New demo_refs 2 = Inr prt \<and> Bounds prt = Inr bounds
    \<and> (\<forall>r \<in> set demo_refs. box_in (ref_Box r) bounds)"
  using Bounds_contain_refs [OF demo_size demo_no_nan] by blast

text \<open>
  The hypothesis on NaN is needed: a box with NaN coordinates intersects every query, but it adds
  nothing to the box of its parent, so that the search never gets to it.
\<close>

definition nan_ref :: Ref where
  "nan_ref = \<lparr>ref_Box = \<lparr>XMin = 0x7FF8000000000001, YMin = 0x7FF8000000000001,
     XMax = 0x7FF8000000000001, YMax = 0x7FF8000000000001\<rparr>, ref_Offset = 0\<rparr>"

lemma Search_misses_nan:
  "length (linear_search [nan_ref] demo_box) = 1
   \<and> (case New [nan_ref] 2 of Inl _ \<Rightarrow> False | Inr prt \<Rightarrow> Search prt demo_box = Some (Inr []))"
  by code_simp

end
