(* ===== verification/Strconv.thy ===== *)
theory Strconv
  imports Float64
begin

text \<open>
  What the source uses of the packages \<^verbatim>\<open>strconv\<close> and \<^verbatim>\<open>strings\<close> of Go's standard library:
  \<open>ParseFloat\<close> with correct rounding, \<open>TrimSpace\<close>, and \<open>ToLower\<close> as far as it can meet an ASCII
  constant.
\<close>

section \<open>Rounding a fraction to \<^verbatim>\<open>float64\<close>\<close>

function bitlen :: "int \<Rightarrow> int" where
  "bitlen n = (if n \<le> 0 then 0 else 1 + bitlen (n div 2))"
  by pat_completeness auto
termination
  by (relation "measure nat") auto

declare bitlen.simps [simp del]

text \<open>The product of \<open>x\<close> with a power of two whose exponent is positive, and 1 times it otherwise.\<close>

definition scale_up :: "int \<Rightarrow> int \<Rightarrow> int" where
  "scale_up x e = (if 0 \<le> e then x * 2 ^ nat e else x)"

definition floor_log2 :: "int \<Rightarrow> int \<Rightarrow> int" where
  "floor_log2 p q =
     (let d = bitlen p - bitlen q in
      if scale_up q d \<le> scale_up p (- d) then d else d - 1)"

definition round_half_even :: "int \<Rightarrow> int \<Rightarrow> int" where
  "round_half_even p q =
     (let d = p div q; r = p mod q in
      if 2 * r < q then d else if q < 2 * r then d + 1 else if even d then d else d + 1)"

text \<open>
  The bits of the magnitude nearest to \<open>p / q\<close>, ties to even.  The unit in the last place is
  \<open>2 ^ e\<close>, at least \<open>2 ^ - 1074\<close>; the significand carries over into the exponent field.
\<close>

definition round_bits :: "int \<Rightarrow> int \<Rightarrow> int" where
  "round_bits p q =
     (if p = 0 then 0
      else let e = max (- 1074) (floor_log2 p q - 52) in
           round_half_even (scale_up p (- e)) (scale_up q e) + (e + 1074) * 2 ^ 52)"

section \<open>\<open>ParseFloat\<close>\<close>

definition lower_byte :: "byte \<Rightarrow> byte" where
  "lower_byte c = (if 65 \<le> c \<and> c \<le> 90 then c + 32 else c)"

definition is_digit :: "byte \<Rightarrow> bool" where
  "is_digit c \<longleftrightarrow> 48 \<le> c \<and> c \<le> 57"

definition is_hex_letter :: "byte \<Rightarrow> bool" where
  "is_hex_letter c \<longleftrightarrow> 97 \<le> lower_byte c \<and> lower_byte c \<le> 102"

definition digit_value :: "byte \<Rightarrow> int" where
  "digit_value c = (if is_digit c then uint c - 48 else uint (lower_byte c) - 87)"

fun take_sign :: "gostring \<Rightarrow> bool \<times> gostring" where
  "take_sign (c # s) = (if c = 43 then (False, s) else if c = 45 then (True, s) else (False, c # s))"
| "take_sign [] = (False, [])"

text \<open>Digits with at most one point: the number they form, how many follow the point, the rest.\<close>

record mantissa =
  m_value :: int
  m_frac :: int
  m_dot :: bool
  m_digits :: bool
  m_under :: bool

fun read_mantissa :: "bool \<Rightarrow> mantissa \<Rightarrow> gostring \<Rightarrow> mantissa \<times> gostring" where
  "read_mantissa hex m [] = (m, [])"
| "read_mantissa hex m (c # s) =
     (if c = 95 then read_mantissa hex (m\<lparr>m_under := True\<rparr>) s
      else if c = 46
      then (if m_dot m then (m, c # s) else read_mantissa hex (m\<lparr>m_dot := True\<rparr>) s)
      else if is_digit c \<or> hex \<and> is_hex_letter c
      then read_mantissa hex
             (m\<lparr>m_value := m_value m * (if hex then 16 else 10) + digit_value c,
                m_frac := m_frac m + (if m_dot m then 1 else 0), m_digits := True\<rparr>) s
      else (m, c # s))"

fun read_exponent :: "int \<Rightarrow> bool \<Rightarrow> gostring \<Rightarrow> int \<times> bool \<times> gostring" where
  "read_exponent e us [] = (e, us, [])"
| "read_exponent e us (c # s) =
     (if c = 95 then read_exponent e True s
      else if is_digit c
      then read_exponent (if e < 10000 then e * 10 + digit_value c else e) us s
      else (e, us, c # s))"

text \<open>Underscores separate digits; a base prefix counts as a digit.\<close>

datatype saw = SawStart | SawDigit | SawUnderscore | SawOther

fun underscoresFrom :: "bool \<Rightarrow> saw \<Rightarrow> gostring \<Rightarrow> bool" where
  "underscoresFrom hex w [] \<longleftrightarrow> w \<noteq> SawUnderscore"
| "underscoresFrom hex w (c # s) \<longleftrightarrow>
     (if is_digit c \<or> hex \<and> is_hex_letter c then underscoresFrom hex SawDigit s
      else if c = 95 then w = SawDigit \<and> underscoresFrom hex SawUnderscore s
      else w \<noteq> SawUnderscore \<and> underscoresFrom hex SawOther s)"

fun hex_prefix :: "gostring \<Rightarrow> bool" where
  "hex_prefix (a # b # c # s) \<longleftrightarrow> a = 48 \<and> lower_byte b = 120"
| "hex_prefix _ \<longleftrightarrow> False"

definition underscoreOK :: "gostring \<Rightarrow> bool" where
  "underscoreOK s =
     (let t = snd (take_sign s) in
      case t of
        a # b # u \<Rightarrow>
          if a = 48 \<and> lower_byte b \<in> {98, 111, 120}
          then underscoresFrom (lower_byte b = 120) SawDigit u
          else underscoresFrom False SawStart t
      | _ \<Rightarrow> underscoresFrom False SawStart t)"

text \<open>
  A number in Go's syntax as its sign and a fraction \<open>p / q\<close>, or \<open>None\<close> on a syntax error.
\<close>

definition fraction :: "int \<Rightarrow> int \<Rightarrow> int \<Rightarrow> int \<times> int" where
  "fraction base v e = (if 0 \<le> e then (v * base ^ nat e, 1) else (v, base ^ nat (- e)))"

definition finish_float ::
  "gostring \<Rightarrow> bool \<Rightarrow> bool \<Rightarrow> mantissa \<Rightarrow> bool \<Rightarrow> int \<Rightarrow> gostring \<Rightarrow> (bool \<times> int \<times> int) option" where
  "finish_float s neg hex m us e rest =
     (if rest \<noteq> [] \<or> us \<and> \<not> underscoreOK s then None
      else Some (neg, if hex then fraction 2 (m_value m) (e - 4 * m_frac m)
                      else fraction 10 (m_value m) (e - m_frac m)))"

definition readFloat :: "gostring \<Rightarrow> (bool \<times> int \<times> int) option" where
  "readFloat s =
     (case take_sign s of (neg, t) \<Rightarrow>
        let hex = hex_prefix t; u = (if hex then drop 2 t else t) in
        case read_mantissa hex \<lparr>m_value = 0, m_frac = 0, m_dot = False, m_digits = False, m_under = False\<rparr> u
        of (m, rest) \<Rightarrow>
          if \<not> m_digits m then None
          else (case rest of
                  [] \<Rightarrow> if hex then None else finish_float s neg hex m (m_under m) 0 []
                | c # r \<Rightarrow>
                    if lower_byte c = (if hex then 112 else 101)
                    then (case take_sign r of (eneg, ds) \<Rightarrow>
                            if ds = [] \<or> \<not> is_digit (hd ds) then None
                            else (case read_exponent 0 (m_under m) ds of (e, us, rest') \<Rightarrow>
                                    finish_float s neg hex m us (if eneg then - e else e) rest'))
                    else None))"

abbreviation f_nan :: float64 where "f_nan \<equiv> 0x7FF8000000000001"

definition special_float :: "gostring \<Rightarrow> float64 option" where
  "special_float s =
     (case take_sign s of (neg, t) \<Rightarrow>
        if map lower_byte t \<in> {lit ''inf'', lit ''infinity''} then Some (if neg then f_neginf else f_inf)
        else if map lower_byte s = lit ''nan'' then Some f_nan
        else None)"

text \<open>
  The value and whether there is no error.  A syntax error gives 0, a magnitude beyond the
  largest finite number gives an infinity, both with an error.
\<close>

definition ParseFloat :: "gostring \<Rightarrow> float64 \<times> bool" where
  "ParseFloat s =
     (case special_float s of
        Some f \<Rightarrow> (f, True)
      | None \<Rightarrow>
          (case readFloat s of
             None \<Rightarrow> (0, False)
           | Some (neg, p, q) \<Rightarrow>
               let bits = round_bits p q; ok = (bits < 0x7FF0000000000000);
                   mag = (if ok then word_of_int bits else f_inf)
               in (if neg then set_bit 63 mag else mag, ok)))"

section \<open>\<open>TrimSpace\<close> and \<open>ToLower\<close>\<close>

text \<open>The UTF-8 encodings of the characters that \<^verbatim>\<open>unicode.IsSpace\<close> accepts.\<close>

definition spaces :: "gostring list" where
  "spaces = map (\<lambda>c. [c]) [9, 10, 11, 12, 13, 32] @ [[0xC2, 0x85], [0xC2, 0xA0], [0xE1, 0x9A, 0x80]]
     @ map (\<lambda>c. [0xE2, 0x80, c]) [0x80, 0x81, 0x82, 0x83, 0x84, 0x85, 0x86, 0x87, 0x88, 0x89, 0x8A, 0xA8, 0xA9, 0xAF]
     @ [[0xE2, 0x81, 0x9F], [0xE3, 0x80, 0x80]]"

fun strip_prefix :: "gostring \<Rightarrow> gostring \<Rightarrow> gostring option" where
  "strip_prefix [] s = Some s"
| "strip_prefix (p # ps) [] = None"
| "strip_prefix (p # ps) (c # s) = (if p = c then strip_prefix ps s else None)"

fun strip_first :: "gostring list \<Rightarrow> gostring \<Rightarrow> gostring option" where
  "strip_first [] s = None"
| "strip_first (p # ps) s = (case strip_prefix p s of Some t \<Rightarrow> Some t | None \<Rightarrow> strip_first ps s)"

lemma strip_prefix_length: "strip_prefix p s = Some t \<Longrightarrow> length s = length p + length t"
  by (induction p s rule: strip_prefix.induct) (auto split: if_splits)

lemma strip_first_shorter:
  "strip_first ps s = Some t \<Longrightarrow> [] \<notin> set ps \<Longrightarrow> length t < length s"
  by (induction ps) (auto split: option.splits dest!: strip_prefix_length)

lemma spaces_nonempty: "[] \<notin> set spaces" "[] \<notin> set (map rev spaces)"
  by (simp_all add: spaces_def)

function trimLeft :: "gostring \<Rightarrow> gostring" where
  "trimLeft s = (case strip_first spaces s of None \<Rightarrow> s | Some t \<Rightarrow> trimLeft t)"
  by pat_completeness auto
termination
  by (relation "measure length") (use spaces_nonempty in \<open>auto dest!: strip_first_shorter\<close>)

function trimLeftRev :: "gostring \<Rightarrow> gostring" where
  "trimLeftRev s = (case strip_first (map rev spaces) s of None \<Rightarrow> s | Some t \<Rightarrow> trimLeftRev t)"
  by pat_completeness auto
termination
  by (relation "measure length") (use spaces_nonempty in \<open>auto dest!: strip_first_shorter\<close>)

declare trimLeft.simps [simp del] trimLeftRev.simps [simp del]

text \<open>
  No encoding of a space ends inside another character, so that trimming at the end is trimming
  the reversed bytes.
\<close>

definition TrimSpace :: "gostring \<Rightarrow> gostring" where
  "TrimSpace s = rev (trimLeftRev (rev (trimLeft s)))"

text \<open>
  \<open>ToLower\<close> where its result is ASCII.  Besides the ASCII letters, two characters have an ASCII
  lower case: U+0130 has i, and the Kelvin sign U+212A has k.  What is not ASCII afterwards is left
  alone, since the source compares the result with ASCII constants only.
\<close>

fun ToLower :: "gostring \<Rightarrow> gostring" where
  "ToLower (a # b # c # s) =
     (if a = 0xE2 \<and> b = 0x84 \<and> c = 0xAA then 107 # ToLower s
      else if a = 0xC4 \<and> b = 0xB0 then 105 # ToLower (c # s)
      else lower_byte a # ToLower (b # c # s))"
| "ToLower [a, b] = (if a = 0xC4 \<and> b = 0xB0 then [105] else [lower_byte a, lower_byte b])"
| "ToLower [a] = [lower_byte a]"
| "ToLower [] = []"

end
