(* ===== verification/Field_Values.thy ===== *)
theory Field_Values
  imports Strconv
begin

text \<open>
  Field values (\<^verbatim>\<open>internal/legacy/field/field.go\<close>): values with a kind, their order, their JSON text
  and how a value is recognized in a command argument.

  The packages \<^verbatim>\<open>gjson\<close> and \<^verbatim>\<open>pretty\<close> are not part of the sources: the record \<open>gjson_lib\<close> holds
  what the code calls, and every definition that calls them takes one.
\<close>

section \<open>Kinds and values\<close>

type_synonym Kind = byte

text \<open>The kinds in the order that the comment of \<open>LessCase\<close> gives.\<close>

abbreviation KNull :: Kind where "KNull \<equiv> 0"
abbreviation KFalse :: Kind where "KFalse \<equiv> 1"
abbreviation KNumber :: Kind where "KNumber \<equiv> 2"
abbreviation KString :: Kind where "KString \<equiv> 3"
abbreviation KTrue :: Kind where "KTrue \<equiv> 4"
abbreviation KJSON :: Kind where "KJSON \<equiv> 5"

record gjson_lib =
  gj_Valid :: "gostring \<Rightarrow> bool"
  gj_Type :: "gostring \<Rightarrow> Kind"
  gj_String :: "gostring \<Rightarrow> gostring"
  gj_Get :: "gostring \<Rightarrow> gostring \<Rightarrow> (Kind \<times> gostring) option"
  gj_AppendJSONString :: "gostring \<Rightarrow> gostring \<Rightarrow> gostring"
  pr_Ugly :: "gostring \<Rightarrow> gostring"

record Value =
  v_kind :: Kind
  v_data :: gostring
  v_num :: float64

definition ZeroValue :: Value where
  "ZeroValue = \<lparr>v_kind = KNumber, v_data = lit ''0'', v_num = 0\<rparr>"

text \<open>Equality of structs of type \<open>Value\<close>.\<close>

definition value_eq :: "Value \<Rightarrow> Value \<Rightarrow> bool" where
  "value_eq v w \<longleftrightarrow> v_kind v = v_kind w \<and> v_data v = v_data w \<and> f_eq (v_num v) (v_num w)"

definition IsZero :: "Value \<Rightarrow> bool" where
  "IsZero v \<longleftrightarrow>
     v_kind v = KNumber \<and> v_data v = lit ''0'' \<and> f_eq (v_num v) 0
     \<or> value_eq v \<lparr>v_kind = 0, v_data = [], v_num = 0\<rparr>"

section \<open>Order\<close>

definition is_upper :: "byte \<Rightarrow> bool" where
  "is_upper c \<longleftrightarrow> 65 \<le> c \<and> c \<le> 90"

fun stringLessInsensitive :: "gostring \<Rightarrow> gostring \<Rightarrow> bool" where
  "stringLessInsensitive (a # as) (b # bs) =
     (if is_upper a
      then (if is_upper b
            then (if a < b then True else if a > b then False else stringLessInsensitive as bs)
            else (if a + 32 < b then True else if a + 32 > b then False
                  else stringLessInsensitive as bs))
      else if is_upper b
      then (if a < b + 32 then True else if a > b + 32 then False else stringLessInsensitive as bs)
      else (if a < b then True else if a > b then False else stringLessInsensitive as bs))"
| "stringLessInsensitive as bs = (length as < length bs)"

definition LessCase :: "Value \<Rightarrow> Value \<Rightarrow> bool \<Rightarrow> bool" where
  "LessCase v b caseSensitive =
     (if v_kind v < v_kind b then True
      else if v_kind v > v_kind b then False
      else if v_kind v = KNumber then f_lt (v_num v) (v_num b)
      else if v_kind v = KString
      then (if caseSensitive then v_data v < v_data b
            else stringLessInsensitive (v_data v) (v_data b))
      else v_data v < v_data b)"

definition Less :: "Value \<Rightarrow> Value \<Rightarrow> bool" where
  "Less v b = LessCase v b False"

definition Equals :: "Value \<Rightarrow> Value \<Rightarrow> bool" where
  "Equals v b \<longleftrightarrow> \<not> Less v b \<and> \<not> Less b v"

definition Value_JSON :: "gjson_lib \<Rightarrow> Value \<Rightarrow> gostring" where
  "Value_JSON gj v =
     (if v_kind v = KNumber
      then (if v_data v = lit ''NaN'' then lit ''\"NaN\"''
            else if v_data v = lit ''+Inf'' then lit ''\"+Inf\"''
            else if v_data v = lit ''-Inf'' then lit ''\"-Inf\"''
            else v_data v)
      else if v_kind v = KString then gj_AppendJSONString gj [] (v_data v)
      else if v_kind v = KTrue then lit ''true''
      else if v_kind v = KFalse then lit ''false''
      else if v_kind v = KNull
      then (if \<not> value_eq v \<lparr>v_kind = 0, v_data = [], v_num = 0\<rparr> then lit ''null'' else lit ''0'')
      else if v_kind v = KJSON then v_data v
      else lit ''0'')"

section \<open>Fields\<close>

record Field =
  fd_name :: gostring
  fd_value :: Value

definition ZeroField :: Field where
  "ZeroField = \<lparr>fd_name = [], fd_value = ZeroValue\<rparr>"

definition Field_Weight :: "Field \<Rightarrow> int" where
  "Field_Weight f = int (length (fd_name f)) + 8 + int (length (v_data (fd_value f)))"

abbreviation inf_value :: "bool \<Rightarrow> Value" where
  "inf_value neg \<equiv>
     (if neg then \<lparr>v_kind = KNumber, v_data = lit ''-Inf'', v_num = f_neginf\<rparr>
      else \<lparr>v_kind = KNumber, v_data = lit ''+Inf'', v_num = f_inf\<rparr>)"

abbreviation nan_value :: Value where
  "nan_value \<equiv> \<lparr>v_kind = KNumber, v_data = lit ''NaN'', v_num = f_nan\<rparr>"

text \<open>The end of \<open>ValueOf\<close>: a string, unless it spells a special number.\<close>

definition stringValue :: "gostring \<Rightarrow> Value" where
  "stringValue data =
     (let str = \<lparr>v_kind = KString, v_data = data, v_num = 0\<rparr> in
      if 3 \<le> length data \<and> length data \<le> 9 \<and> hd data \<in> set (lit ''-+IiNn'')
      then (let low = ToLower data in
            if low = lit ''nan'' then nan_value
            else if low \<in> {lit ''inf'', lit ''+inf'', lit ''infinity'', lit ''+infinity''} then inf_value False
            else if low \<in> {lit ''-inf'', lit ''-infinity''} then inf_value True
            else str)
      else str)"

definition ValueOf :: "gjson_lib \<Rightarrow> gostring \<Rightarrow> Value" where
  "ValueOf gj arg =
     (let data = TrimSpace arg in
      case ParseFloat data of (num, ok) \<Rightarrow>
        if ok
        then (if f_eq num f_inf then inf_value False
              else if f_eq num f_neginf then inf_value True
              else if f_isnan num then nan_value
              else if gj_Valid gj data then \<lparr>v_kind = KNumber, v_data = data, v_num = num\<rparr>
              else stringValue data)
        else if gj_Valid gj data
        then (let data' = TrimSpace data; t = gj_Type gj data' in
              if t = KNull then \<lparr>v_kind = KNull, v_data = lit ''null'', v_num = 0\<rparr>
              else if t = KJSON then \<lparr>v_kind = KJSON, v_data = pr_Ugly gj data', v_num = 0\<rparr>
              else if t = KTrue then \<lparr>v_kind = KTrue, v_data = lit ''true'', v_num = 0\<rparr>
              else if t = KFalse then \<lparr>v_kind = KFalse, v_data = lit ''false'', v_num = 0\<rparr>
              else stringValue (gj_String gj data'))
        else stringValue data)"

definition Make :: "gjson_lib \<Rightarrow> gostring \<Rightarrow> gostring \<Rightarrow> Field" where
  "Make gj name data = \<lparr>fd_name = TrimSpace name, fd_value = ValueOf gj data\<rparr>"

section \<open>The order of values\<close>

text \<open>Case-insensitive comparison is lexicographic comparison of the strings in lower case.\<close>

lemma lower_byte_upper: "is_upper c \<Longrightarrow> lower_byte c = c + 32" "\<not> is_upper c \<Longrightarrow> lower_byte c = c"
  by (auto simp: lower_byte_def is_upper_def)

lemma upper_less_iff: "is_upper a \<Longrightarrow> is_upper b \<Longrightarrow> a + 32 < b + 32 \<longleftrightarrow> a < b"
  by (simp add: is_upper_def word_less_nat_alt word_le_nat_alt unat_word_ariths)

lemma stringLessInsensitive_lower:
  "stringLessInsensitive as bs \<longleftrightarrow> map lower_byte as < map lower_byte bs"
proof (induction as arbitrary: bs)
  case Nil
  then show ?case by (cases bs) auto
next
  case (Cons a as)
  then show ?case
    using upper_less_iff [of a "hd bs"] upper_less_iff [of "hd bs" a]
    by (cases bs; cases "is_upper a"; cases "is_upper (hd bs)") (auto simp: lower_byte_upper)
qed

text \<open>
  When two values are equal for \<open>Set\<close>: strings up to the case of ASCII letters, and a NaN equals
  every number.
\<close>

lemma Equals_iff:
  "Equals v w \<longleftrightarrow> v_kind v = v_kind w \<and>
     (if v_kind v = KNumber then f_isnan (v_num v) \<or> f_isnan (v_num w) \<or> f_key (v_num v) = f_key (v_num w)
      else if v_kind v = KString then map lower_byte (v_data v) = map lower_byte (v_data w)
      else v_data v = v_data w)"
  by (auto simp: Equals_def Less_def LessCase_def stringLessInsensitive_lower f_lt_def)

end
