(* ===== verification/Varint.thy ===== *)
theory Varint
  imports Prelude
begin

text \<open>
  Variable-length integers: \<^verbatim>\<open>PutUvarint\<close> and \<^verbatim>\<open>PutVarint\<close> of the standard library's
  \<^verbatim>\<open>encoding/binary\<close>, the decoders that \<^verbatim>\<open>internal/legacy/field\<close> and \<^verbatim>\<open>internal/legacy/object\<close> have
  of their own, and the round trips between them.
\<close>

unbundle bit_operations_syntax

section \<open>Decoders of the source\<close>

text \<open>The loop of both \<open>uvarint\<close> functions, from position \<open>i\<close> with the bits read so far.\<close>

fun uvarintLoop :: "nat \<Rightarrow> 64 word \<Rightarrow> byte list \<Rightarrow> 64 word \<times> nat" where
  "uvarintLoop i x [] = (0, 0)"
| "uvarintLoop i x (b # buf) =
     (if b < 0x80 then (x OR push_bit (i * 7) (ucast b), i + 1)
      else uvarintLoop (i + 1) (x OR push_bit (i * 7) (ucast (b AND 0x7f))) buf)"

text \<open>The decoder of object headers, and the one of field lists, which converts to \<^verbatim>\<open>int\<close>.\<close>

definition object_uvarint :: "gostring \<Rightarrow> 64 word \<times> nat" where
  "object_uvarint s = uvarintLoop 0 0 s"

definition varint :: "gostring \<Rightarrow> 64 word \<times> nat" where
  "varint s =
     (case object_uvarint s of (ux, n) \<Rightarrow>
        let x = drop_bit 1 ux in (if ux AND 1 \<noteq> 0 then NOT x else x, n))"

definition uvarint :: "byte list \<Rightarrow> int \<times> nat" where
  "uvarint buf = (case uvarintLoop 0 0 buf of (x, n) \<Rightarrow> (sint x, n))"

section \<open>Encoders of the standard library\<close>

function PutUvarint :: "64 word \<Rightarrow> byte list" where
  "PutUvarint x = (if 0x80 \<le> x then (ucast x OR 0x80) # PutUvarint (drop_bit 7 x) else [ucast x])"
  by pat_completeness auto
termination
proof (relation "measure unat")
  fix x :: "64 word"
  assume "0x80 \<le> x"
  then have "0 < unat x" by (simp add: word_le_nat_alt)
  then have "unat x div 2 ^ 7 < unat x" by (intro div_less_dividend) simp_all
  then show "(drop_bit 7 x, x) \<in> measure unat"
    unfolding in_measure unat_drop_bit_eq by (simp add: drop_bit_eq_div)
qed simp

declare PutUvarint.simps [simp del]

definition PutVarint :: "64 word \<Rightarrow> byte list" where
  "PutVarint x = (let ux = push_bit 1 x in PutUvarint (if x <s 0 then NOT ux else ux))"

section \<open>Round trips\<close>

lemma byte_less_0x80: "(b :: byte) < 0x80 \<longleftrightarrow> \<not> bit b 7"
proof -
  have "unat b < 2 ^ 8" using unsigned_less [of b] by simp
  moreover have "bit b 7 \<longleftrightarrow> odd (unat b div 2 ^ 7)"
    using bit_unsigned_iff [of b 7, where 'a = nat] by (simp add: bit_iff_odd [of "unat b"])
  moreover have "unat b div 2 ^ 7 = (if unat b < 2 ^ 7 then 0 else 1)" if "unat b < 2 ^ 8"
    using that by (auto intro: div_nat_eqI)
  ultimately show ?thesis by (simp add: word_less_nat_alt)
qed

lemma word_less_0x80: "(x :: 64 word) < 0x80 \<longleftrightarrow> drop_bit 7 x = 0"
proof -
  have "drop_bit 7 x = 0 \<longleftrightarrow> unat x div 2 ^ 7 = 0"
    unfolding unat_eq_0 [symmetric] unat_drop_bit_eq by (simp add: drop_bit_eq_div)
  then show ?thesis by (simp add: word_less_nat_alt div_eq_0_iff)
qed

lemma low_septet:
  "ucast ((ucast x OR 0x80) AND 0x7f :: byte) OR push_bit 7 (drop_bit 7 x) = (x :: 64 word)"
proof -
  have "(ucast x OR 0x80) AND 0x7f = take_bit 7 (ucast x :: byte)"
    using take_bit_eq_mask [of 7 "ucast x OR 0x80 :: byte"] by (simp add: mask_eq_exp_minus_1)
  moreover have "ucast (take_bit 7 (ucast x :: byte)) OR push_bit 7 (drop_bit 7 x) = x"
    by (rule bit_word_eqI, rename_tac n, case_tac "n < 7") (auto simp: bit_simps)
  ultimately show ?thesis by simp
qed

lemma uvarintLoop_PutUvarint:
  "uvarintLoop i acc (PutUvarint x @ rest) = (acc OR push_bit (i * 7) x, i + length (PutUvarint x))"
proof (induction x arbitrary: i acc rule: PutUvarint.induct)
  case (1 x)
  show ?case
  proof (cases "0x80 \<le> x")
    case True
    let ?b = "ucast x OR 0x80 :: byte"
    have b: "\<not> ?b < 0x80" by (simp add: byte_less_0x80 bit_simps)
    have bits: "push_bit (i * 7) (ucast (?b AND 0x7f)) OR push_bit ((i + 1) * 7) (drop_bit 7 x)
        = push_bit (i * 7) x"
      using arg_cong [OF low_septet, of "push_bit (i * 7)" x] by (simp add: ac_simps)
    have put: "PutUvarint x = ?b # PutUvarint (drop_bit 7 x)"
      using True by (simp add: PutUvarint.simps [of x])
    show ?thesis
      unfolding put append_Cons uvarintLoop.simps if_not_P [OF b] "1.IH" [OF True] or.assoc bits by simp
  next
    case False
    then have x: "drop_bit 7 x = 0" by (simp add: word_less_0x80 not_le)
    have x': "\<not> bit x n" if "7 \<le> n" for n
      using arg_cong [OF x, of "\<lambda>w. bit w (n - 7)"] that by (simp add: bit_simps)
    have "(ucast (ucast x :: byte) :: 64 word) = x"
      by (rule bit_word_eqI, rename_tac n, case_tac "n < 7") (use x' in \<open>auto simp: bit_simps\<close>)
    moreover have "(ucast x :: byte) < 0x80" using x' [of 7] by (simp add: byte_less_0x80 bit_simps)
    ultimately show ?thesis using False by (simp add: PutUvarint.simps [of x])
  qed
qed

lemma length_PutUvarint_pos: "0 < length (PutUvarint x)"
  by (simp add: PutUvarint.simps [of x])

lemma object_uvarint_PutUvarint:
  "object_uvarint (PutUvarint x @ rest) = (x, length (PutUvarint x))"
  by (simp add: object_uvarint_def uvarintLoop_PutUvarint)

lemma uvarint_PutUvarint [simp]:
  "n < 2 ^ 63 \<Longrightarrow> uvarint (PutUvarint (word_of_nat n) @ rest) = (int n, length (PutUvarint (word_of_nat n)))"
  by (simp add: uvarint_def uvarintLoop_PutUvarint signed_of_nat signed_take_bit_int_eq_self)

lemma uvarint_Nil [simp]: "uvarint [] = (0, 0)"
  by (simp add: uvarint_def)

text \<open>The encoder never needs more than the ten bytes that its callers provide.\<close>

lemma length_PutUvarint_le:
  "drop_bit (7 * k) x = 0 \<Longrightarrow> 0 < k \<Longrightarrow> length (PutUvarint x) \<le> k"
proof (induction k arbitrary: x)
  case (Suc k)
  show ?case
  proof (cases "0x80 \<le> x")
    case True
    then have "drop_bit 7 x \<noteq> 0" by (simp add: word_less_0x80 [symmetric] not_less)
    with Suc.prems(1) have "0 < k" by (cases k) auto
    with Suc.IH [of "drop_bit 7 x"] Suc.prems(1) have "length (PutUvarint (drop_bit 7 x)) \<le> k"
      by (simp add: add.commute)
    with True show ?thesis by (simp add: PutUvarint.simps [of x])
  qed (simp add: PutUvarint.simps [of x])
qed simp

lemma length_PutUvarint_10: "length (PutUvarint x) \<le> 10"
proof -
  have "drop_bit (7 * 10) x = 0" by (rule bit_word_eqI) (simp add: bit_simps)
  then show ?thesis by (intro length_PutUvarint_le) simp_all
qed

lemma word_neg_bit: "(x :: 64 word) <s 0 \<longleftrightarrow> bit x 63"
  using bit_last_iff [of x] by (simp add: word_sless_alt)

lemma varint_PutVarint: "varint (PutVarint x @ rest) = (x, length (PutVarint x))"
proof (cases "bit x 63")
  case True
  let ?u = "NOT (push_bit 1 x)"
  have "NOT (drop_bit 1 ?u) = x"
    using True by (intro bit_word_eqI, rename_tac n, case_tac "n = 63") (auto simp: bit_simps simp del: push_bit_Suc drop_bit_Suc)
  moreover have "bit (?u AND 1) 0" by (simp add: bit_simps del: push_bit_Suc)
  then have "?u AND 1 \<noteq> 0" by force
  ultimately show ?thesis
    using True by (simp add: varint_def PutVarint_def word_neg_bit object_uvarint_PutUvarint Let_def
        del: push_bit_Suc drop_bit_Suc)
next
  case False
  let ?u = "push_bit 1 x"
  have "drop_bit 1 ?u = x"
    using False by (intro bit_word_eqI, rename_tac n, case_tac "n = 63") (auto simp: bit_simps simp del: push_bit_Suc drop_bit_Suc)
  moreover have "?u AND 1 = 0" by (rule bit_word_eqI) (auto simp: bit_simps simp del: push_bit_Suc)
  ultimately show ?thesis
    using False by (simp add: varint_def PutVarint_def word_neg_bit object_uvarint_PutUvarint Let_def
        del: push_bit_Suc drop_bit_Suc)
qed

text \<open>A first byte of zero stands for the number zero only.\<close>

lemma PutUvarint_first:
  assumes "PutUvarint x = 0 # bs"
  shows "x = 0"
proof (cases "0x80 \<le> x")
  case True
  with assms have "ucast x OR 0x80 = (0 :: byte)" by (simp add: PutUvarint.simps [of x])
  then have "\<not> bit (ucast x OR 0x80 :: byte) 7" by simp
  then show ?thesis by (simp add: bit_simps)
next
  case False
  then have "ucast x = (0 :: byte)" and x: "drop_bit 7 x = 0"
    using assms by (simp_all add: PutUvarint.simps [of x] word_less_0x80 [symmetric])
  then have "x = push_bit 7 (drop_bit 7 x)" using low_septet [of x] by simp
  then show ?thesis using x by simp
qed

lemma PutVarint_first:
  assumes "PutVarint x = 0 # bs"
  shows "x = 0"
proof -
  obtain u where u: "PutVarint x = PutUvarint u" unfolding PutVarint_def Let_def by blast
  with assms PutUvarint_first [of u] have "PutVarint x = PutUvarint 0" by simp
  then have "fst (varint (PutVarint x @ [])) = fst (varint (PutUvarint 0))" by simp
  also have "\<dots> = 0" by (simp add: varint_def object_uvarint_def PutUvarint.simps [of 0])
  finally show ?thesis by (simp add: varint_PutVarint del: append_Nil2)
qed

end
