(* ===== verification/Field_List.thy ===== *)
theory Field_List
  imports Field_Values Varint
begin

text \<open>
  Field lists in their binary form (\<^verbatim>\<open>internal/legacy/field/list_binary.go\<close>) and the table of shared
  names (\<^verbatim>\<open>internal/legacy/sstring/sstring.go\<close>).

  A list is a pointer to its bytes: \<open>None\<close> is the nil pointer.  The bytes start with their own
  length; every entry is the number of a shared name, a kind, and for some kinds a length and
  data.  An index or a slice out of range is a panic value, and so is a read behind the allocation.

  The package \<^verbatim>\<open>hashmap\<close> is not part of the sources: the record \<open>hashmap_lib\<close> holds its two
  operations, and \<open>hashmap_laws\<close> states that a \<open>Get\<close> sees what the last \<open>Set\<close> of its key stored.
\<close>

section \<open>Shared strings\<close>

record 'm hashmap_lib =
  hm_Get :: "'m \<Rightarrow> gostring \<Rightarrow> int option"
  hm_Set :: "'m \<Rightarrow> gostring \<Rightarrow> int \<Rightarrow> 'm"

definition hashmap_laws :: "'m hashmap_lib \<Rightarrow> bool" where
  "hashmap_laws hm \<longleftrightarrow>
     (\<forall>m k v k'. hm_Get hm (hm_Set hm m k v) k' = (if k' = k then Some v else hm_Get hm m k'))"

record 'm sstring =
  nums :: 'm
  strs :: "gostring list"

datatype fl_error = FlIndex | FlSlice | FlFault | FlNoString

definition Load :: "gostring list \<Rightarrow> int \<Rightarrow> fl_error + gostring" where
  "Load ss num =
     (if 0 \<le> num \<and> num < int (length ss) then Inr (ss ! nat num) else Inl FlNoString)"

definition Store :: "'m hashmap_lib \<Rightarrow> 'm sstring \<Rightarrow> gostring \<Rightarrow> int \<times> 'm sstring" where
  "Store hm tab str =
     (case hm_Get hm (nums tab) str of
        Some num \<Rightarrow> (num, tab)
      | None \<Rightarrow>
          let num = int (length (strs tab)) in
          (num, tab\<lparr>strs := strs tab @ [str], nums := hm_Set hm (nums tab) str num\<rparr>))"

definition sstring_Len :: "'m sstring \<Rightarrow> int" where
  "sstring_Len tab = int (length (strs tab))"

section \<open>Reading entries\<close>

type_synonym List = "byte list option"

definition ptob :: "List \<Rightarrow> fl_error + byte list" where
  "ptob p =
     (case p of
        None \<Rightarrow> Inr []
      | Some bs \<Rightarrow>
          (case uvarint (take 10 bs) of (x, n) \<Rightarrow>
             if x < 0 then Inl FlSlice
             else if int (length bs) < int n + x then Inl FlFault
             else Inr (take (nat x) (drop n bs))))"

definition datakind :: "Kind \<Rightarrow> bool" where
  "datakind kind \<longleftrightarrow> kind = KNumber \<or> kind = KString \<or> kind = KJSON"

definition bfield :: "gostring \<Rightarrow> Kind \<Rightarrow> gostring \<Rightarrow> Field" where
  "bfield name kind data =
     (let num = (if kind = KNumber then fst (ParseFloat data) else 0);
          data' = (if kind = KNull then lit ''null''
                   else if kind = KFalse then lit ''false''
                   else if kind = KTrue then lit ''true''
                   else data)
      in \<lparr>fd_name = name, fd_value = \<lparr>v_kind = kind, v_data = data', v_num = num\<rparr>\<rparr>)"

text \<open>
  The part that the loops of \<open>Set\<close>, \<open>Get\<close> and \<open>Scan\<close> share: the entry at \<open>i\<close> with the position
  behind it, or \<open>None\<close> where the loop breaks.
\<close>

definition readData :: "byte list \<Rightarrow> nat \<Rightarrow> fl_error + (Kind \<times> gostring \<times> nat)" where
  "readData b i =
     (if length b \<le> i then Inl FlIndex
      else if datakind (b ! i)
      then (case uvarint (drop (i + 1) b) of (x, n) \<Rightarrow>
              if x < 0 \<or> int (length b) < int (i + 1 + n) + x then Inl FlSlice
              else Inr (b ! i, take (nat x) (drop (i + 1 + n) b), i + 1 + n + nat x))
      else Inr (b ! i, [], i + 1))"

definition readEntry ::
  "gostring list \<Rightarrow> byte list \<Rightarrow> nat \<Rightarrow> fl_error + (gostring \<times> Kind \<times> gostring \<times> nat) option" where
  "readEntry ss b i =
     (if length b < i then Inl FlSlice
      else case uvarint (drop i b) of (x, n) \<Rightarrow>
        if n = 0 then Inr None
        else bindE (Load ss x) (\<lambda>name.
             bindE (readData b (i + n)) (\<lambda>(kind, data, j). Inr (Some (name, kind, data, j)))))"

lemma readEntry_progress:
  "readEntry ss b i = Inr (Some (name, kind, data, j)) \<Longrightarrow> i < j \<and> j \<le> length b"
  by (auto simp: readEntry_def readData_def go_simps split: prod.splits if_splits)

section \<open>Writing entries\<close>

definition delfield :: "byte list \<Rightarrow> nat \<Rightarrow> nat \<Rightarrow> List" where
  "delfield b s e =
     (let totallen = s + (length b - e) in
      if totallen = 0 then None
      else Some (PutUvarint (word_of_nat totallen) @ take s b @ drop e b))"

definition putfield ::
  "'m hashmap_lib \<Rightarrow> 'm sstring \<Rightarrow> byte list \<Rightarrow> Field \<Rightarrow> nat \<Rightarrow> nat \<Rightarrow> List \<times> 'm sstring" where
  "putfield hm tab b f s e =
     (case Store hm tab (fd_name f) of (num, tab') \<Rightarrow>
        let namesz = PutUvarint (word_of_int num);
            kind = v_kind (fd_value f);
            isdatakind = datakind kind;
            data = (if isdatakind then v_data (fd_value f) else []);
            datasz = (if isdatakind then PutUvarint (word_of_nat (length data)) else []);
            totallen = s + length namesz + 1 + (length b - e)
                       + (if isdatakind then length datasz + length data else 0)
        in (Some (PutUvarint (word_of_nat totallen) @ take s b @ namesz @ [kind]
                  @ (if isdatakind then datasz @ data else []) @ drop e b), tab'))"

section \<open>Operations on lists\<close>

text \<open>
  The loop of \<open>Set\<close>: the range of the entry with the name of the field and its value, or the
  position where a new entry goes.
\<close>

function setLoop ::
  "gostring list \<Rightarrow> byte list \<Rightarrow> gostring \<Rightarrow> nat \<Rightarrow> fl_error + (nat \<times> nat \<times> Field option)" where
  "setLoop ss b fname i =
     (case readEntry ss b i of
        Inl e \<Rightarrow> Inl e
      | Inr None \<Rightarrow> Inr (i, i, None)
      | Inr (Some (name, kind, data, j)) \<Rightarrow>
          if fname < name then Inr (i, i, None)
          else if name = fname then Inr (i, j, Some (bfield name kind data))
          else setLoop ss b fname j)"
  by pat_completeness auto
termination
  by (relation "measure (\<lambda>(ss, b, fname, i). length b - i)") (auto dest: readEntry_progress)

declare setLoop.simps [simp del]

definition List_Set :: "'m hashmap_lib \<Rightarrow> 'm sstring \<Rightarrow> List \<Rightarrow> Field \<Rightarrow> fl_error + (List \<times> 'm sstring)" where
  "List_Set hm tab fl field =
     bindE (ptob fl) (\<lambda>b.
     bindE (setLoop (strs tab) b (fd_name field) 0) (\<lambda>(s, e, found).
       case found of
         Some prev \<Rightarrow>
           if IsZero (fd_value field) then Inr (delfield b s e, tab)
           else if Equals (fd_value prev) (fd_value field) then Inr (fl, tab)
           else Inr (putfield hm tab b field s e)
       | None \<Rightarrow>
           if IsZero (fd_value field) then Inr (fl, tab)
           else Inr (putfield hm tab b field s s)))"

text \<open>A name with a dot may name a path into a JSON field.\<close>

definition split_dot :: "gostring \<Rightarrow> (gostring \<times> gostring) option" where
  "split_dot name =
     (if 46 \<in> set name
      then Some (takeWhile (\<lambda>c. c \<noteq> 46) name, tl (dropWhile (\<lambda>c. c \<noteq> 46) name))
      else None)"

function getLoop ::
  "gjson_lib \<Rightarrow> gostring list \<Rightarrow> byte list \<Rightarrow> gostring \<Rightarrow> (gostring \<times> gostring) option \<Rightarrow> nat
     \<Rightarrow> fl_error + Field" where
  "getLoop gj ss b name jn i =
     (case readEntry ss b i of
        Inl e \<Rightarrow> Inl e
      | Inr None \<Rightarrow> Inr ZeroField
      | Inr (Some (fname, kind, data, j)) \<Rightarrow>
          if kind = KJSON \<and> jn \<noteq> None
          then (let jname = fst (the jn); jpath = snd (the jn) in
                if jname < fname then Inr ZeroField
                else if fname = jname
                then (case gj_Get gj data jpath of
                        Some (t, str) \<Rightarrow> Inr (bfield name t str)
                      | None \<Rightarrow> getLoop gj ss b name jn j)
                else getLoop gj ss b name jn j)
          else if name < fname then Inr ZeroField
          else if fname = name then Inr (bfield name kind data)
          else getLoop gj ss b name jn j)"
  by pat_completeness auto
termination
  by (relation "measure (\<lambda>(gj, ss, b, name, jn, i). length b - i)") (auto dest: readEntry_progress)

declare getLoop.simps [simp del]

definition List_Get :: "gjson_lib \<Rightarrow> gostring list \<Rightarrow> List \<Rightarrow> gostring \<Rightarrow> fl_error + Field" where
  "List_Get gj ss fl name =
     bindE (ptob fl) (\<lambda>b. getLoop gj ss b name (split_dot name) 0)"

text \<open>\<open>Scan\<close> hands one field after the other to the callback, which may stop it.\<close>

function scanLoop ::
  "gostring list \<Rightarrow> byte list \<Rightarrow> (Field \<Rightarrow> 's \<Rightarrow> bool \<times> 's) \<Rightarrow> 's \<Rightarrow> nat \<Rightarrow> fl_error + 's" where
  "scanLoop ss b iter st i =
     (case readEntry ss b i of
        Inl e \<Rightarrow> Inl e
      | Inr None \<Rightarrow> Inr st
      | Inr (Some (fname, kind, data, j)) \<Rightarrow>
          if fst (iter (bfield fname kind data) st)
          then scanLoop ss b iter (snd (iter (bfield fname kind data) st)) j
          else Inr (snd (iter (bfield fname kind data) st)))"
  by pat_completeness auto
termination
  by (relation "measure (\<lambda>(ss, b, iter, st, i). length b - i)") (auto dest: readEntry_progress)

declare scanLoop.simps [simp del]

definition List_Scan ::
  "gostring list \<Rightarrow> List \<Rightarrow> (Field \<Rightarrow> 's \<Rightarrow> bool \<times> 's) \<Rightarrow> 's \<Rightarrow> fl_error + 's" where
  "List_Scan ss fl iter st = bindE (ptob fl) (\<lambda>b. scanLoop ss b iter st 0)"

text \<open>\<open>Len\<close> skips over names and data without loading them.\<close>

definition skipEntry :: "byte list \<Rightarrow> nat \<Rightarrow> fl_error + int option" where
  "skipEntry b i =
     (case uvarint (drop i b) of (x, n) \<Rightarrow>
        if n = 0 then Inr None
        else if length b \<le> i + n then Inl FlIndex
        else if datakind (b ! (i + n))
        then (case uvarint (drop (i + n + 1) b) of (x', n') \<Rightarrow> Inr (Some (int (i + n + 1 + n') + x')))
        else Inr (Some (int (i + n + 1))))"

partial_function (option) lenLoop :: "byte list \<Rightarrow> int \<Rightarrow> int \<Rightarrow> (fl_error + int) option" where
  "lenLoop b i count =
     (if i < 0 \<or> int (length b) < i then Some (Inl FlSlice)
      else case skipEntry b (nat i) of
        Inl e \<Rightarrow> Some (Inl e)
      | Inr None \<Rightarrow> Some (Inr count)
      | Inr (Some j) \<Rightarrow> lenLoop b j (count + 1))"

declare lenLoop.simps [code]

definition List_Len :: "List \<Rightarrow> (fl_error + int) option" where
  "List_Len fl = (case ptob fl of Inl e \<Rightarrow> Some (Inl e) | Inr b \<Rightarrow> lenLoop b 0 0)"

definition List_Weight :: "List \<Rightarrow> int" where
  "List_Weight fl =
     (case fl of None \<Rightarrow> 0 | Some bs \<Rightarrow> (case uvarint (take 10 bs) of (x, n) \<Rightarrow> x + int n))"

definition MakeList :: "'m hashmap_lib \<Rightarrow> 'm sstring \<Rightarrow> Field list \<Rightarrow> fl_error + (List \<times> 'm sstring)" where
  "MakeList hm tab fl =
     foldE (\<lambda>f (list, tab). List_Set hm tab list f) fl (None, tab)"

text \<open>One call of the callback of \<open>String\<close>: the bytes written so far and the number of fields.\<close>

definition appendField :: "gjson_lib \<Rightarrow> Field \<Rightarrow> gostring \<times> nat \<Rightarrow> bool \<times> gostring \<times> nat" where
  "appendField gj f = (\<lambda>(dst, i).
     let dst1 = (if 0 < i then dst @ lit '','' else dst);
         dst2 = gj_AppendJSONString gj dst1 (fd_name f) @ lit '':''
     in (True, dst2 @ Value_JSON gj (fd_value f), i + 1))"

definition List_String :: "gjson_lib \<Rightarrow> gostring list \<Rightarrow> List \<Rightarrow> fl_error + gostring" where
  "List_String gj ss fl =
     bindE (List_Scan ss fl (appendField gj) (lit ''{'', 0))
       (\<lambda>(dst, _). Inr (pr_Ugly gj (dst @ lit ''}'')))"

end
