(* ===== verification/Field_List_Refine.thy ===== *)
theory Field_List_Refine
  imports Field_List
begin

text \<open>
  The binary field list implements an association list that is sorted by name.  The relation
  \<open>list_rel\<close> ties the bytes to the abstract list; \<open>Set\<close>, \<open>Get\<close>, \<open>Scan\<close> and \<open>Len\<close> are shown to
  compute what the abstract list says, for every state of the table of shared names.
\<close>

section \<open>The abstract list\<close>

type_synonym entries = "(gostring \<times> Value) list"

definition before :: "gostring \<Rightarrow> gostring \<times> Value \<Rightarrow> bool" where
  "before nm = (\<lambda>(n, v). n < nm)"

definition spec_set :: "gostring \<Rightarrow> Value \<Rightarrow> entries \<Rightarrow> entries" where
  "spec_set nm v es =
     (let new = (if IsZero v then [] else [(nm, v)]); es1 = takeWhile (before nm) es in
      case dropWhile (before nm) es of
        [] \<Rightarrow> es1 @ new
      | (n, w) # rest \<Rightarrow>
          if n \<noteq> nm then es1 @ new @ (n, w) # rest
          else if IsZero v then es1 @ rest
          else if Equals w v then es
          else es1 @ new @ rest)"

definition spec_get :: "gostring \<Rightarrow> entries \<Rightarrow> Field" where
  "spec_get nm es =
     (case map_of es nm of None \<Rightarrow> ZeroField | Some v \<Rightarrow> \<lparr>fd_name = nm, fd_value = v\<rparr>)"

text \<open>A value that is determined by what the binary form keeps of it.\<close>

definition stored_data :: "Value \<Rightarrow> gostring" where
  "stored_data v = (if datakind (v_kind v) then v_data v else [])"

definition value_ok :: "Value \<Rightarrow> bool" where
  "value_ok v \<longleftrightarrow> fd_value (bfield [] (v_kind v) (stored_data v)) = v"

definition entries_ok :: "entries \<Rightarrow> bool" where
  "entries_ok es \<longleftrightarrow> sorted_wrt (<) (map fst es)
     \<and> (\<forall>(n, v) \<in> set es. value_ok v \<and> \<not> IsZero v \<and> length (v_data v) < 2 ^ 63)"

section \<open>Bytes and entries\<close>

definition enc_entry :: "nat \<Rightarrow> Value \<Rightarrow> byte list" where
  "enc_entry num v = PutUvarint (word_of_nat num) @ v_kind v #
     (if datakind (v_kind v) then PutUvarint (word_of_nat (length (v_data v))) @ v_data v else [])"

fun encodes :: "gostring list \<Rightarrow> entries \<Rightarrow> byte list \<Rightarrow> bool" where
  "encodes ss [] b \<longleftrightarrow> b = []"
| "encodes ss ((nm, v) # es) b \<longleftrightarrow>
     (\<exists>num b'. num < length ss \<and> ss ! num = nm \<and> b = enc_entry num v @ b' \<and> encodes ss es b')"

definition list_rel :: "gostring list \<Rightarrow> List \<Rightarrow> entries \<Rightarrow> bool" where
  "list_rel ss fl es \<longleftrightarrow> entries_ok es \<and> length ss < 2 ^ 63 \<and>
     (case fl of
        None \<Rightarrow> es = []
      | Some bs \<Rightarrow> es \<noteq> [] \<and> (\<exists>b. encodes ss es b \<and> length b < 2 ^ 63
                                  \<and> bs = PutUvarint (word_of_nat (length b)) @ b))"

lemma encodes_append:
  "encodes ss es1 b1 \<Longrightarrow> encodes ss es2 b2 \<Longrightarrow> encodes ss (es1 @ es2) (b1 @ b2)"
  by (induction ss es1 b1 rule: encodes.induct) fastforce+

lemma encodes_more: "encodes ss es b \<Longrightarrow> encodes (ss @ ext) es b"
  by (induction ss es b rule: encodes.induct) (fastforce simp: nth_append)+

lemma length_enc_entry: "0 < length (enc_entry num v)" "length (enc_entry num v) \<le> 21 + length (v_data v)"
  using length_PutUvarint_10 [of "word_of_nat num"]
    length_PutUvarint_10 [of "word_of_nat (length (v_data v))"] length_PutUvarint_pos [of "word_of_nat num"]
  by (auto simp: enc_entry_def)

lemma encodes_nonempty: "encodes ss es b \<Longrightarrow> es \<noteq> [] \<longleftrightarrow> b \<noteq> []"
  using length_enc_entry(1) by (cases es) fastforce+

lemma ptob_header:
  assumes "length b < 2 ^ 63"
  shows "ptob (Some (PutUvarint (word_of_nat (length b)) @ b)) = Inr b"
proof -
  let ?h = "PutUvarint (word_of_nat (length b))"
  have "take 10 (?h @ b) = ?h @ take (10 - length ?h) b" using length_PutUvarint_10 by simp
  then show ?thesis using assms by (simp add: ptob_def)
qed

lemma list_rel_ptob: "list_rel ss fl es \<Longrightarrow> \<exists>b. ptob fl = Inr b \<and> encodes ss es b \<and> length b < 2 ^ 63"
  by (auto simp: list_rel_def ptob_header split: option.splits) (simp add: ptob_def)

text \<open>Reading an entry that was written.\<close>

lemma readEntry_end: "readEntry ss b (length b) = Inr None"
  by (simp add: readEntry_def)

lemma readEntry_entry:
  assumes "num < length ss" and "length ss < 2 ^ 63" and "length (v_data v) < 2 ^ 63"
  shows "readEntry ss (pre @ enc_entry num v @ post) (length pre) =
    Inr (Some (ss ! num, v_kind v, stored_data v, length pre + length (enc_entry num v)))"
proof -
  let ?n = "PutUvarint (word_of_nat num)" and ?d = "PutUvarint (word_of_nat (length (v_data v)))"
  let ?tail = "(if datakind (v_kind v) then ?d @ v_data v else []) @ post"
  let ?b = "pre @ ?n @ v_kind v # ?tail"
  have b: "pre @ enc_entry num v @ post = ?b" by (simp add: enc_entry_def)
  have "uvarint (drop (length pre) ?b) = (int num, length ?n)" using assms(1,2) by simp
  moreover have "readData ?b (length pre + length ?n)
      = Inr (v_kind v, stored_data v, length pre + length (enc_entry num v))"
    using assms(3) by (simp add: readData_def enc_entry_def stored_data_def nth_append)
  ultimately show ?thesis
    unfolding b using assms(1) length_PutUvarint_pos [of "word_of_nat num"]
    by (simp add: readEntry_def Load_def)
qed

lemma value_ok_bfield: "value_ok v \<Longrightarrow> bfield nm (v_kind v) (stored_data v) = \<lparr>fd_name = nm, fd_value = v\<rparr>"
  by (simp add: value_ok_def bfield_def Let_def)

lemma readEntry_encodes:
  assumes "encodes ss ((nm, v) # es) b" and "entries_ok ((nm, v) # es)" and "length ss < 2 ^ 63"
  shows "\<exists>num b'. num < length ss \<and> ss ! num = nm \<and> b = enc_entry num v @ b' \<and> encodes ss es b' \<and>
    readEntry ss (pre @ b) (length pre) =
      Inr (Some (nm, v_kind v, stored_data v, length (pre @ enc_entry num v)))"
  using assms readEntry_entry [of _ ss v pre] by (auto simp: entries_ok_def)

lemma entries_ok_Cons: "entries_ok (e # es) \<Longrightarrow> entries_ok es"
  by (auto simp: entries_ok_def)

lemma bfield_entries_ok:
  "entries_ok ((nm, v) # es) \<Longrightarrow> bfield n (v_kind v) (stored_data v) = \<lparr>fd_name = n, fd_value = v\<rparr>"
  by (auto simp: entries_ok_def value_ok_bfield)

section \<open>\<open>Set\<close>\<close>

text \<open>What \<open>setLoop\<close> finds: the entries before the name, and the entry with the name if there is one.\<close>

definition set_place ::
  "gostring list \<Rightarrow> nat \<Rightarrow> gostring \<Rightarrow> entries \<Rightarrow> byte list \<Rightarrow> fl_error + (nat \<times> nat \<times> Field option) \<Rightarrow> bool" where
  "set_place ss i nm es b r \<longleftrightarrow>
     (\<exists>b1 b2. b = b1 @ b2 \<and> encodes ss (takeWhile (before nm) es) b1 \<and>
        (case dropWhile (before nm) es of
           [] \<Rightarrow> b2 = [] \<and> r = Inr (i + length b1, i + length b1, None)
         | (n, v) # rest \<Rightarrow>
             if n = nm
             then \<exists>num b3. b2 = enc_entry num v @ b3 \<and> encodes ss rest b3
                  \<and> r = Inr (i + length b1, i + length b1 + length (enc_entry num v),
                             Some \<lparr>fd_name = nm, fd_value = v\<rparr>)
             else encodes ss ((n, v) # rest) b2 \<and> r = Inr (i + length b1, i + length b1, None)))"

lemma set_place_skip:
  assumes "set_place ss (i + length (enc_entry num v)) nm es b r" and "n < nm"
    and "num < length ss" "ss ! num = n"
  shows "set_place ss i nm ((n, v) # es) (enc_entry num v @ b) r"
proof -
  obtain b1 b2 where B: "b = b1 @ b2" "encodes ss (takeWhile (before nm) es) b1"
    and rest: "case dropWhile (before nm) es of
       [] \<Rightarrow> b2 = [] \<and> r = Inr (i + length (enc_entry num v @ b1), i + length (enc_entry num v @ b1), None)
     | (n, v') # rest \<Rightarrow>
         if n = nm
         then \<exists>num' b3. b2 = enc_entry num' v' @ b3 \<and> encodes ss rest b3
              \<and> r = Inr (i + length (enc_entry num v @ b1), i + length (enc_entry num v @ b1) + length (enc_entry num' v'),
                         Some \<lparr>fd_name = nm, fd_value = v'\<rparr>)
         else encodes ss ((n, v') # rest) b2
              \<and> r = Inr (i + length (enc_entry num v @ b1), i + length (enc_entry num v @ b1), None)"
    using assms(1) unfolding set_place_def length_append add.assoc by blast
  have "takeWhile (before nm) ((n, v) # es) = (n, v) # takeWhile (before nm) es"
    "dropWhile (before nm) ((n, v) # es) = dropWhile (before nm) es"
    using assms(2) by (simp_all add: before_def)
  moreover have "encodes ss ((n, v) # takeWhile (before nm) es) (enc_entry num v @ b1)"
    using assms(3,4) B(2) by auto
  ultimately show ?thesis
    unfolding set_place_def using B(1) rest
    by (intro exI [of _ "enc_entry num v @ b1"] exI [of _ b2]) (simp only: append_assoc simp_thms)
qed

lemma setLoop_place:
  assumes "length ss < 2 ^ 63"
  shows "encodes ss es b \<Longrightarrow> entries_ok es \<Longrightarrow>
    set_place ss (length pre) nm es b (setLoop ss (pre @ b) nm (length pre))"
proof (induction es arbitrary: pre b)
  case Nil
  then show ?case by (simp add: set_place_def setLoop.simps readEntry_end [of ss pre, simplified])
next
  case (Cons e es)
  obtain n v where e: "e = (n, v)" by (cases e)
  obtain num b' where b': "num < length ss" "ss ! num = n" "b = enc_entry num v @ b'" "encodes ss es b'"
    "readEntry ss (pre @ b) (length pre) =
      Inr (Some (n, v_kind v, stored_data v, length (pre @ enc_entry num v)))"
    using readEntry_encodes [OF Cons.prems [unfolded e] assms] by blast
  consider "nm < n" | "n = nm" | "n < nm" by (metis linorder_neqE)
  then show ?case
  proof cases
    case 1
    then show ?thesis
      using b' Cons.prems(1) unfolding set_place_def e
      by (intro exI [of _ "[]"] exI [of _ b]) (auto simp: setLoop.simps before_def)
  next
    case 2
    then have "setLoop ss (pre @ b) nm (length pre)
        = Inr (length pre, length pre + length (enc_entry num v), Some \<lparr>fd_name = nm, fd_value = v\<rparr>)"
      using b'(5) bfield_entries_ok [OF Cons.prems(2) [unfolded e], of nm]
      by (simp add: setLoop.simps [of ss "pre @ b"])
    with 2 b'(3,4) show ?thesis
      unfolding set_place_def e
      by (intro exI [of _ "[]"] exI [of _ b])
         (simp add: before_def, intro exI [of _ num] exI [of _ b'], simp)
  next
    case 3
    then have step: "setLoop ss (pre @ b) nm (length pre)
        = setLoop ss ((pre @ enc_entry num v) @ b') nm (length (pre @ enc_entry num v))"
      using b'(3,5) by (subst setLoop.simps) auto
    have "set_place ss (length (pre @ enc_entry num v)) nm es b' (setLoop ss (pre @ b) nm (length pre))"
      unfolding step by (rule Cons.IH [OF b'(4) entries_ok_Cons [OF Cons.prems(2)]])
    with set_place_skip [OF _ 3 b'(1,2)] show ?thesis unfolding e b'(3) by simp
  qed
qed

section \<open>The table of names\<close>

definition table_ok :: "'m hashmap_lib \<Rightarrow> 'm sstring \<Rightarrow> bool" where
  "table_ok hm tab \<longleftrightarrow>
     (\<forall>s n. hm_Get hm (nums tab) s = Some n
        \<longleftrightarrow> 0 \<le> n \<and> n < int (length (strs tab)) \<and> strs tab ! nat n = s)"

lemma Store_ok:
  assumes "hashmap_laws hm" and "table_ok hm tab" and "Store hm tab s = (num, tab')"
  shows "table_ok hm tab'" and "0 \<le> num" "num < int (length (strs tab'))" "strs tab' ! nat num = s"
    and "\<exists>ext. strs tab' = strs tab @ ext \<and> length ext \<le> 1"
proof -
  have "table_ok hm tab' \<and> 0 \<le> num \<and> num < int (length (strs tab')) \<and> strs tab' ! nat num = s
    \<and> (\<exists>ext. strs tab' = strs tab @ ext \<and> length ext \<le> 1)"
  proof (cases "hm_Get hm (nums tab) s")
    case None
    have tab': "num = int (length (strs tab))" "strs tab' = strs tab @ [s]"
        "nums tab' = hm_Set hm (nums tab) s num"
      using None assms(3) by (auto simp: Store_def Let_def)
    moreover have get: "hm_Get hm (nums tab') t = (if t = s then Some num else hm_Get hm (nums tab) t)" for t
      using assms(1) unfolding tab'(3) hashmap_laws_def by simp
    have "hm_Get hm (nums tab') t = Some n
        \<longleftrightarrow> 0 \<le> n \<and> n < int (length (strs tab')) \<and> strs tab' ! nat n = t" for t n
    proof (cases "n = int (length (strs tab))")
      case True
      with assms(2) show ?thesis by (auto simp: get tab'(1,2) table_ok_def)
    next
      case False
      then have "0 \<le> n \<and> n < int (length (strs tab')) \<and> strs tab' ! nat n = t
          \<longleftrightarrow> 0 \<le> n \<and> n < int (length (strs tab)) \<and> strs tab ! nat n = t"
        by (auto simp: tab'(2) nth_append)
      also have "\<dots> \<longleftrightarrow> hm_Get hm (nums tab) t = Some n" using assms(2) by (simp add: table_ok_def)
      finally show ?thesis using False None tab'(1) by (auto simp: get)
    qed
    ultimately show ?thesis by (simp add: table_ok_def)
  next
    case (Some n)
    with assms show ?thesis by (auto simp: Store_def table_ok_def)
  qed
  then show "table_ok hm tab'" and "0 \<le> num" "num < int (length (strs tab'))" "strs tab' ! nat num = s"
    and "\<exists>ext. strs tab' = strs tab @ ext \<and> length ext \<le> 1" by auto
qed

section \<open>Updates of the abstract list\<close>

lemma takeWhile_before: "\<forall>e \<in> set (takeWhile (before nm) es). fst e < nm"
  by (auto simp: before_def dest: set_takeWhileD)

lemma dropWhile_before:
  assumes "sorted_wrt (<) (map fst es)" and "e \<in> set (dropWhile (before nm) es)"
  shows "nm \<le> fst e"
  using assms
proof (induction es)
  case (Cons a es)
  show ?case
  proof (cases "before nm a")
    case False
    then have "nm \<le> fst a" by (cases a) (simp add: before_def)
    moreover have "fst a \<le> fst e" using Cons.prems False by (auto intro: less_imp_le)
    ultimately show ?thesis by simp
  qed (use Cons in simp)
qed simp

text \<open>The entries before, at and after the position of a name.\<close>

definition split_at :: "gostring \<Rightarrow> entries \<Rightarrow> entries \<Rightarrow> entries \<Rightarrow> entries \<Rightarrow> bool" where
  "split_at nm es es1 mid es2 \<longleftrightarrow>
     es = es1 @ mid @ es2 \<and> takeWhile (before nm) es = es1 \<and> dropWhile (before nm) es = mid @ es2
     \<and> (mid = [] \<or> (\<exists>w. mid = [(nm, w)]))
     \<and> (\<forall>e \<in> set es1. fst e < nm) \<and> (\<forall>e \<in> set es2. nm < fst e)
     \<and> (\<forall>v. spec_set nm v es =
          (if mid \<noteq> [] \<and> \<not> IsZero v \<and> Equals (snd (hd mid)) v then es
           else es1 @ (if IsZero v then [] else [(nm, v)]) @ es2))"

lemma spec_set_found:
  "dropWhile (before nm) es = (nm, w) # es2 \<Longrightarrow> spec_set nm v es =
     (if \<not> IsZero v \<and> Equals w v then es
      else takeWhile (before nm) es @ (if IsZero v then [] else [(nm, v)]) @ es2)"
  by (simp add: spec_set_def)

lemma spec_set_new:
  "\<forall>e \<in> set (dropWhile (before nm) es). nm < fst e \<Longrightarrow> spec_set nm v es =
     takeWhile (before nm) es @ (if IsZero v then [] else [(nm, v)]) @ dropWhile (before nm) es"
  by (cases "dropWhile (before nm) es") (auto simp: spec_set_def Let_def simp del: dropWhile_eq_Nil_conv)

lemma split_entries:
  assumes "entries_ok es"
  shows "\<exists>es1 mid es2. split_at nm es es1 mid es2"
proof -
  let ?es1 = "takeWhile (before nm) es" and ?d = "dropWhile (before nm) es"
  have sorted: "sorted_wrt (<) (map fst es)" using assms by (simp add: entries_ok_def)
  have split: "?es1 @ ?d = es" by simp
  have "sorted_wrt (<) (map fst (?es1 @ ?d))" using sorted unfolding split .
  then have d: "sorted_wrt (<) (map fst ?d)" unfolding map_append sorted_wrt_append by blast
  show ?thesis
  proof (cases "?d \<noteq> [] \<and> fst (hd ?d) = nm")
    case True
    then obtain w es2 where D: "?d = (nm, w) # es2" by (cases ?d) auto
    have "\<forall>e \<in> set es2. nm < fst e" using d unfolding D by auto
    moreover have "es = ?es1 @ [(nm, w)] @ es2" using split unfolding D by simp
    ultimately have "split_at nm es ?es1 [(nm, w)] es2"
      unfolding split_at_def spec_set_found [OF D] using D takeWhile_before [of nm es] by simp
    then show ?thesis by blast
  next
    case False
    have "nm < fst e" if "e \<in> set ?d" for e
    proof -
      have "?d \<noteq> []" using that by force
      then obtain a rest where D: "?d = a # rest" unfolding neq_Nil_conv by blast
      have "nm < fst a" using dropWhile_before [OF sorted, of a nm] False unfolding D by auto
      with that d show ?thesis unfolding D by auto
    qed
    then have "split_at nm es ?es1 [] ?d"
      using takeWhile_before [of nm es] spec_set_new [of nm es] unfolding split_at_def by simp
    then show ?thesis by blast
  qed
qed

lemma entries_ok_append:
  "entries_ok (es1 @ es2) \<longleftrightarrow> entries_ok es1 \<and> entries_ok es2
     \<and> (\<forall>a \<in> set es1. \<forall>b \<in> set es2. fst a < fst b)"
  by (auto simp: entries_ok_def sorted_wrt_append)

lemma entries_ok_Nil [simp]: "entries_ok []"
  by (simp add: entries_ok_def)

lemma entries_ok_single:
  "entries_ok [(nm, v)] \<longleftrightarrow> value_ok v \<and> \<not> IsZero v \<and> length (v_data v) < 2 ^ 63"
  by (simp add: entries_ok_def)

lemma spec_set_ok:
  assumes "entries_ok es" and "value_ok v" and "length (v_data v) < 2 ^ 63"
  shows "entries_ok (spec_set nm v es)"
proof -
  obtain es1 mid es2 where S: "es = es1 @ mid @ es2" "mid = [] \<or> (\<exists>w. mid = [(nm, w)])"
    "\<forall>e \<in> set es1. fst e < nm" "\<forall>e \<in> set es2. nm < fst e"
    "\<forall>v. spec_set nm v es = (if mid \<noteq> [] \<and> \<not> IsZero v \<and> Equals (snd (hd mid)) v then es
       else es1 @ (if IsZero v then [] else [(nm, v)]) @ es2)"
    using split_entries [OF assms(1), of nm] unfolding split_at_def by (elim exE conjE)
  have "entries_ok es1" "entries_ok es2" "\<forall>a \<in> set es1. \<forall>b \<in> set es2. fst a < fst b"
    using assms(1) unfolding S(1) entries_ok_append by auto
  then show ?thesis
    using S(3,4,5) assms by (auto simp: entries_ok_append entries_ok_single)
qed

text \<open>What a lookup finds after an update.\<close>

lemma spec_get_set:
  assumes "entries_ok es"
  shows "spec_get n (spec_set nm v es) =
    (if n \<noteq> nm then spec_get n es
     else if IsZero v then ZeroField
     else if map_of es nm \<noteq> None \<and> Equals (fd_value (spec_get nm es)) v then spec_get nm es
     else \<lparr>fd_name = nm, fd_value = v\<rparr>)"
proof -
  obtain es1 mid es2 where S: "es = es1 @ mid @ es2" "mid = [] \<or> (\<exists>w. mid = [(nm, w)])"
    "\<forall>e \<in> set es1. fst e < nm" "\<forall>e \<in> set es2. nm < fst e"
    "\<forall>v. spec_set nm v es = (if mid \<noteq> [] \<and> \<not> IsZero v \<and> Equals (snd (hd mid)) v then es
       else es1 @ (if IsZero v then [] else [(nm, v)]) @ es2)"
    using split_entries [OF assms, of nm] unfolding split_at_def by (elim exE conjE)
  have none: "map_of es1 nm = None" "map_of es2 nm = None"
    using S(3,4) by (force simp: map_of_eq_None_iff)+
  define new where "new = es1 @ (if IsZero v then [] else [(nm, v)]) @ es2"
  have other: "map_of new n = map_of es n" if "n \<noteq> nm"
    using S(2) that by (auto simp: new_def S(1) map_add_def split: option.splits)
  have same: "map_of new nm = (if IsZero v then None else Some v)"
    using none by (simp add: map_add_def new_def)
  have mid: "map_of es nm = (if mid = [] then None else Some (snd (hd mid)))"
    using none S(2) by (auto simp: S(1) map_add_def)
  have set: "spec_set nm v es = (if mid \<noteq> [] \<and> \<not> IsZero v \<and> Equals (snd (hd mid)) v then es else new)"
    using S(5) by (simp add: new_def)
  show ?thesis
    using other same mid by (cases "n = nm") (simp_all add: spec_get_def set)
qed

section \<open>\<open>Set\<close> implements the update\<close>

definition bytes_of :: "List \<Rightarrow> nat" where
  "bytes_of fl = (case fl of None \<Rightarrow> 0 | Some bs \<Rightarrow> length bs)"

text \<open>There is room for one more name and for the value.\<close>

definition room :: "'m sstring \<Rightarrow> List \<Rightarrow> Value \<Rightarrow> bool" where
  "room tab fl v \<longleftrightarrow> length (strs tab) + 1 < 2 ^ 63 \<and> bytes_of fl + length (v_data v) + 21 < 2 ^ 63"

lemma putfield_bytes:
  assumes "Store hm tab (fd_name f) = (num, tab')" and "0 \<le> num"
    and "length (b1 @ enc_entry (nat num) (fd_value f) @ b3) = n" and "length b2 = e"
  shows "putfield hm tab (b1 @ b2 @ b3) f (length b1) (length b1 + e) =
    (Some (PutUvarint (word_of_nat n) @ b1 @ enc_entry (nat num) (fd_value f) @ b3), tab')"
  using assms(2) unfolding assms(3,4) [symmetric]
  by (auto simp: putfield_def assms(1) enc_entry_def Let_def ac_simps)

lemma putfield_rel:
  assumes laws: "hashmap_laws hm" "table_ok hm tab"
    and parts: "encodes (strs tab) es1 b1" "encodes (strs tab) es2 b3"
    and ok: "entries_ok (es1 @ (nm, v) # es2)"
    and fit: "length (strs tab) + 1 < 2 ^ 63" "length (b1 @ b3) + length (v_data v) + 21 < 2 ^ 63"
  shows "\<exists>fl' tab'. putfield hm tab (b1 @ b2 @ b3) \<lparr>fd_name = nm, fd_value = v\<rparr>
        (length b1) (length b1 + length b2) = (fl', tab')
    \<and> table_ok hm tab' \<and> list_rel (strs tab') fl' (es1 @ (nm, v) # es2)
    \<and> (\<exists>ext. strs tab' = strs tab @ ext)"
proof -
  obtain num tab' where store: "Store hm tab nm = (num, tab')" by fastforce
  note S = Store_ok [OF laws store]
  then obtain ext where ext: "strs tab' = strs tab @ ext" "length ext \<le> 1" by blast
  let ?b = "b1 @ enc_entry (nat num) v @ b3"
  have len: "length ?b < 2 ^ 63" using fit(2) length_enc_entry(2) [of "nat num" v] by simp
  have "encodes (strs tab') ((nm, v) # es2) (enc_entry (nat num) v @ b3)"
    using S(2,3,4) encodes_more [OF parts(2), of ext] ext(1)
    by (simp only: encodes.simps) (intro exI [of _ "nat num"] exI [of _ b3], simp)
  then have "encodes (strs tab') (es1 @ (nm, v) # es2) ?b"
    using encodes_more [OF parts(1)] ext(1) by (intro encodes_append) auto
  with ok len fit(1) ext
  have "list_rel (strs tab') (Some (PutUvarint (word_of_nat (length ?b)) @ ?b)) (es1 @ (nm, v) # es2)"
    unfolding list_rel_def option.case by (intro conjI exI [of _ ?b]) auto
  then show ?thesis
    using putfield_bytes [of hm tab "\<lparr>fd_name = nm, fd_value = v\<rparr>" num tab' b1 b3 "length ?b" b2] store S(1,2) ext(1)
    by (auto simp del: append_assoc)
qed

lemma bytes_of_rel: "list_rel ss (Some bs) es \<Longrightarrow> ptob (Some bs) = Inr b \<Longrightarrow> length b \<le> bytes_of (Some bs)"
  by (auto simp: list_rel_def bytes_of_def ptob_header)

lemma room_bytes:
  "list_rel ss fl es \<Longrightarrow> ptob fl = Inr b \<Longrightarrow> room tab fl v \<Longrightarrow>
   length (strs tab) + 1 < 2 ^ 63 \<and> length b + length (v_data v) + 21 < 2 ^ 63"
  using bytes_of_rel [of ss _ es b] by (cases fl) (fastforce simp: room_def ptob_def)+

lemma delfield_rel:
  assumes "encodes ss es1 b1" "encodes ss es2 b3" and "entries_ok (es1 @ es2)" and "length ss < 2 ^ 63"
    and "length (b1 @ b3) < 2 ^ 63"
  shows "list_rel ss (delfield (b1 @ b2 @ b3) (length b1) (length b1 + length b2)) (es1 @ es2)"
proof -
  have enc: "encodes ss (es1 @ es2) (b1 @ b3)" using assms(1,2) by (rule encodes_append)
  show ?thesis
  proof (cases "b1 @ b3 = []")
    case True
    with encodes_nonempty [OF enc] assms(4) show ?thesis
      by (simp add: delfield_def list_rel_def)
  next
    case False
    then have "delfield (b1 @ b2 @ b3) (length b1) (length b1 + length b2)
        = Some (PutUvarint (word_of_nat (length (b1 @ b3))) @ b1 @ b3)"
      by (auto simp: delfield_def)
    then show ?thesis
      using False enc encodes_nonempty [OF enc] assms(3-5) unfolding list_rel_def option.case
      by (auto intro!: exI [of _ "b1 @ b3"])
  qed
qed

lemma set_place_split:
  assumes "set_place ss i nm es b r" and S: "split_at nm es es1 mid es2"
  shows "\<exists>b1 b2 b3. b = b1 @ b2 @ b3 \<and> encodes ss es1 b1 \<and> encodes ss es2 b3 \<and>
    (mid = [] \<and> b2 = [] \<and> r = Inr (i + length b1, i + length b1, None)
     \<or> (\<exists>w. mid = [(nm, w)] \<and>
          r = Inr (i + length b1, i + length b1 + length b2, Some \<lparr>fd_name = nm, fd_value = w\<rparr>)))"
proof -
  have S': "takeWhile (before nm) es = es1" "dropWhile (before nm) es = mid @ es2"
      "mid = [] \<or> (\<exists>w. mid = [(nm, w)])" "\<forall>e \<in> set es2. nm < fst e"
    using S unfolding split_at_def by fast+
  from assms(1) [unfolded set_place_def S'(1,2)] obtain b1 b2 where B: "b = b1 @ b2" "encodes ss es1 b1"
    and P: "case mid @ es2 of
       [] \<Rightarrow> b2 = [] \<and> r = Inr (i + length b1, i + length b1, None)
     | (n, v) # rest \<Rightarrow>
         if n = nm
         then \<exists>num b3. b2 = enc_entry num v @ b3 \<and> encodes ss rest b3
              \<and> r = Inr (i + length b1, i + length b1 + length (enc_entry num v),
                         Some \<lparr>fd_name = nm, fd_value = v\<rparr>)
         else encodes ss ((n, v) # rest) b2 \<and> r = Inr (i + length b1, i + length b1, None)"
    by (elim exE conjE)
  show ?thesis
  proof (cases "mid = []")
    case True
    have "encodes ss es2 b2 \<and> r = Inr (i + length b1, i + length b1, None)"
    proof (cases es2)
      case (Cons e rest)
      obtain n v where e: "e = (n, v)" by (cases e)
      have "n \<noteq> nm" using S'(4) Cons e by auto
      with P show ?thesis unfolding True Cons e append_Nil list.case prod.case by simp
    qed (use P True in simp)
    with B True show ?thesis by (intro exI [of _ b1] exI [of _ "[]"] exI [of _ b2]) simp
  next
    case False
    then obtain w where mid: "mid = [(nm, w)]" using S'(3) by blast
    with P obtain num b3 where "b2 = enc_entry num w @ b3" "encodes ss es2 b3"
        "r = Inr (i + length b1, i + length b1 + length (enc_entry num w), Some \<lparr>fd_name = nm, fd_value = w\<rparr>)"
      by auto
    with B mid show ?thesis by (intro exI [of _ b1] exI [of _ "enc_entry num w"] exI [of _ b3]) simp
  qed
qed

text \<open>Which of its three outcomes \<open>Set\<close> has.\<close>

lemma Set_outcome:
  assumes rel: "list_rel (strs tab) fl es" and S: "split_at nm es es1 mid es2"
  shows "\<exists>b b1 b2 b3. ptob fl = Inr b \<and> length b < 2 ^ 63 \<and> b = b1 @ b2 @ b3
    \<and> encodes (strs tab) es1 b1 \<and> encodes (strs tab) es2 b3
    \<and> List_Set hm tab fl \<lparr>fd_name = nm, fd_value = v\<rparr> =
      (if mid \<noteq> [] \<and> \<not> IsZero v \<and> Equals (snd (hd mid)) v \<or> mid = [] \<and> IsZero v then Inr (fl, tab)
       else if IsZero v then Inr (delfield b (length b1) (length b1 + length b2), tab)
       else Inr (putfield hm tab b \<lparr>fd_name = nm, fd_value = v\<rparr> (length b1) (length b1 + length b2)))"
proof -
  let ?ss = "strs tab"
  have es: "entries_ok es" "length ?ss < 2 ^ 63" using rel by (auto simp: list_rel_def)
  obtain b where b: "ptob fl = Inr b" "encodes ?ss es b" "length b < 2 ^ 63"
    using list_rel_ptob [OF rel] by blast
  obtain b1 b2 b3 where B: "b = b1 @ b2 @ b3" "encodes ?ss es1 b1" "encodes ?ss es2 b3"
    and P: "mid = [] \<and> b2 = [] \<and> setLoop ?ss b nm 0 = Inr (length b1, length b1, None)
     \<or> (\<exists>w. mid = [(nm, w)] \<and> setLoop ?ss b nm 0 =
          Inr (length b1, length b1 + length b2, Some \<lparr>fd_name = nm, fd_value = w\<rparr>))"
    using set_place_split [OF setLoop_place [OF es(2) b(2) es(1), of "[]"] S] by auto
  have "List_Set hm tab fl \<lparr>fd_name = nm, fd_value = v\<rparr> =
      (if mid \<noteq> [] \<and> \<not> IsZero v \<and> Equals (snd (hd mid)) v \<or> mid = [] \<and> IsZero v then Inr (fl, tab)
       else if IsZero v then Inr (delfield b (length b1) (length b1 + length b2), tab)
       else Inr (putfield hm tab b \<lparr>fd_name = nm, fd_value = v\<rparr> (length b1) (length b1 + length b2)))"
    using P
  proof (elim disjE conjE exE)
    fix w
    assume "mid = [(nm, w)]" "setLoop ?ss b nm 0 =
      Inr (length b1, length b1 + length b2, Some \<lparr>fd_name = nm, fd_value = w\<rparr>)"
    then show ?thesis by (simp add: List_Set_def b(1))
  qed (simp add: List_Set_def b(1))
  with b(1,3) B show ?thesis by blast
qed

lemma Set_refines_spec:
  assumes laws: "hashmap_laws hm" "table_ok hm tab" and rel: "list_rel (strs tab) fl es"
    and v: "value_ok v" and fit: "room tab fl v"
  shows "\<exists>fl' tab'. List_Set hm tab fl \<lparr>fd_name = nm, fd_value = v\<rparr> = Inr (fl', tab')
    \<and> table_ok hm tab' \<and> list_rel (strs tab') fl' (spec_set nm v es)
    \<and> (\<exists>ext. strs tab' = strs tab @ ext)"
proof -
  let ?ss = "strs tab" and ?f = "\<lparr>fd_name = nm, fd_value = v\<rparr>"
  have es: "entries_ok es" "length ?ss < 2 ^ 63" using rel by (auto simp: list_rel_def)
  obtain es1 mid es2 where S: "split_at nm es es1 mid es2" using split_entries [OF es(1)] by blast
  have spec: "spec_set nm v es = (if mid \<noteq> [] \<and> \<not> IsZero v \<and> Equals (snd (hd mid)) v then es
       else es1 @ (if IsZero v then [] else [(nm, v)]) @ es2)" and mid: "es = es1 @ mid @ es2"
    using S unfolding split_at_def by fast+
  obtain b b1 b2 b3 where b: "ptob fl = Inr b" "length b < 2 ^ 63"
    and B: "b = b1 @ b2 @ b3" "encodes ?ss es1 b1" "encodes ?ss es2 b3"
    and set: "List_Set hm tab fl ?f =
      (if mid \<noteq> [] \<and> \<not> IsZero v \<and> Equals (snd (hd mid)) v \<or> mid = [] \<and> IsZero v then Inr (fl, tab)
       else if IsZero v then Inr (delfield b (length b1) (length b1 + length b2), tab)
       else Inr (putfield hm tab b ?f (length b1) (length b1 + length b2)))"
    using Set_outcome [OF rel S] by blast
  have fits: "length ?ss + 1 < 2 ^ 63" "length b + length (v_data v) + 21 < 2 ^ 63"
    using room_bytes [OF rel b(1) fit] by auto
  have okv: "entries_ok (spec_set nm v es)" using fits(2) by (intro spec_set_ok es(1) v) simp
  have mid: "mid = [] \<Longrightarrow> es1 @ es2 = es" using mid by simp
  consider (same) "List_Set hm tab fl ?f = Inr (fl, tab)" "spec_set nm v es = es"
    | (del) "List_Set hm tab fl ?f = Inr (delfield b (length b1) (length b1 + length b2), tab)"
        "spec_set nm v es = es1 @ es2"
    | (put) "List_Set hm tab fl ?f = Inr (putfield hm tab b ?f (length b1) (length b1 + length b2))"
        "spec_set nm v es = es1 @ (nm, v) # es2"
    using set spec mid
    by (cases "mid = []"; cases "IsZero v"; cases "Equals (snd (hd mid)) v") simp_all
  then show ?thesis
  proof cases
    case same
    then show ?thesis using laws rel by auto
  next
    case del
    have "list_rel ?ss (delfield b (length b1) (length b1 + length b2)) (es1 @ es2)"
      unfolding B(1) by (rule delfield_rel) (use B okv del(2) es(2) b(2) in auto)
    then show ?thesis using del laws by auto
  next
    case put
    have "\<exists>fl' tab'. putfield hm tab b ?f (length b1) (length b1 + length b2) = (fl', tab')
      \<and> table_ok hm tab' \<and> list_rel (strs tab') fl' (es1 @ (nm, v) # es2) \<and> (\<exists>ext. strs tab' = ?ss @ ext)"
      unfolding B(1) by (rule putfield_rel [OF laws B(2,3)]) (use okv put(2) fits B(1) in auto)
    then show ?thesis using put by auto
  qed
qed

text \<open>A value that equals the stored one leaves the list alone.\<close>

lemma Set_equal:
  assumes rel: "list_rel (strs tab) fl es" and w: "map_of es nm = Some w"
    and v: "Equals w v" "\<not> IsZero v"
  shows "List_Set hm tab fl \<lparr>fd_name = nm, fd_value = v\<rparr> = Inr (fl, tab)"
proof -
  have ok: "entries_ok es" using rel by (auto simp: list_rel_def)
  obtain es1 mid es2 where S: "split_at nm es es1 mid es2" using split_entries [OF ok] by blast
  have S': "es = es1 @ mid @ es2" "mid = [] \<or> (\<exists>w. mid = [(nm, w)])"
      "\<forall>e \<in> set es1. fst e < nm" "\<forall>e \<in> set es2. nm < fst e"
    using S unfolding split_at_def by fast+
  have "map_of es1 nm = None" "map_of es2 nm = None"
    using S'(3,4) by (force simp: map_of_eq_None_iff)+
  then have "mid = [(nm, w)]" using w S'(2) by (auto simp: S'(1) map_add_def)
  then show ?thesis using Set_outcome [OF rel S, of hm v] v by auto
qed

section \<open>\<open>Get\<close>, \<open>Scan\<close>, \<open>Len\<close> and \<open>Weight\<close>\<close>

lemma spec_get_Cons:
  "entries_ok ((n, v) # es) \<Longrightarrow> spec_get nm ((n, v) # es) =
     (if nm < n then ZeroField else if n = nm then \<lparr>fd_name = nm, fd_value = v\<rparr> else spec_get nm es)"
proof -
  assume ok: "entries_ok ((n, v) # es)"
  then have "map_of es nm = None" if "nm < n"
    using that by (force simp: entries_ok_def map_of_eq_None_iff)
  then show ?thesis by (simp add: spec_get_def)
qed

lemma getLoop_plain:
  assumes "readEntry ss b i = Inr (Some (n, kind, data, j))" and "\<not> (kind = KJSON \<and> jn \<noteq> None)"
  shows "getLoop gj ss b nm jn i =
    (if nm < n then Inr ZeroField else if n = nm then Inr (bfield nm kind data) else getLoop gj ss b nm jn j)"
  by (subst getLoop.simps) (simp only: assms(1) sum.case option.case prod.case if_not_P [OF assms(2)])

lemma getLoop_json:
  assumes "readEntry ss b i = Inr (Some (n, KJSON, data, j))"
  shows "getLoop gj ss b nm (Some (jname, jpath)) i =
    (if jname < n then Inr ZeroField
     else if n = jname
     then (case gj_Get gj data jpath of
             Some (t, str) \<Rightarrow> Inr (bfield nm t str)
           | None \<Rightarrow> getLoop gj ss b nm (Some (jname, jpath)) j)
     else getLoop gj ss b nm (Some (jname, jpath)) j)"
  by (subst getLoop.simps) (simp add: assms)

lemma getLoop_spec:
  assumes "length ss < 2 ^ 63" and "jn = None \<or> (\<forall>e \<in> set es. v_kind (snd e) \<noteq> KJSON)"
  shows "encodes ss es b \<Longrightarrow> entries_ok es \<Longrightarrow>
    getLoop gj ss (pre @ b) nm jn (length pre) = Inr (spec_get nm es)"
  using assms(2)
proof (induction es arbitrary: pre b)
  case Nil
  then show ?case by (simp add: getLoop.simps readEntry_end [of ss pre, simplified] spec_get_def)
next
  case (Cons e es)
  obtain n v where e: "e = (n, v)" by (cases e)
  obtain num b' where b': "b = enc_entry num v @ b'" "encodes ss es b'"
    "readEntry ss (pre @ b) (length pre) =
      Inr (Some (n, v_kind v, stored_data v, length (pre @ enc_entry num v)))"
    using readEntry_encodes [OF Cons.prems(1,2) [unfolded e] assms(1)] by blast
  have plain: "\<not> (v_kind v = KJSON \<and> jn \<noteq> None)" using Cons.prems(3) by (auto simp: e)
  have IH: "getLoop gj ss (pre @ b) nm jn (length (pre @ enc_entry num v)) = Inr (spec_get nm es)"
    using Cons.IH [OF b'(2) entries_ok_Cons [OF Cons.prems(2)], of "pre @ enc_entry num v"] Cons.prems(3) b'(1)
    by auto
  show ?case
    unfolding e spec_get_Cons [OF Cons.prems(2) [unfolded e]] getLoop_plain [OF b'(3) plain] IH
    by (simp add: bfield_entries_ok [OF Cons.prems(2) [unfolded e]])
qed

lemma Get_spec:
  assumes "list_rel ss fl es" and "split_dot nm = None \<or> (\<forall>e \<in> set es. v_kind (snd e) \<noteq> KJSON)"
  shows "List_Get gj ss fl nm = Inr (spec_get nm es)"
proof -
  obtain b where "ptob fl = Inr b" "encodes ss es b" using list_rel_ptob [OF assms(1)] by blast
  then show ?thesis
    using getLoop_spec [of ss "split_dot nm" es b gj "[]" nm] assms by (simp add: List_Get_def list_rel_def)
qed

text \<open>What a callback sees of a list of fields.\<close>

fun offer :: "(Field \<Rightarrow> 's \<Rightarrow> bool \<times> 's) \<Rightarrow> Field list \<Rightarrow> 's \<Rightarrow> 's" where
  "offer iter [] st = st"
| "offer iter (f # fs) st =
     (if fst (iter f st) then offer iter fs (snd (iter f st)) else snd (iter f st))"

definition fields_of :: "entries \<Rightarrow> Field list" where
  "fields_of es = map (\<lambda>(n, v). \<lparr>fd_name = n, fd_value = v\<rparr>) es"

lemma scanLoop_spec:
  assumes "length ss < 2 ^ 63"
  shows "encodes ss es b \<Longrightarrow> entries_ok es \<Longrightarrow>
    scanLoop ss (pre @ b) iter st (length pre) = Inr (offer iter (fields_of es) st)"
proof (induction es arbitrary: pre b st)
  case Nil
  then show ?case by (simp add: scanLoop.simps readEntry_end [of ss pre, simplified] fields_of_def)
next
  case (Cons e es)
  obtain n v where e: "e = (n, v)" by (cases e)
  obtain num b' where b': "b = enc_entry num v @ b'" "encodes ss es b'"
    "readEntry ss (pre @ b) (length pre) =
      Inr (Some (n, v_kind v, stored_data v, length (pre @ enc_entry num v)))"
    using readEntry_encodes [OF Cons.prems(1,2) [unfolded e] assms(1)] by blast
  have IH: "scanLoop ss (pre @ b) iter st (length (pre @ enc_entry num v)) = Inr (offer iter (fields_of es) st)" for st
    using Cons.IH [OF b'(2) entries_ok_Cons [OF Cons.prems(2)], of "pre @ enc_entry num v"] b'(1) by simp
  show ?case
    unfolding e
    by (subst scanLoop.simps)
      (simp add: b'(3) IH [simplified] bfield_entries_ok [OF Cons.prems(2) [unfolded e]] fields_of_def)
qed

lemma Scan_spec:
  assumes "list_rel ss fl es"
  shows "List_Scan ss fl iter st = Inr (offer iter (fields_of es) st)"
proof -
  obtain b where "ptob fl = Inr b" "encodes ss es b" using list_rel_ptob [OF assms(1)] by blast
  then show ?thesis
    using scanLoop_spec [of ss es b "[]"] assms by (simp add: List_Scan_def list_rel_def)
qed

text \<open>Skipping an entry ends where reading it ends.\<close>

lemma skipEntry_readEntry:
  "readEntry ss b i = Inr (Some (n, k, d, j)) \<Longrightarrow> skipEntry b i = Inr (Some (int j))"
  by (auto simp: readEntry_def readData_def skipEntry_def go_simps split: prod.splits if_splits)

lemma lenLoop_spec:
  assumes "length ss < 2 ^ 63"
  shows "encodes ss es b \<Longrightarrow> entries_ok es \<Longrightarrow>
    lenLoop (pre @ b) (int (length pre)) c = Some (Inr (c + int (length es)))"
proof (induction es arbitrary: pre b c)
  case Nil
  then show ?case by (simp add: lenLoop.simps skipEntry_def)
next
  case (Cons e es)
  obtain n v where e: "e = (n, v)" by (cases e)
  obtain num b' where b': "b = enc_entry num v @ b'" "encodes ss es b'"
    "readEntry ss (pre @ b) (length pre) =
      Inr (Some (n, v_kind v, stored_data v, length (pre @ enc_entry num v)))"
    using readEntry_encodes [OF Cons.prems(1,2) [unfolded e] assms(1)] by blast
  have IH: "lenLoop (pre @ b) (int (length (pre @ enc_entry num v))) (c + 1) = Some (Inr (c + 1 + int (length es)))"
    using Cons.IH [OF b'(2) entries_ok_Cons [OF Cons.prems(2)], of "pre @ enc_entry num v"] b'(1) by simp
  show ?case
    by (subst lenLoop.simps) (use IH in \<open>simp add: skipEntry_readEntry [OF b'(3)]\<close>)
qed

lemma Len_spec:
  assumes "list_rel ss fl es"
  shows "List_Len fl = Some (Inr (int (length es)))"
proof -
  obtain b where "ptob fl = Inr b" "encodes ss es b" using list_rel_ptob [OF assms(1)] by blast
  then show ?thesis
    using lenLoop_spec [of ss es b "[]" 0] assms by (simp add: List_Len_def list_rel_def)
qed

lemma Weight_spec:
  assumes "list_rel ss fl es"
  shows "List_Weight fl = int (bytes_of fl)"
proof (cases fl)
  case (Some bs)
  then obtain b where b: "length b < 2 ^ 63" "bs = PutUvarint (word_of_nat (length b)) @ b"
    using assms by (auto simp: list_rel_def)
  let ?h = "PutUvarint (word_of_nat (length b))"
  have "take 10 (?h @ b) = ?h @ take (10 - length ?h) b" using length_PutUvarint_10 by simp
  then show ?thesis using b by (simp add: List_Weight_def Some bytes_of_def)
qed (simp add: List_Weight_def bytes_of_def)

section \<open>Names with a dot\<close>

text \<open>
  A JSON field whose name lies between the part of a name before the dot and the name hides all
  fields behind it.
\<close>

lemma getLoop_hidden:
  assumes "length ss < 2 ^ 63" and "jname < n1" "n1 < nm" "v_kind v1 = KJSON"
  shows "encodes ss es b \<Longrightarrow> entries_ok es \<Longrightarrow> (n1, v1) \<in> set es \<Longrightarrow> jname \<notin> fst ` set es \<Longrightarrow>
    getLoop gj ss (pre @ b) nm (Some (jname, jpath)) (length pre) = Inr ZeroField"
proof (induction es arbitrary: pre b)
  case (Cons e es)
  obtain n v where e: "e = (n, v)" by (cases e)
  obtain num b' where b': "b = enc_entry num v @ b'" "encodes ss es b'"
    "readEntry ss (pre @ b) (length pre) =
      Inr (Some (n, v_kind v, stored_data v, length (pre @ enc_entry num v)))"
    using readEntry_encodes [OF Cons.prems(1,2) [unfolded e] assms(1)] by blast
  have IH: "getLoop gj ss (pre @ b) nm (Some (jname, jpath)) (length (pre @ enc_entry num v)) = Inr ZeroField"
    if "(n1, v1) \<in> set es"
    using Cons.IH [OF b'(2) entries_ok_Cons [OF Cons.prems(2)] that, of "pre @ enc_entry num v"] Cons.prems(4) b'(1)
    by auto
  have n: "n < n1" if "(n1, v1) \<in> set es" using Cons.prems(2) that by (force simp: e entries_ok_def)
  show ?case
  proof (cases "v_kind v = KJSON")
    case True
    then have "n \<noteq> jname" "n = n1 \<or> (n1, v1) \<in> set es" using Cons.prems(3,4) by (auto simp: e)
    then show ?thesis
      using getLoop_json [OF b'(3) [unfolded True]] IH assms(2) by auto
  next
    case False
    then have "(n1, v1) \<in> set es" using Cons.prems(3) assms(4) by (auto simp: e)
    then show ?thesis
      using getLoop_plain [OF b'(3), of "Some (jname, jpath)" gj nm] False IH n assms(3) by auto
  qed
qed simp

end
