(* ===== verification/Field_List_Properties.thy ===== *)
theory Field_List_Properties
  imports Field_List_Refine
begin

text \<open>
  The properties of field values and field lists, with a table of names that is a plain map and
  a list of two fields as the concrete case of each.
\<close>

section \<open>A concrete table and a concrete list\<close>

definition demo_hm :: "(gostring \<Rightarrow> int option) hashmap_lib" where
  "demo_hm = \<lparr>hm_Get = (\<lambda>m k. m k), hm_Set = (\<lambda>m k v. m(k \<mapsto> v))\<rparr>"

definition demo_tab :: "(gostring \<Rightarrow> int option) sstring" where
  "demo_tab = \<lparr>nums = Map.empty, strs = []\<rparr>"

lemma demo_hm_laws: "hashmap_laws demo_hm" "table_ok demo_hm demo_tab"
  by (simp_all add: hashmap_laws_def table_ok_def demo_hm_def demo_tab_def)

lemma demo_empty: "list_rel (strs demo_tab) None []"
  by (simp add: list_rel_def demo_tab_def)

text \<open>A library that takes no text for JSON and finds no path.\<close>

definition demo_gj :: gjson_lib where
  "demo_gj = \<lparr>gj_Valid = (\<lambda>s. s = lit ''1''), gj_Type = (\<lambda>s. KString), gj_String = (\<lambda>s. s),
     gj_Get = (\<lambda>d p. None), gj_AppendJSONString = (\<lambda>dst s. dst @ s), pr_Ugly = (\<lambda>s. s)\<rparr>"

definition demo_value :: Value where
  "demo_value = \<lparr>v_kind = KString, v_data = lit ''red'', v_num = 0\<rparr>"

lemma demo_value_ok: "value_ok demo_value" "\<not> IsZero demo_value"
  by code_simp+

lemma demo_room: "room demo_tab None demo_value"
  by (simp add: room_def demo_tab_def bytes_of_def demo_value_def)

text \<open>A JSON field and a NaN, under names with a dot.\<close>

definition demo_json :: Value where
  "demo_json = \<lparr>v_kind = KJSON, v_data = lit ''{}'', v_num = 0\<rparr>"

definition demo_es :: entries where
  "demo_es = [(lit ''a.b'', demo_json), (lit ''a.x'', nan_value)]"

definition demo_names :: "gostring list" where
  "demo_names = [lit ''a.b'', lit ''a.x'']"

definition demo_bytes :: "byte list" where
  "demo_bytes = enc_entry 0 demo_json @ enc_entry 1 nan_value"

definition demo_list :: List where
  "demo_list = Some (PutUvarint (word_of_nat (length demo_bytes)) @ demo_bytes)"

lemma demo_entries_ok: "entries_ok demo_es"
proof -
  have "sorted_wrt (<) (map fst demo_es)" by code_simp
  moreover have "value_ok demo_json" "\<not> IsZero demo_json" "value_ok nan_value" "\<not> IsZero nan_value"
    by code_simp+
  moreover have "length (v_data demo_json) < 2 ^ 63" "length (v_data nan_value) < 2 ^ 63"
    by (simp_all add: demo_json_def)
  ultimately show ?thesis by (simp add: entries_ok_def demo_es_def)
qed

lemma demo_rel: "list_rel demo_names demo_list demo_es"
proof -
  have "encodes demo_names [(lit ''a.x'', nan_value)] (enc_entry 1 nan_value)"
    unfolding encodes.simps by (intro exI [of _ 1] exI [of _ "[]"]) (simp add: demo_names_def)
  then have "encodes demo_names demo_es demo_bytes"
    unfolding demo_es_def demo_bytes_def encodes.simps(2) [of demo_names "lit ''a.b''"]
    by (intro exI [of _ 0] exI [of _ "enc_entry 1 nan_value"]) (simp add: demo_names_def)
  moreover have "length demo_bytes < 2 ^ 63"
    using length_enc_entry(2) [of 0 demo_json] length_enc_entry(2) [of 1 nan_value]
    by (simp add: demo_bytes_def demo_json_def)
  ultimately show ?thesis
    using demo_entries_ok unfolding list_rel_def demo_list_def option.case
    by (intro conjI exI [of _ demo_bytes]) (simp_all add: demo_names_def demo_es_def)
qed

section \<open>Properties\<close>

text \<open>
  C9. \<open>Set\<close> on the bytes of a list never panics and implements the update of the association list
  that is sorted by name: it inserts, replaces or deletes the entry, keeps the bytes well-formed
  and the names sorted, and only ever appends to the table of shared names.
\<close>

theorem Set_refines_update:
  assumes "hashmap_laws hm" and "table_ok hm tab" and "list_rel (strs tab) fl es"
    and "value_ok v" and "room tab fl v"
  shows "\<exists>fl' tab' ext. List_Set hm tab fl \<lparr>fd_name = nm, fd_value = v\<rparr> = Inr (fl', tab')
    \<and> table_ok hm tab' \<and> strs tab' = strs tab @ ext \<and> list_rel (strs tab') fl' (spec_set nm v es)"
  using Set_refines_spec [OF assms] by blast

theorem Set_refines_update_witness:
  "\<exists>fl' tab' ext. List_Set demo_hm demo_tab None \<lparr>fd_name = lit ''color'', fd_value = demo_value\<rparr> = Inr (fl', tab')
    \<and> table_ok demo_hm tab' \<and> strs tab' = strs demo_tab @ ext
    \<and> list_rel (strs tab') fl' (spec_set (lit ''color'') demo_value [])"
  by (rule Set_refines_update [OF demo_hm_laws demo_empty demo_value_ok(1) demo_room])

text \<open>
  C21. What \<open>Get\<close> returns after \<open>Set\<close>, for a name without a dot: the new value under the name that was
  set (or the zero field when the value is zero, or the old field when \<open>Equals\<close> holds), and under
  every other name what it returned before.
\<close>

theorem Get_after_Set:
  assumes "hashmap_laws hm" and "table_ok hm tab" and "list_rel (strs tab) fl es"
    and "value_ok v" and "room tab fl v" and "split_dot n = None"
  shows "\<exists>fl' tab'. List_Set hm tab fl \<lparr>fd_name = nm, fd_value = v\<rparr> = Inr (fl', tab')
    \<and> List_Get gj (strs tab') fl' n =
      (if n \<noteq> nm then List_Get gj (strs tab) fl n
       else if IsZero v then Inr ZeroField
       else if map_of es nm \<noteq> None \<and> Equals (fd_value (spec_get nm es)) v then List_Get gj (strs tab) fl nm
       else Inr \<lparr>fd_name = nm, fd_value = v\<rparr>)"
proof -
  have ok: "entries_ok es" using assms(3) by (auto simp: list_rel_def)
  obtain fl' tab' where set: "List_Set hm tab fl \<lparr>fd_name = nm, fd_value = v\<rparr> = Inr (fl', tab')"
      "list_rel (strs tab') fl' (spec_set nm v es)"
    using Set_refines_spec [OF assms(1-5)] by blast
  have get: "List_Get gj (strs tab) fl n = Inr (spec_get n es)"
    "List_Get gj (strs tab') fl' n = Inr (spec_get n (spec_set nm v es))"
    using Get_spec [OF assms(3)] Get_spec [OF set(2)] assms(6) by auto
  show ?thesis
    using set(1) get unfolding spec_get_set [OF ok] by (cases "n = nm") auto
qed

theorem Get_after_Set_witness:
  "\<exists>fl' tab'. List_Set demo_hm demo_tab None \<lparr>fd_name = lit ''color'', fd_value = demo_value\<rparr> = Inr (fl', tab')
    \<and> List_Get demo_gj (strs tab') fl' (lit ''color'') = Inr \<lparr>fd_name = lit ''color'', fd_value = demo_value\<rparr>"
proof -
  have "split_dot (lit ''color'') = None" by code_simp
  from Get_after_Set [OF demo_hm_laws demo_empty demo_value_ok(1) demo_room this, of "lit ''color''" demo_gj]
  show ?thesis using demo_value_ok(2) by auto
qed

text \<open>
  C35. \<open>Scan\<close> hands the fields to its callback in ascending order of their names until the callback
  stops it, \<open>Len\<close> ends and counts the same fields, and \<open>Weight\<close> is the number of bytes that the
  list occupies.
\<close>

theorem Scan_in_name_order:
  assumes "list_rel ss fl es"
  shows "List_Scan ss fl iter st = Inr (offer iter (fields_of es) st)
    \<and> sorted_wrt (<) (map fd_name (fields_of es))
    \<and> List_Len fl = Some (Inr (int (length (fields_of es)))) \<and> List_Weight fl = int (bytes_of fl)"
proof -
  have "map fd_name (fields_of es) = map fst es" "length (fields_of es) = length es"
    by (auto simp: fields_of_def)
  moreover have "sorted_wrt (<) (map fst es)" using assms by (simp add: list_rel_def entries_ok_def)
  ultimately show ?thesis
    using Scan_spec [OF assms] Len_spec [OF assms] Weight_spec [OF assms] by simp
qed

theorem Scan_in_name_order_witness:
  "List_Scan demo_names demo_list (\<lambda>f st. (True, st @ [fd_name f])) [] = Inr [lit ''a.b'', lit ''a.x'']
   \<and> List_Len demo_list = Some (Inr 2)"
  using Scan_in_name_order [OF demo_rel, of "\<lambda>f st. (True, st @ [fd_name f])" "[]"]
  by (simp add: fields_of_def demo_es_def)

text \<open>
  C34. Every value that \<open>ValueOf\<close> makes of an argument is determined by the kind and the data that
  the binary form keeps: reading it back gives the same kind, the same data and the same number,
  whatever the JSON library does.
\<close>

lemma stringValue_ok: "value_ok (stringValue data)"
proof -
  have "value_ok nan_value" "value_ok (inf_value False)" "value_ok (inf_value True)" by code_simp+
  moreover have "value_ok \<lparr>v_kind = KString, v_data = data, v_num = 0\<rparr>"
    by (simp add: value_ok_def bfield_def stored_data_def datakind_def Let_def)
  ultimately show ?thesis unfolding stringValue_def Let_def by simp
qed

theorem ValueOf_survives_storage: "value_ok (ValueOf gj arg)"
proof -
  have "value_ok nan_value" "value_ok (inf_value False)" "value_ok (inf_value True)" by code_simp+
  moreover have "value_ok \<lparr>v_kind = KNumber, v_data = d, v_num = fst (ParseFloat d)\<rparr>" for d
    by (simp add: value_ok_def bfield_def stored_data_def datakind_def Let_def)
  moreover have "value_ok \<lparr>v_kind = KNull, v_data = lit ''null'', v_num = 0\<rparr>"
    "value_ok \<lparr>v_kind = KTrue, v_data = lit ''true'', v_num = 0\<rparr>"
    "value_ok \<lparr>v_kind = KFalse, v_data = lit ''false'', v_num = 0\<rparr>" by code_simp+
  moreover have "value_ok \<lparr>v_kind = KJSON, v_data = d, v_num = 0\<rparr>" for d
    by (simp add: value_ok_def bfield_def stored_data_def datakind_def Let_def)
  ultimately show ?thesis
    unfolding ValueOf_def Let_def case_prod_beta using stringValue_ok
    by (simp only: if_True if_False split: if_split) blast
qed



text \<open>
  A NaN is equal to every number for \<open>Set\<close>: once a field holds NaN, no number can replace it,
  and NaN cannot replace a number; the list stays as it is.
\<close>

theorem Set_keeps_nan:
  assumes "list_rel (strs tab) fl es" and "map_of es nm = Some w"
    and "v_kind w = KNumber" "v_kind v = KNumber" and "f_isnan (v_num w) \<or> f_isnan (v_num v)"
    and "\<not> IsZero v"
  shows "List_Set hm tab fl \<lparr>fd_name = nm, fd_value = v\<rparr> = Inr (fl, tab)"
  by (rule Set_equal [OF assms(1,2)]) (use assms(3-6) in \<open>auto simp: Equals_iff\<close>)

theorem Set_keeps_nan_witness:
  "List_Set demo_hm \<lparr>nums = Map.empty, strs = demo_names\<rparr> demo_list
     \<lparr>fd_name = lit ''a.x'', fd_value = \<lparr>v_kind = KNumber, v_data = lit ''1'', v_num = 0x3FF0000000000000\<rparr>\<rparr>
   = Inr (demo_list, \<lparr>nums = Map.empty, strs = demo_names\<rparr>)"
proof -
  have "map_of demo_es (lit ''a.x'') = Some nan_value" "f_isnan (v_num nan_value)"
    "\<not> IsZero \<lparr>v_kind = KNumber, v_data = lit ''1'', v_num = 0x3FF0000000000000\<rparr>" by code_simp+
  with demo_rel show ?thesis
    by (intro Set_keeps_nan [of _ _ demo_es _ nan_value]) simp_all
qed

end
