(* ===== verification/Objects.thy ===== *)
theory Objects
  imports Field_List
begin

text \<open>
  Objects of a collection (\<^verbatim>\<open>internal/legacy/object/object_binary.go\<close>) and string values
  (\<^verbatim>\<open>internal/legacy/collection/string.go\<close>).

  The package \<^verbatim>\<open>geojson\<close> is not part of the sources: the record \<open>geojson_lib\<close> holds what the code
  calls on its objects, of the abstract type \<open>'g\<close>, and on its points, of the abstract type \<open>'p\<close>.
\<close>

section \<open>Geometries\<close>

record Rect =
  MinX :: float64
  MinY :: float64
  MaxX :: float64
  MaxY :: float64

definition zeroRect :: Rect where
  "zeroRect = \<lparr>MinX = 0, MinY = 0, MaxX = 0, MaxY = 0\<rparr>"

text \<open>The dynamic types that the code distinguishes.\<close>

datatype geo_type = TSimplePoint | TPoint | TOther

record ('g, 'p) geojson_lib =
  gl_type :: "'g \<Rightarrow> geo_type"
  gl_IsSimple :: "'g \<Rightarrow> bool"
  gl_Base :: "'g \<Rightarrow> 'p"
  gl_SimplePoint :: "'p \<Rightarrow> 'g"
  gl_Spatial :: "'g \<Rightarrow> bool"
  gl_Empty :: "'g \<Rightarrow> bool"
  gl_Rect :: "'g \<Rightarrow> Rect"
  gl_String :: "'g \<Rightarrow> gostring"
  gl_NumPoints :: "'g \<Rightarrow> int"
  gl_Within :: "'g \<Rightarrow> 'g \<Rightarrow> bool"
  gl_Intersects :: "'g \<Rightarrow> 'g \<Rightarrow> bool"

text \<open>
  What an object holds: a string value, whose methods are part of the sources, or an object of the
  library.  A string value has none of the rectangle methods that the interface \<^verbatim>\<open>Spatial\<close> asks for.
\<close>

datatype 'g geo = GString gostring | GLib 'g

fun geo_Spatial :: "('g, 'p) geojson_lib \<Rightarrow> 'g geo \<Rightarrow> bool" where
  "geo_Spatial gl (GString s) = False"
| "geo_Spatial gl (GLib g) = gl_Spatial gl g"

fun geo_Empty :: "('g, 'p) geojson_lib \<Rightarrow> 'g geo \<Rightarrow> bool" where
  "geo_Empty gl (GString s) = True"
| "geo_Empty gl (GLib g) = gl_Empty gl g"

fun geo_Rect :: "('g, 'p) geojson_lib \<Rightarrow> 'g geo \<Rightarrow> Rect" where
  "geo_Rect gl (GString s) = zeroRect"
| "geo_Rect gl (GLib g) = gl_Rect gl g"

fun geo_String :: "('g, 'p) geojson_lib \<Rightarrow> 'g geo \<Rightarrow> gostring" where
  "geo_String gl (GString s) = s"
| "geo_String gl (GLib g) = gl_String gl g"

fun geo_NumPoints :: "('g, 'p) geojson_lib \<Rightarrow> 'g geo \<Rightarrow> int" where
  "geo_NumPoints gl (GString s) = 0"
| "geo_NumPoints gl (GLib g) = gl_NumPoints gl g"

fun geo_Within :: "('g, 'p) geojson_lib \<Rightarrow> 'g geo \<Rightarrow> 'g \<Rightarrow> bool" where
  "geo_Within gl (GString s) obj = False"
| "geo_Within gl (GLib g) obj = gl_Within gl g obj"

fun geo_Intersects :: "('g, 'p) geojson_lib \<Rightarrow> 'g geo \<Rightarrow> 'g \<Rightarrow> bool" where
  "geo_Intersects gl (GString s) obj = False"
| "geo_Intersects gl (GLib g) obj = gl_Intersects gl g obj"

section \<open>Objects\<close>

abbreviation opoint :: byte where "opoint \<equiv> 1"
abbreviation ogeo :: byte where "ogeo \<equiv> 2"

text \<open>An object is followed in memory by its point or its geometry, as the first byte of the head says.\<close>

datatype ('g, 'p) payload = PointPayload 'p | GeoPayload "'g geo"

record ('g, 'p) Object =
  ob_head :: gostring
  ob_fields :: List
  ob_payload :: "('g, 'p) payload"

text \<open>
  \<open>None\<close> is nil.  The source reinterprets the memory behind the object; with another payload than
  the one the head announces that is no valid object, and there is none here.  No head that
  \<open>makeHead\<close> builds is empty.
\<close>

definition Object_geo :: "('g, 'p) geojson_lib \<Rightarrow> ('g, 'p) Object \<Rightarrow> 'g geo option" where
  "Object_geo gl obj =
     (if ob_head obj = [] then None
      else if hd (ob_head obj) = opoint
      then (case ob_payload obj of PointPayload p \<Rightarrow> Some (GLib (gl_SimplePoint gl p)) | _ \<Rightarrow> None)
      else if hd (ob_head obj) = ogeo
      then (case ob_payload obj of GeoPayload g \<Rightarrow> Some g | _ \<Rightarrow> None)
      else None)"

definition Object_ID :: "('g, 'p) Object \<Rightarrow> fl_error + gostring" where
  "Object_ID obj =
     (let head = ob_head obj in
      if length head < 2 then Inl FlIndex
      else if head ! 1 = 0 then Inr (drop 2 head)
      else Inr (drop (1 + snd (varint (drop 1 head))) head))"

definition Object_Expires :: "('g, 'p) Object \<Rightarrow> fl_error + 64 word" where
  "Object_Expires obj =
     (if ob_head obj = [] then Inl FlSlice else Inr (fst (varint (drop 1 (ob_head obj)))))"

definition Object_Fields :: "('g, 'p) Object \<Rightarrow> List" where
  "Object_Fields obj = ob_fields obj"

definition Object_Rect :: "('g, 'p) geojson_lib \<Rightarrow> ('g, 'p) Object \<Rightarrow> Rect" where
  "Object_Rect gl obj = (case Object_geo gl obj of None \<Rightarrow> zeroRect | Some g \<Rightarrow> geo_Rect gl g)"

definition Object_String :: "('g, 'p) geojson_lib \<Rightarrow> ('g, 'p) Object \<Rightarrow> gostring" where
  "Object_String gl obj = (case Object_geo gl obj of None \<Rightarrow> [] | Some g \<Rightarrow> geo_String gl g)"

definition Object_IsSpatial :: "('g, 'p) geojson_lib \<Rightarrow> ('g, 'p) Object \<Rightarrow> bool" where
  "Object_IsSpatial gl obj = (case Object_geo gl obj of None \<Rightarrow> False | Some g \<Rightarrow> geo_Spatial gl g)"

definition Object_Weight :: "('g, 'p) geojson_lib \<Rightarrow> ('g, 'p) Object \<Rightarrow> fl_error + int" where
  "Object_Weight gl obj =
     bindE (Object_ID obj) (\<lambda>ident.
       Inr (int (length ident)
         + (case Object_geo gl obj of
              None \<Rightarrow> 0
            | Some g \<Rightarrow> if Object_IsSpatial gl obj then geo_NumPoints gl g * 16
                        else int (length (geo_String gl g)))
         + List_Weight (Object_Fields obj)))"

definition makeHead :: "byte \<Rightarrow> gostring \<Rightarrow> 64 word \<Rightarrow> gostring" where
  "makeHead kind ident expires =
     (let exb = (if expires \<noteq> 0 then PutVarint expires else [0]) in [kind] @ exb @ ident)"

definition newPoint :: "gostring \<Rightarrow> 'p \<Rightarrow> 64 word \<Rightarrow> List \<Rightarrow> ('g, 'p) Object" where
  "newPoint ident pt expires fl =
     \<lparr>ob_head = makeHead opoint ident expires, ob_fields = fl, ob_payload = PointPayload pt\<rparr>"

definition newGeo :: "gostring \<Rightarrow> 'g geo \<Rightarrow> 64 word \<Rightarrow> List \<Rightarrow> ('g, 'p) Object" where
  "newGeo ident g expires fl =
     \<lparr>ob_head = makeHead ogeo ident expires, ob_fields = fl, ob_payload = GeoPayload g\<rparr>"

definition Object_New ::
  "('g, 'p) geojson_lib \<Rightarrow> gostring \<Rightarrow> 'g geo \<Rightarrow> 64 word \<Rightarrow> List \<Rightarrow> ('g, 'p) Object" where
  "Object_New gl ident geo expires fl =
     (case geo of
        GString s \<Rightarrow> newGeo ident geo expires fl
      | GLib p \<Rightarrow>
          (case gl_type gl p of
             TSimplePoint \<Rightarrow> newPoint ident (gl_Base gl p) expires fl
           | TPoint \<Rightarrow> if gl_IsSimple gl p then newPoint ident (gl_Base gl p) expires fl
                       else newGeo ident geo expires fl
           | TOther \<Rightarrow> newGeo ident geo expires fl))"

section \<open>Round trips through the head\<close>

lemma makeHead_shape:
  "\<exists>c exb. makeHead kind ident expires = kind # (c # exb) @ ident
    \<and> (c = 0 \<longrightarrow> expires = 0 \<and> exb = [])
    \<and> varint ((c # exb) @ ident) = (expires, length (c # exb))"
proof (cases "expires = 0")
  case True
  then show ?thesis
    by (auto simp: makeHead_def varint_def object_uvarint_def)
next
  case False
  obtain c exb where put: "PutVarint expires = c # exb"
    using length_PutUvarint_pos by (cases "PutVarint expires") (auto simp: PutVarint_def Let_def)
  have "c \<noteq> 0" using PutVarint_first [of expires exb] put False by auto
  then show ?thesis
    using False put varint_PutVarint [of expires ident]
    by (intro exI [of _ c] exI [of _ exb]) (simp add: makeHead_def Let_def)
qed

lemma Object_New_cases:
  "\<exists>kind payload. Object_New gl ident geo expires fl =
     \<lparr>ob_head = makeHead kind ident expires, ob_fields = fl, ob_payload = payload\<rparr>
   \<and> (kind = opoint \<and> (\<exists>p. payload = PointPayload p) \<or> kind = ogeo \<and> payload = GeoPayload geo)"
  by (auto simp: Object_New_def newPoint_def newGeo_def split: geo.splits geo_type.splits)

lemma Object_New_simps [simp]:
  "Object_ID (Object_New gl ident geo expires fl) = Inr ident"
  "Object_Expires (Object_New gl ident geo expires fl) = Inr expires"
  "Object_Fields (Object_New gl ident geo expires fl) = fl"
proof -
  obtain kind payload where new: "Object_New gl ident geo expires fl =
      \<lparr>ob_head = makeHead kind ident expires, ob_fields = fl, ob_payload = payload\<rparr>"
    using Object_New_cases [of gl ident geo expires fl] by (elim exE conjE)
  obtain c exb where head: "makeHead kind ident expires = kind # (c # exb) @ ident"
      "c = 0 \<longrightarrow> expires = 0 \<and> exb = []" "varint ((c # exb) @ ident) = (expires, length (c # exb))"
    using makeHead_shape by blast
  show "Object_ID (Object_New gl ident geo expires fl) = Inr ident"
    "Object_Expires (Object_New gl ident geo expires fl) = Inr expires"
    "Object_Fields (Object_New gl ident geo expires fl) = fl"
    using head(2,3) by (auto simp: new head(1) Object_ID_def Object_Expires_def Object_Fields_def Let_def)
qed

text \<open>The geometry that an object gives back: a simple point loses its identity but not its place.\<close>

definition kept_geo :: "('g, 'p) geojson_lib \<Rightarrow> 'g geo \<Rightarrow> 'g geo" where
  "kept_geo gl geo =
     (case geo of
        GString s \<Rightarrow> GString s
      | GLib p \<Rightarrow> if gl_type gl p = TSimplePoint \<or> gl_type gl p = TPoint \<and> gl_IsSimple gl p
                  then GLib (gl_SimplePoint gl (gl_Base gl p)) else GLib p)"

lemma Object_New_geo: "Object_geo gl (Object_New gl ident geo expires fl) = Some (kept_geo gl geo)"
  by (auto simp: Object_geo_def Object_New_def newPoint_def newGeo_def makeHead_def kept_geo_def Let_def
      split: geo.splits geo_type.splits)

text \<open>
  C22. Round trip: an object gives back the identifier, the expiration, the fields and the geometry
  that it was made with, for every 64-bit expiration and every identifier, the empty one included.
\<close>

theorem Object_New_roundtrip:
  "Object_ID (Object_New gl ident geo expires fl) = Inr ident
   \<and> Object_Expires (Object_New gl ident geo expires fl) = Inr expires
   \<and> Object_Fields (Object_New gl ident geo expires fl) = fl
   \<and> Object_geo gl (Object_New gl ident geo expires fl) = Some (kept_geo gl geo)"
  by (simp add: Object_New_geo)

end
