(* ===== verification/Float_Ops.thy ===== *)
theory Float_Ops
  imports Strconv
begin

text \<open>
  Arithmetic of Go's \<^verbatim>\<open>float64\<close> as far as the sources use it: sums, products and the conversion to
  \<^verbatim>\<open>float32\<close> and back, each the exact result rounded to nearest, ties to even.
\<close>

text \<open>A finite value as a fraction: the numerator is signed, the denominator is positive.\<close>

definition f_exp :: "float64 \<Rightarrow> int" where
  "f_exp w = uint (drop_bit 52 (take_bit 63 w))"

definition f_frac :: "float64 \<Rightarrow> int" where
  "f_frac w = uint (take_bit 52 w)"

definition f_ratio :: "float64 \<Rightarrow> int \<times> int" where
  "f_ratio w =
     (let e = max 1 (f_exp w) - 1075; m = (if f_exp w = 0 then f_frac w else f_frac w + 2 ^ 52);
          s = (if bit w 63 then - m else m)
      in (scale_up s e, scale_up 1 (- e)))"

definition f_isinf :: "float64 \<Rightarrow> bool" where
  "f_isinf w \<longleftrightarrow> f_mag w = 0x7FF0000000000000"

text \<open>A fraction as a float, with the sign that a zero gets.\<close>

definition f_round :: "bool \<Rightarrow> int \<Rightarrow> int \<Rightarrow> float64" where
  "f_round neg p q =
     (let bits = round_bits \<bar>p\<bar> q; mag = (if bits < 0x7FF0000000000000 then word_of_int bits else f_inf)
      in if p < 0 \<or> p = 0 \<and> neg then set_bit 63 mag else mag)"

definition f_mul :: "float64 \<Rightarrow> float64 \<Rightarrow> float64" where
  "f_mul a b =
     (let neg = (bit a 63 \<noteq> bit b 63) in
      if f_isnan a \<or> f_isnan b then f_nan
      else if f_isinf a \<or> f_isinf b
      then (if f_mag a = 0 \<or> f_mag b = 0 then f_nan else if neg then f_neginf else f_inf)
      else (case (f_ratio a, f_ratio b) of ((p, q), (r, s)) \<Rightarrow> f_round neg (p * r) (q * s)))"

definition f_neg :: "float64 \<Rightarrow> float64" where
  "f_neg a = (if bit a 63 then unset_bit 63 a else set_bit 63 a)"

definition f_add :: "float64 \<Rightarrow> float64 \<Rightarrow> float64" where
  "f_add a b =
     (if f_isnan a \<or> f_isnan b then f_nan
      else if f_isinf a then (if f_isinf b \<and> a \<noteq> b then f_nan else a)
      else if f_isinf b then b
      else (case (f_ratio a, f_ratio b) of ((p, q), (r, s)) \<Rightarrow>
              f_round (bit a 63 \<and> bit b 63) (p * s + r * q) (q * s)))"

definition f_sub :: "float64 \<Rightarrow> float64 \<Rightarrow> float64" where
  "f_sub a b = f_add a (f_neg b)"

text \<open>Division by two, which rounds as the product with one half does.\<close>

definition f_half :: "float64 \<Rightarrow> float64" where
  "f_half a = f_mul a 0x3FE0000000000000"

text \<open>\<^verbatim>\<open>float32(d)\<close>, as the \<^verbatim>\<open>float64\<close> of the same value.\<close>

definition f32 :: "float64 \<Rightarrow> float64" where
  "f32 d =
     (if f_isnan d then f_nan
      else if f_isinf d then d
      else case f_ratio d of (p, q) \<Rightarrow>
        if p = 0 then d
        else let e = max (- 149) (floor_log2 \<bar>p\<bar> q - 23);
                 m = round_half_even (scale_up \<bar>p\<bar> (- e)) (scale_up q e);
                 (r, s) = (scale_up m e, scale_up 1 (- e));
                 mag = (if 2 ^ 128 * s \<le> r then f_inf else word_of_int (round_bits r s))
             in if p < 0 then set_bit 63 mag else mag)"

end
