(* ===== verification/Collections.thy ===== *)
theory Collections
  imports Objects Float_Ops "HOL-Library.Multiset"
begin

text \<open>
  Collections of objects (\<^verbatim>\<open>internal/legacy/collection/collection.go\<close>): the state with its four
  indexes and counters, updates, and the iterations with cursor and deadline.

  The packages \<^verbatim>\<open>btree\<close> and \<^verbatim>\<open>rtree\<close> are not part of the sources.  The record \<open>tree_lib\<close> holds
  what the code calls; an iteration of a tree is the sequence of items that it offers to its
  callback, which may stop it.  Objects come from \<open>Object_New\<close>, on which the accessors do not panic;
  \<open>projr\<close> and \<open>the\<close> read their results.
\<close>

section \<open>The libraries of trees\<close>

record rect32 =
  lo_x :: float64
  lo_y :: float64
  hi_x :: float64
  hi_y :: float64

text \<open>
  Trees by identifier \<open>'m\<close>, trees by an order on objects \<open>'t\<close>, and the spatial index \<open>'r\<close>, over
  objects \<open>'o\<close>.
\<close>

record ('m, 't, 'r, 'o) tree_lib =
  bm_Set :: "'m \<Rightarrow> gostring \<Rightarrow> 'o \<Rightarrow> 'o option \<times> 'm"
  bm_Delete :: "'m \<Rightarrow> gostring \<Rightarrow> 'o option \<times> 'm"
  bm_Get :: "'m \<Rightarrow> gostring \<Rightarrow> 'o option"
  bm_Scan :: "'m \<Rightarrow> 'o list"
  bm_Reverse :: "'m \<Rightarrow> 'o list"
  bm_Ascend :: "'m \<Rightarrow> gostring \<Rightarrow> 'o list"
  bm_Descend :: "'m \<Rightarrow> gostring \<Rightarrow> 'o list"
  bm_Empty :: 'm
  bg_Set :: "('o \<Rightarrow> 'o \<Rightarrow> bool) \<Rightarrow> 't \<Rightarrow> 'o \<Rightarrow> 't"
  bg_Delete :: "('o \<Rightarrow> 'o \<Rightarrow> bool) \<Rightarrow> 't \<Rightarrow> 'o \<Rightarrow> 't"
  bg_Scan :: "'t \<Rightarrow> 'o list"
  bg_Reverse :: "'t \<Rightarrow> 'o list"
  bg_Ascend :: "('o \<Rightarrow> 'o \<Rightarrow> bool) \<Rightarrow> 't \<Rightarrow> 'o \<Rightarrow> 'o list"
  bg_Descend :: "('o \<Rightarrow> 'o \<Rightarrow> bool) \<Rightarrow> 't \<Rightarrow> 'o \<Rightarrow> 'o list"
  bg_Empty :: 't
  rt_Insert :: "'r \<Rightarrow> rect32 \<Rightarrow> 'o \<Rightarrow> 'r"
  rt_Delete :: "'r \<Rightarrow> rect32 \<Rightarrow> 'o \<Rightarrow> 'r"
  rt_Search :: "'r \<Rightarrow> rect32 \<Rightarrow> 'o list"
  rt_LeftMost :: "'r \<Rightarrow> 'o option"
  rt_BottomMost :: "'r \<Rightarrow> 'o option"
  rt_RightMost :: "'r \<Rightarrow> 'o option"
  rt_TopMost :: "'r \<Rightarrow> 'o option"
  rt_Empty :: 'r

section \<open>Orders on objects\<close>

abbreviation oid :: "('g, 'p) Object \<Rightarrow> gostring" where
  "oid obj \<equiv> projr (Object_ID obj)"

abbreviation oexpires :: "('g, 'p) Object \<Rightarrow> 64 word" where
  "oexpires obj \<equiv> projr (Object_Expires obj)"

abbreviation ogeom :: "('g, 'p) geojson_lib \<Rightarrow> ('g, 'p) Object \<Rightarrow> 'g geo" where
  "ogeom gl obj \<equiv> the (Object_geo gl obj)"

abbreviation oweight :: "('g, 'p) geojson_lib \<Rightarrow> ('g, 'p) Object \<Rightarrow> int" where
  "oweight gl obj \<equiv> projr (Object_Weight gl obj)"

definition byID :: "('g, 'p) Object \<Rightarrow> ('g, 'p) Object \<Rightarrow> bool" where
  "byID a b \<longleftrightarrow> oid a < oid b"

definition byValue :: "('g, 'p) geojson_lib \<Rightarrow> ('g, 'p) Object \<Rightarrow> ('g, 'p) Object \<Rightarrow> bool" where
  "byValue gl a b =
     (let value1 = Object_String gl a; value2 = Object_String gl b in
      if value1 < value2 then True else if value1 > value2 then False else byID a b)"

definition byExpires :: "('g, 'p) Object \<Rightarrow> ('g, 'p) Object \<Rightarrow> bool" where
  "byExpires a b =
     (if oexpires a <s oexpires b then True
      else if oexpires b <s oexpires a then False else byID a b)"

section \<open>State\<close>

record ('m, 't, 'r) Collection =
  co_objs :: 'm
  co_spatial :: 'r
  co_values :: 't
  co_expires :: 't
  co_weight :: int
  co_points :: int
  co_objects :: int
  co_nobjects :: int

definition Collection_New :: "('m, 't, 'r, 'o) tree_lib \<Rightarrow> ('m, 't, 'r) Collection" where
  "Collection_New tr =
     \<lparr>co_objs = bm_Empty tr, co_spatial = rt_Empty tr, co_values = bg_Empty tr, co_expires = bg_Empty tr,
      co_weight = 0, co_points = 0, co_objects = 0, co_nobjects = 0\<rparr>"

definition Count :: "('m, 't, 'r) Collection \<Rightarrow> int" where
  "Count c = co_objects c + co_nobjects c"

definition StringCount :: "('m, 't, 'r) Collection \<Rightarrow> int" where
  "StringCount c = co_nobjects c"

definition PointCount :: "('m, 't, 'r) Collection \<Rightarrow> int" where
  "PointCount c = co_points c"

definition TotalWeight :: "('m, 't, 'r) Collection \<Rightarrow> int" where
  "TotalWeight c = co_weight c"

definition Collection_Bounds ::
  "('m, 't, 'r, ('g, 'p) Object) tree_lib \<Rightarrow> ('g, 'p) geojson_lib \<Rightarrow> ('m, 't, 'r) Collection \<Rightarrow> Rect" where
  "Collection_Bounds tr gl c =
     (case rt_LeftMost tr (co_spatial c) of
        None \<Rightarrow> zeroRect
      | Some left \<Rightarrow>
          \<lparr>MinX = MinX (Object_Rect gl left),
           MinY = MinY (Object_Rect gl (the (rt_BottomMost tr (co_spatial c)))),
           MaxX = MaxX (Object_Rect gl (the (rt_RightMost tr (co_spatial c)))),
           MaxY = MaxY (Object_Rect gl (the (rt_TopMost tr (co_spatial c))))\<rparr>)"

section \<open>The spatial index\<close>

abbreviation dRNDTOWARDS :: float64 where "dRNDTOWARDS \<equiv> 0x3FEFFFFFC0000000"
abbreviation dRNDAWAY :: float64 where "dRNDAWAY \<equiv> 0x3FF0000020000000"

definition rtreeValueDown :: "float64 \<Rightarrow> float64" where
  "rtreeValueDown d =
     (let f = f32 d in
      if f_lt d f then (if f_lt d 0 then f32 (f_mul d dRNDAWAY) else f32 (f_mul d dRNDTOWARDS)) else f)"

definition rtreeValueUp :: "float64 \<Rightarrow> float64" where
  "rtreeValueUp d =
     (let f = f32 d in
      if f_lt f d then (if f_lt d 0 then f32 (f_mul d dRNDTOWARDS) else f32 (f_mul d dRNDAWAY)) else f)"

definition rtreeRect :: "Rect \<Rightarrow> rect32" where
  "rtreeRect rect =
     \<lparr>lo_x = rtreeValueDown (MinX rect), lo_y = rtreeValueDown (MinY rect),
      hi_x = rtreeValueUp (MaxX rect), hi_y = rtreeValueUp (MaxY rect)\<rparr>"

definition rtreeItem :: "('g, 'p) geojson_lib \<Rightarrow> ('g, 'p) Object \<Rightarrow> rect32 \<times> ('g, 'p) Object" where
  "rtreeItem gl item = (rtreeRect (Object_Rect gl item), item)"

definition indexDelete ::
  "('m, 't, 'r, ('g, 'p) Object) tree_lib \<Rightarrow> ('g, 'p) geojson_lib \<Rightarrow> ('g, 'p) Object
     \<Rightarrow> ('m, 't, 'r) Collection \<Rightarrow> ('m, 't, 'r) Collection" where
  "indexDelete tr gl item c =
     (if \<not> geo_Empty gl (ogeom gl item)
      then c\<lparr>co_spatial := rt_Delete tr (co_spatial c) (fst (rtreeItem gl item)) item\<rparr> else c)"

definition indexInsert ::
  "('m, 't, 'r, ('g, 'p) Object) tree_lib \<Rightarrow> ('g, 'p) geojson_lib \<Rightarrow> ('g, 'p) Object
     \<Rightarrow> ('m, 't, 'r) Collection \<Rightarrow> ('m, 't, 'r) Collection" where
  "indexInsert tr gl item c =
     (if \<not> geo_Empty gl (ogeom gl item)
      then c\<lparr>co_spatial := rt_Insert tr (co_spatial c) (fst (rtreeItem gl item)) item\<rparr> else c)"

section \<open>Updates\<close>

text \<open>The half of \<open>setFill\<close> that takes the previous object out of the indexes.\<close>

definition takeOut ::
  "('m, 't, 'r, ('g, 'p) Object) tree_lib \<Rightarrow> ('g, 'p) geojson_lib \<Rightarrow> ('g, 'p) Object
     \<Rightarrow> ('m, 't, 'r) Collection \<Rightarrow> ('m, 't, 'r) Collection" where
  "takeOut tr gl prev c =
     (let c1 = (if Object_IsSpatial gl prev
                then (let d = indexDelete tr gl prev c in d\<lparr>co_objects := co_objects d - 1\<rparr>)
                else c\<lparr>co_values := bg_Delete tr (byValue gl) (co_values c) prev,
                       co_nobjects := co_nobjects c - 1\<rparr>);
          c2 = (if oexpires prev \<noteq> 0
                then c1\<lparr>co_expires := bg_Delete tr byExpires (co_expires c1) prev\<rparr> else c1)
      in c2\<lparr>co_points := co_points c2 - geo_NumPoints gl (ogeom gl prev),
            co_weight := co_weight c2 - oweight gl prev\<rparr>)"

definition putIn ::
  "('m, 't, 'r, ('g, 'p) Object) tree_lib \<Rightarrow> ('g, 'p) geojson_lib \<Rightarrow> ('g, 'p) Object
     \<Rightarrow> ('m, 't, 'r) Collection \<Rightarrow> ('m, 't, 'r) Collection" where
  "putIn tr gl obj c =
     (let c1 = (if Object_IsSpatial gl obj
                then (let d = indexInsert tr gl obj c in d\<lparr>co_objects := co_objects d + 1\<rparr>)
                else c\<lparr>co_values := bg_Set tr (byValue gl) (co_values c) obj,
                       co_nobjects := co_nobjects c + 1\<rparr>);
          c2 = (if oexpires obj \<noteq> 0
                then c1\<lparr>co_expires := bg_Set tr byExpires (co_expires c1) obj\<rparr> else c1)
      in c2\<lparr>co_points := co_points c2 + geo_NumPoints gl (ogeom gl obj),
            co_weight := co_weight c2 + oweight gl obj\<rparr>)"

definition setFill ::
  "('m, 't, 'r, ('g, 'p) Object) tree_lib \<Rightarrow> ('g, 'p) geojson_lib \<Rightarrow> ('g, 'p) Object option
     \<Rightarrow> ('g, 'p) Object \<Rightarrow> ('m, 't, 'r) Collection \<Rightarrow> ('m, 't, 'r) Collection" where
  "setFill tr gl prev obj c =
     putIn tr gl obj (case prev of None \<Rightarrow> c | Some p \<Rightarrow> takeOut tr gl p c)"

definition Collection_Set ::
  "('m, 't, 'r, ('g, 'p) Object) tree_lib \<Rightarrow> ('g, 'p) geojson_lib \<Rightarrow> ('g, 'p) Object
     \<Rightarrow> ('m, 't, 'r) Collection \<Rightarrow> ('g, 'p) Object option \<times> ('m, 't, 'r) Collection" where
  "Collection_Set tr gl obj c =
     (case bm_Set tr (co_objs c) (oid obj) obj of (prev, objs) \<Rightarrow>
        (prev, setFill tr gl prev obj (c\<lparr>co_objs := objs\<rparr>)))"

definition Collection_Delete ::
  "('m, 't, 'r, ('g, 'p) Object) tree_lib \<Rightarrow> ('g, 'p) geojson_lib \<Rightarrow> gostring
     \<Rightarrow> ('m, 't, 'r) Collection \<Rightarrow> ('g, 'p) Object option \<times> ('m, 't, 'r) Collection" where
  "Collection_Delete tr gl ident c =
     (case bm_Delete tr (co_objs c) ident of (found, objs) \<Rightarrow>
        let c0 = c\<lparr>co_objs := objs\<rparr> in
        case found of
          None \<Rightarrow> (None, c0)
        | Some prev \<Rightarrow>
            let c1 = (if Object_IsSpatial gl prev
                      then (let d = (if \<not> geo_Empty gl (ogeom gl prev) then indexDelete tr gl prev c0 else c0)
                            in d\<lparr>co_objects := co_objects d - 1\<rparr>)
                      else c0\<lparr>co_values := bg_Delete tr (byValue gl) (co_values c0) prev,
                              co_nobjects := co_nobjects c0 - 1\<rparr>);
                c2 = (if oexpires prev \<noteq> 0
                      then c1\<lparr>co_expires := bg_Delete tr byExpires (co_expires c1) prev\<rparr> else c1)
            in (Some prev, c2\<lparr>co_points := co_points c2 - geo_NumPoints gl (ogeom gl prev),
                              co_weight := co_weight c2 - oweight gl prev\<rparr>))"

definition Collection_Get :: "('m, 't, 'r, 'o) tree_lib \<Rightarrow> gostring \<Rightarrow> ('m, 't, 'r) Collection \<Rightarrow> 'o option" where
  "Collection_Get tr ident c = bm_Get tr (co_objs c) ident"

section \<open>Iterations\<close>

text \<open>
  The deadline of a command: past it, \<open>Check\<close> ends the iteration.  \<open>clock\<close> is the time at a step.
  The cursor is the one of the scan writer of the server.
\<close>

record Deadline =
  dl_unixNano :: int
  dl_hit :: bool

datatype iter_error = DeadlineHit

definition Deadline_Check :: "int \<Rightarrow> Deadline option \<Rightarrow> iter_error + Deadline option" where
  "Deadline_Check now dl =
     (case dl of
        None \<Rightarrow> Inr None
      | Some d \<Rightarrow>
          if dl_unixNano d = 0 then Inr (Some d)
          else if \<not> dl_hit d \<and> now > dl_unixNano d then Inl DeadlineHit
          else Inr (Some d))"

record Cursor =
  cu_cursor :: "64 word"
  cu_iters :: "64 word"

definition Cursor_Offset :: "Cursor \<Rightarrow> 64 word" where
  "Cursor_Offset cu = cu_cursor cu"

definition Cursor_Step :: "64 word \<Rightarrow> Cursor \<Rightarrow> Cursor" where
  "Cursor_Step n cu = cu\<lparr>cu_iters := cu_iters cu + n\<rparr>"

text \<open>What the closures of the iterations share: the counter, the cursor, the deadline, the caller.\<close>

record 's scan =
  sc_count :: "64 word"
  sc_keepon :: bool
  sc_cursor :: "Cursor option"
  sc_deadline :: "Deadline option"
  sc_user :: 's

type_synonym ('o, 's) iterator = "'o \<Rightarrow> 's \<Rightarrow> bool \<times> 's"

definition nextStep ::
  "(64 word \<Rightarrow> int) \<Rightarrow> 64 word \<Rightarrow> 's scan \<Rightarrow> iter_error + 's scan" where
  "nextStep clock step s =
     bindE (if step AND 255 = 255 then Deadline_Check (clock step) (sc_deadline s) else Inr (sc_deadline s))
       (\<lambda>dl. Inr (s\<lparr>sc_deadline := dl, sc_cursor := map_option (Cursor_Step 1) (sc_cursor s)\<rparr>))"

text \<open>The items that a tree offers, one by one, until the callback returns false.\<close>

fun walk :: "('o \<Rightarrow> 's \<Rightarrow> iter_error + (bool \<times> 's)) \<Rightarrow> 'o list \<Rightarrow> 's \<Rightarrow> iter_error + 's" where
  "walk f [] s = Inr s"
| "walk f (x # xs) s = bindE (f x s) (\<lambda>(go, s'). if go then walk f xs s' else Inr s')"

text \<open>The beginning of every iteration.\<close>

definition scanStart :: "Cursor option \<Rightarrow> Deadline option \<Rightarrow> 's \<Rightarrow> 64 word \<times> 's scan" where
  "scanStart cursor deadline st =
     (let offset = (case cursor of None \<Rightarrow> 0 | Some cu \<Rightarrow> Cursor_Offset cu) in
      (offset, \<lparr>sc_count = 0, sc_keepon = True, sc_cursor = map_option (Cursor_Step offset) cursor,
                sc_deadline = deadline, sc_user = st\<rparr>))"

text \<open>The closure that skips up to the cursor, and hands the object on unless \<open>stop\<close> holds.\<close>

definition scanIter ::
  "(64 word \<Rightarrow> int) \<Rightarrow> 64 word \<Rightarrow> ('o \<Rightarrow> bool) \<Rightarrow> ('o, 's) iterator \<Rightarrow> 'o \<Rightarrow> 's scan
     \<Rightarrow> iter_error + (bool \<times> 's scan)" where
  "scanIter clock offset stop iter obj s =
     (let count = sc_count s + 1; s1 = s\<lparr>sc_count := count\<rparr> in
      if count \<le> offset then Inr (True, s1)
      else bindE (nextStep clock count s1) (\<lambda>s2.
             if stop obj then Inr (False, s2)
             else (case iter obj (sc_user s2) of (k, u) \<Rightarrow> Inr (k, s2\<lparr>sc_keepon := k, sc_user := u\<rparr>))))"

definition Collection_Scan ::
  "('m, 't, 'r, 'o) tree_lib \<Rightarrow> (64 word \<Rightarrow> int) \<Rightarrow> bool \<Rightarrow> Cursor option \<Rightarrow> Deadline option
     \<Rightarrow> ('o, 's) iterator \<Rightarrow> 's \<Rightarrow> ('m, 't, 'r) Collection \<Rightarrow> iter_error + 's scan" where
  "Collection_Scan tr clock desc cursor deadline iter st c =
     (case scanStart cursor deadline st of (offset, s) \<Rightarrow>
        walk (scanIter clock offset (\<lambda>_. False) iter)
          (if desc then bm_Reverse tr (co_objs c) else bm_Scan tr (co_objs c)) s)"

definition ScanRange ::
  "('m, 't, 'r, ('g, 'p) Object) tree_lib \<Rightarrow> (64 word \<Rightarrow> int) \<Rightarrow> gostring \<Rightarrow> gostring \<Rightarrow> bool
     \<Rightarrow> Cursor option \<Rightarrow> Deadline option \<Rightarrow> (('g, 'p) Object, 's) iterator \<Rightarrow> 's
     \<Rightarrow> ('m, 't, 'r) Collection \<Rightarrow> iter_error + 's scan" where
  "ScanRange tr clock start fin desc cursor deadline iter st c =
     (case scanStart cursor deadline st of (offset, s) \<Rightarrow>
        walk (scanIter clock offset (\<lambda>obj. if \<not> desc then oid obj \<ge> fin else oid obj \<le> fin) iter)
          (if desc then bm_Descend tr (co_objs c) start else bm_Ascend tr (co_objs c) start) s)"

definition ScanGreaterOrEqual ::
  "('m, 't, 'r, 'o) tree_lib \<Rightarrow> (64 word \<Rightarrow> int) \<Rightarrow> gostring \<Rightarrow> bool \<Rightarrow> Cursor option
     \<Rightarrow> Deadline option \<Rightarrow> ('o, 's) iterator \<Rightarrow> 's \<Rightarrow> ('m, 't, 'r) Collection \<Rightarrow> iter_error + 's scan" where
  "ScanGreaterOrEqual tr clock ident desc cursor deadline iter st c =
     (case scanStart cursor deadline st of (offset, s) \<Rightarrow>
        walk (scanIter clock offset (\<lambda>_. False) iter)
          (if desc then bm_Descend tr (co_objs c) ident else bm_Ascend tr (co_objs c) ident) s)"

definition SearchValues ::
  "('m, 't, 'r, 'o) tree_lib \<Rightarrow> (64 word \<Rightarrow> int) \<Rightarrow> bool \<Rightarrow> Cursor option \<Rightarrow> Deadline option
     \<Rightarrow> ('o, 's) iterator \<Rightarrow> 's \<Rightarrow> ('m, 't, 'r) Collection \<Rightarrow> iter_error + 's scan" where
  "SearchValues tr clock desc cursor deadline iter st c =
     (case scanStart cursor deadline st of (offset, s) \<Rightarrow>
        walk (scanIter clock offset (\<lambda>_. False) iter)
          (if desc then bg_Reverse tr (co_values c) else bg_Scan tr (co_values c)) s)"

definition SearchValuesRange ::
  "('m, 't, 'r, ('g, 'p) Object) tree_lib \<Rightarrow> ('g, 'p) geojson_lib \<Rightarrow> (64 word \<Rightarrow> int) \<Rightarrow> gostring \<Rightarrow> gostring
     \<Rightarrow> bool \<Rightarrow> Cursor option \<Rightarrow> Deadline option \<Rightarrow> (('g, 'p) Object, 's) iterator \<Rightarrow> 's
     \<Rightarrow> ('m, 't, 'r) Collection \<Rightarrow> iter_error + 's scan" where
  "SearchValuesRange tr gl clock start fin desc cursor deadline iter st c =
     (case scanStart cursor deadline st of (offset, s) \<Rightarrow>
        let pstart = Object_New gl [] (GString start) 0 None;
            pend = Object_New gl [] (GString fin) 0 None
        in walk (\<lambda>item s.
                   if (if desc then byValue gl pend item else byValue gl item pend)
                   then scanIter clock offset (\<lambda>_. False) iter item s else Inr (False, s))
             (if desc then bg_Descend tr (byValue gl) (co_values c) pstart
              else bg_Ascend tr (byValue gl) (co_values c) pstart) s)"

definition ScanExpires ::
  "('m, 't, 'r, 'o) tree_lib \<Rightarrow> ('o, 's) iterator \<Rightarrow> 's \<Rightarrow> ('m, 't, 'r) Collection \<Rightarrow> iter_error + 's" where
  "ScanExpires tr iter st c = walk (\<lambda>obj s. Inr (iter obj s)) (bg_Scan tr (co_expires c)) st"

section \<open>Searches by area\<close>

definition geoSearch ::
  "('m, 't, 'r, 'o) tree_lib \<Rightarrow> Rect \<Rightarrow> ('o \<Rightarrow> 's \<Rightarrow> iter_error + (bool \<times> 's)) \<Rightarrow> bool \<times> 's
     \<Rightarrow> ('m, 't, 'r) Collection \<Rightarrow> iter_error + (bool \<times> 's)" where
  "geoSearch tr rect iter as c =
     (let r = rtreeRect rect in
      if f_isnan (lo_x r) \<and> f_isnan (lo_y r) \<and> f_isnan (hi_x r) \<and> f_isnan (hi_y r) then Inr as
      else walk (\<lambda>obj (alive, s). bindE (iter obj s) (\<lambda>(k, s'). Inr (k, (k, s'))))
             (rt_Search tr (co_spatial c) r) as)"

text \<open>The four quarters of a rectangle, in the order the code visits them.\<close>

definition quads :: "Rect \<Rightarrow> Rect list" where
  "quads rect =
     (let w = f_sub (MaxX rect) (MinX rect); h = f_sub (MaxY rect) (MinY rect);
          midx = f_add (MinX rect) (f_half w); midy = f_add (MinY rect) (f_half h)
      in [\<lparr>MinX = MinX rect, MinY = midy, MaxX = midx, MaxY = MaxY rect\<rparr>,
          \<lparr>MinX = midx, MinY = midy, MaxX = MaxX rect, MaxY = MaxY rect\<rparr>,
          \<lparr>MinX = MinX rect, MinY = MinY rect, MaxX = midx, MaxY = midy\<rparr>,
          \<lparr>MinX = midx, MinY = MinY rect, MaxX = MaxX rect, MaxY = midy\<rparr>])"

text \<open>One search at the bottom of the recursion; a callback answers with (match, ok).\<close>

definition sparseLeaf ::
  "('m, 't, 'r, 'o) tree_lib \<Rightarrow> Rect \<Rightarrow> ('o \<Rightarrow> 's \<Rightarrow> iter_error + (bool \<times> bool \<times> 's)) \<Rightarrow> 's
     \<Rightarrow> ('m, 't, 'r) Collection \<Rightarrow> iter_error + (bool \<times> 's)" where
  "sparseLeaf tr rect iter s c =
     bindE (geoSearch tr rect
        (\<lambda>obj (alive, s). bindE (iter obj s) (\<lambda>(match, ok, s').
            if \<not> ok then Inr (False, (False, s')) else Inr (\<not> match, (alive, s'))))
        (True, (True, s)) c)
      (\<lambda>(_, (alive, s')). Inr (alive, s'))"

fun geoSparseInner ::
  "('m, 't, 'r, 'o) tree_lib \<Rightarrow> nat \<Rightarrow> Rect \<Rightarrow> ('o \<Rightarrow> 's \<Rightarrow> iter_error + (bool \<times> bool \<times> 's)) \<Rightarrow> 's
     \<Rightarrow> ('m, 't, 'r) Collection \<Rightarrow> iter_error + (bool \<times> 's)" where
  "geoSparseInner tr 0 rect iter s c = sparseLeaf tr rect iter s c"
| "geoSparseInner tr (Suc sparse) rect iter s c =
     walk (\<lambda>quad (_, s). bindE (geoSparseInner tr sparse quad iter s c) (\<lambda>(alive, s'). Inr (alive, (alive, s'))))
       (quads rect) (True, s)"

text \<open>\<open>geoSparse\<close> remembers the identifiers that matched, and is always alive.\<close>

definition geoSparse ::
  "('m, 't, 'r, ('g, 'p) Object) tree_lib \<Rightarrow> Rect \<Rightarrow> 8 word
     \<Rightarrow> (('g, 'p) Object \<Rightarrow> 's \<Rightarrow> iter_error + (bool \<times> bool \<times> 's)) \<Rightarrow> 's
     \<Rightarrow> ('m, 't, 'r) Collection \<Rightarrow> iter_error + (bool \<times> 's)" where
  "geoSparse tr rect sparse iter s c =
     bindE (geoSparseInner tr (unat sparse) rect
        (\<lambda>obj (matches, s).
           if oid obj \<in> set matches then Inr (False, True, (matches, s))
           else bindE (iter obj s) (\<lambda>(match, ok, s').
                  Inr (match, ok, (if match then oid obj # matches else matches, s'))))
        ([], s) c)
      (\<lambda>(_, (_, s')). Inr (True, s'))"

text \<open>\<open>Within\<close> and \<open>Intersects\<close> differ in the predicate only.\<close>

definition areaIter ::
  "(64 word \<Rightarrow> int) \<Rightarrow> 64 word \<Rightarrow> ('o \<Rightarrow> bool) \<Rightarrow> ('o, 's) iterator \<Rightarrow> 'o \<Rightarrow> 's scan
     \<Rightarrow> iter_error + (bool \<times> 's scan)" where
  "areaIter clock offset pred iter obj s =
     (let count = sc_count s + 1; s1 = s\<lparr>sc_count := count\<rparr> in
      if count \<le> offset then Inr (True, s1)
      else bindE (nextStep clock count s1) (\<lambda>s2.
             if pred obj then (case iter obj (sc_user s2) of (k, u) \<Rightarrow> Inr (k, s2\<lparr>sc_user := u\<rparr>))
             else Inr (True, s2)))"

definition areaSparseIter ::
  "(64 word \<Rightarrow> int) \<Rightarrow> 64 word \<Rightarrow> ('o \<Rightarrow> bool) \<Rightarrow> ('o, 's) iterator \<Rightarrow> 'o \<Rightarrow> 's scan
     \<Rightarrow> iter_error + (bool \<times> bool \<times> 's scan)" where
  "areaSparseIter clock offset pred iter obj s =
     (let count = sc_count s + 1; s1 = s\<lparr>sc_count := count\<rparr> in
      if count \<le> offset then Inr (False, True, s1)
      else bindE (nextStep clock count s1) (\<lambda>s2.
             if pred obj then (case iter obj (sc_user s2) of (k, u) \<Rightarrow> Inr (True, k, s2\<lparr>sc_user := u\<rparr>))
             else Inr (False, False, s2)))"

definition areaSearch ::
  "('m, 't, 'r, ('g, 'p) Object) tree_lib \<Rightarrow> (64 word \<Rightarrow> int) \<Rightarrow> (('g, 'p) Object \<Rightarrow> bool) \<Rightarrow> Rect \<Rightarrow> 8 word
     \<Rightarrow> Cursor option \<Rightarrow> Deadline option \<Rightarrow> (('g, 'p) Object, 's) iterator \<Rightarrow> 's
     \<Rightarrow> ('m, 't, 'r) Collection \<Rightarrow> iter_error + (bool \<times> 's scan)" where
  "areaSearch tr clock pred rect sparse cursor deadline iter st c =
     (case scanStart cursor deadline st of (offset, s) \<Rightarrow>
        if 0 < sparse then geoSparse tr rect sparse (areaSparseIter clock offset pred iter) s c
        else geoSearch tr rect (areaIter clock offset pred iter) (True, s) c)"

definition Within ::
  "('m, 't, 'r, ('g, 'p) Object) tree_lib \<Rightarrow> ('g, 'p) geojson_lib \<Rightarrow> (64 word \<Rightarrow> int) \<Rightarrow> 'g \<Rightarrow> 8 word
     \<Rightarrow> Cursor option \<Rightarrow> Deadline option \<Rightarrow> (('g, 'p) Object, 's) iterator \<Rightarrow> 's
     \<Rightarrow> ('m, 't, 'r) Collection \<Rightarrow> iter_error + (bool \<times> 's scan)" where
  "Within tr gl clock obj = areaSearch tr clock (\<lambda>x. geo_Within gl (ogeom gl x) obj) (gl_Rect gl obj)"

definition Intersects ::
  "('m, 't, 'r, ('g, 'p) Object) tree_lib \<Rightarrow> ('g, 'p) geojson_lib \<Rightarrow> (64 word \<Rightarrow> int) \<Rightarrow> 'g \<Rightarrow> 8 word
     \<Rightarrow> Cursor option \<Rightarrow> Deadline option \<Rightarrow> (('g, 'p) Object, 's) iterator \<Rightarrow> 's
     \<Rightarrow> ('m, 't, 'r) Collection \<Rightarrow> iter_error + (bool \<times> 's scan)" where
  "Intersects tr gl clock obj = areaSearch tr clock (\<lambda>x. geo_Intersects gl (ogeom gl x) obj) (gl_Rect gl obj)"

end
