(* ===== verification/Collection_Invariant.thy ===== *)
theory Collection_Invariant
  imports Collections
begin

text \<open>
  The indexes and the counters of a collection describe the objects that it holds.

  \<open>tree_laws\<close> states what the library of trees documents: a tree by identifier is a finite map, a tree
  by an order is a set in which an item replaces the items that are not ordered against it, and
  the spatial index is a bag of rectangles with their items.  The bag is read by \<open>items\<close>.
\<close>

section \<open>What the trees promise\<close>

definition rect_ordered :: "rect32 \<Rightarrow> bool" where
  "rect_ordered r \<longleftrightarrow> \<not> f_isnan (lo_x r) \<and> \<not> f_isnan (lo_y r) \<and> \<not> f_isnan (hi_x r) \<and> \<not> f_isnan (hi_y r)"

definition unordered :: "('o \<Rightarrow> 'o \<Rightarrow> bool) \<Rightarrow> 'o \<Rightarrow> 'o \<Rightarrow> bool" where
  "unordered lt a b \<longleftrightarrow> \<not> lt a b \<and> \<not> lt b a"

definition tree_laws :: "('m, 't, 'r, 'o) tree_lib \<Rightarrow> ('r \<Rightarrow> (rect32 \<times> 'o) multiset) \<Rightarrow> bool" where
  "tree_laws tr items \<longleftrightarrow>
     (\<forall>m. finite (dom (bm_Get tr m))) \<and>
     bm_Get tr (bm_Empty tr) = Map.empty \<and>
     (\<forall>m k x. fst (bm_Set tr m k x) = bm_Get tr m k
        \<and> bm_Get tr (snd (bm_Set tr m k x)) = (bm_Get tr m)(k \<mapsto> x)) \<and>
     (\<forall>m k. fst (bm_Delete tr m k) = bm_Get tr m k
        \<and> bm_Get tr (snd (bm_Delete tr m k)) = (bm_Get tr m)(k := None)) \<and>
     set (bg_Scan tr (bg_Empty tr)) = {} \<and>
     (\<forall>lt t x. set (bg_Scan tr (bg_Set tr lt t x)) =
        insert x {y \<in> set (bg_Scan tr t). \<not> unordered lt y x}) \<and>
     (\<forall>lt t x. set (bg_Scan tr (bg_Delete tr lt t x)) =
        {y \<in> set (bg_Scan tr t). \<not> unordered lt y x}) \<and>
     items (rt_Empty tr) = {#} \<and>
     (\<forall>t r x. items (rt_Insert tr t r x) = add_mset (r, x) (items t)) \<and>
     (\<forall>t r x. rect_ordered r \<longrightarrow> items (rt_Delete tr t r x) = items t - {#(r, x)#})"

lemma bm_laws:
  assumes "tree_laws tr items"
  shows "finite (dom (bm_Get tr m))" and "bm_Get tr (bm_Empty tr) = Map.empty"
    and "fst (bm_Set tr m k x) = bm_Get tr m k" "bm_Get tr (snd (bm_Set tr m k x)) = (bm_Get tr m)(k \<mapsto> x)"
    and "fst (bm_Delete tr m k) = bm_Get tr m k"
    and "bm_Get tr (snd (bm_Delete tr m k)) = (bm_Get tr m)(k := None)"
  using assms unfolding tree_laws_def by blast+

lemma bg_laws:
  assumes "tree_laws tr items"
  shows "set (bg_Scan tr (bg_Empty tr)) = {}"
    and "set (bg_Scan tr (bg_Set tr lt t x)) = insert x {y \<in> set (bg_Scan tr t). \<not> unordered lt y x}"
    and "set (bg_Scan tr (bg_Delete tr lt t x)) = {y \<in> set (bg_Scan tr t). \<not> unordered lt y x}"
  using assms unfolding tree_laws_def by blast+

lemma rt_laws:
  assumes "tree_laws tr items"
  shows "items (rt_Empty tr) = {#}" and "items (rt_Insert tr t r x) = add_mset (r, x) (items t)"
    and "rect_ordered r \<Longrightarrow> items (rt_Delete tr t r x) = items t - {#(r, x)#}"
  using assms unfolding tree_laws_def by blast+

section \<open>What the indexes describe\<close>

definition indexed :: "('g, 'p) geojson_lib \<Rightarrow> ('g, 'p) Object \<Rightarrow> bool" where
  "indexed gl x \<longleftrightarrow> Object_IsSpatial gl x \<and> \<not> geo_Empty gl (ogeom gl x)"

definition coll_inv ::
  "('m, 't, 'r, ('g, 'p) Object) tree_lib \<Rightarrow> ('r \<Rightarrow> (rect32 \<times> ('g, 'p) Object) multiset)
     \<Rightarrow> ('g, 'p) geojson_lib \<Rightarrow> ('m, 't, 'r) Collection \<Rightarrow> ('g, 'p) Object set \<Rightarrow> bool" where
  "coll_inv tr items gl c S \<longleftrightarrow>
     finite S \<and> inj_on oid S \<and>
     set (bg_Scan tr (co_values c)) = {x \<in> S. \<not> Object_IsSpatial gl x} \<and>
     set (bg_Scan tr (co_expires c)) = {x \<in> S. oexpires x \<noteq> 0} \<and>
     items (co_spatial c) = image_mset (rtreeItem gl) (mset_set {x \<in> S. indexed gl x}) \<and>
     co_points c = (\<Sum>x \<in> S. geo_NumPoints gl (ogeom gl x)) \<and>
     co_weight c = (\<Sum>x \<in> S. oweight gl x) \<and>
     co_objects c = int (card {x \<in> S. Object_IsSpatial gl x}) \<and>
     co_nobjects c = int (card {x \<in> S. \<not> Object_IsSpatial gl x})"

lemma byID_unordered: "oid a \<noteq> oid b \<Longrightarrow> \<not> unordered (byValue gl) a b" "oid a \<noteq> oid b \<Longrightarrow> \<not> unordered byExpires a b"
  "unordered (byValue gl) a a" "unordered byExpires a a"
  by (auto simp: unordered_def byValue_def byExpires_def byID_def Let_def)

lemma filter_insert_card:
  "finite S \<Longrightarrow> x \<notin> S \<Longrightarrow> card {y \<in> insert x S. P y} = card {y \<in> S. P y} + (if P x then 1 else 0)"
proof -
  assume S: "finite S" "x \<notin> S"
  have "{y \<in> insert x S. P y} = (if P x then insert x {y \<in> S. P y} else {y \<in> S. P y})" by auto
  with S show ?thesis by simp
qed

lemma filter_insert_mset:
  "finite S \<Longrightarrow> x \<notin> S \<Longrightarrow> mset_set {y \<in> insert x S. P y}
     = (if P x then add_mset x (mset_set {y \<in> S. P y}) else mset_set {y \<in> S. P y})"
proof -
  assume S: "finite S" "x \<notin> S"
  have "{y \<in> insert x S. P y} = (if P x then insert x {y \<in> S. P y} else {y \<in> S. P y})" by auto
  with S show ?thesis by simp
qed

lemma insert_new_scan:
  assumes "inj_on oid (insert x S)" and "x \<notin> S" and "\<And>y. oid y \<noteq> oid x \<Longrightarrow> \<not> unordered lt y x"
  shows "insert x {y \<in> {y \<in> S. P y}. \<not> unordered lt y x} = insert x {y \<in> S. P y}"
  using assms by (auto simp: inj_on_def)

lemma remove_scan:
  assumes "inj_on oid (insert x S)" and "x \<notin> S" and "\<And>y. oid y \<noteq> oid x \<Longrightarrow> \<not> unordered lt y x"
    and "unordered lt x x"
  shows "{y \<in> {y \<in> insert x S. P y}. \<not> unordered lt y x} = {y \<in> S. P y}"
  using assms by (auto simp: inj_on_def)

text \<open>Putting an object in adds it to what the indexes describe; taking it out removes it.\<close>

lemma putIn_inv:
  assumes laws: "tree_laws tr items" and inv: "coll_inv tr items gl c S"
    and x: "x \<notin> S" "inj_on oid (insert x S)"
  shows "coll_inv tr items gl (putIn tr gl x c) (insert x S)"
proof -
  have S: "finite S" using inv by (simp add: coll_inv_def)
  have V: "insert x {y \<in> S. P y \<and> \<not> unordered (byValue gl) y x} = insert x {y \<in> S. P y}"
    "insert x {y \<in> S. P y \<and> \<not> unordered byExpires y x} = insert x {y \<in> S. P y}" for P
    using insert_new_scan [OF x(2,1), of "byValue gl" P] insert_new_scan [OF x(2,1), of byExpires P]
    by (simp_all add: byID_unordered)
  have I: "{y. (y = x \<or> y \<in> S) \<and> P y} = (if P x then insert x {y \<in> S. P y} else {y \<in> S. P y})" for P by auto
  show ?thesis
    using inv x S filter_insert_card [OF S x(1)] filter_insert_mset [OF S x(1)]
    by (auto simp: coll_inv_def putIn_def indexInsert_def indexed_def Let_def bg_laws [OF laws] rt_laws [OF laws]
        V I rtreeItem_def)
qed

lemma takeOut_inv:
  assumes laws: "tree_laws tr items" and inv: "coll_inv tr items gl c (insert x S)"
    and x: "x \<notin> S" "indexed gl x \<longrightarrow> rect_ordered (fst (rtreeItem gl x))"
  shows "coll_inv tr items gl (takeOut tr gl x c) S"
proof -
  have S: "finite S" "inj_on oid (insert x S)" "inj_on oid S"
    using inv by (auto simp: coll_inv_def inj_on_def)
  have V: "{y. (y = x \<or> y \<in> S) \<and> P y \<and> \<not> unordered (byValue gl) y x} = {y \<in> S. P y}"
    "{y. (y = x \<or> y \<in> S) \<and> P y \<and> \<not> unordered byExpires y x} = {y \<in> S. P y}" for P
    using remove_scan [OF S(2) x(1), of "byValue gl" P] remove_scan [OF S(2) x(1), of byExpires P]
    by (simp_all add: byID_unordered)
  have item: "rtreeItem gl x = (fst (rtreeItem gl x), x)" by (simp add: rtreeItem_def)
  have sp: "items (co_spatial (indexDelete tr gl x c)) = image_mset (rtreeItem gl) (mset_set {y \<in> S. indexed gl y})"
    if "Object_IsSpatial gl x"
  proof (cases "indexed gl x")
    case True
    then have "items (co_spatial (indexDelete tr gl x c)) = items (co_spatial c) - {#rtreeItem gl x#}"
      using rt_laws(3) [OF laws] x(2) item by (simp add: indexDelete_def indexed_def)
    then show ?thesis
      using inv True filter_insert_mset [OF S(1) x(1), of "indexed gl"] by (simp add: coll_inv_def)
  next
    case False
    then have "indexDelete tr gl x c = c" using that by (simp add: indexDelete_def indexed_def)
    then show ?thesis
      using inv False filter_insert_mset [OF S(1) x(1), of "indexed gl"] by (simp add: coll_inv_def)
  qed
  have ns: "mset_set {y \<in> insert x S. indexed gl y} = mset_set {y \<in> S. indexed gl y}" if "\<not> Object_IsSpatial gl x"
    using that filter_insert_mset [OF S(1) x(1), of "indexed gl"] by (simp add: indexed_def)
  have keep: "co_values (indexDelete tr gl x c) = co_values c" "co_expires (indexDelete tr gl x c) = co_expires c"
    "co_points (indexDelete tr gl x c) = co_points c" "co_weight (indexDelete tr gl x c) = co_weight c"
    "co_objects (indexDelete tr gl x c) = co_objects c" "co_nobjects (indexDelete tr gl x c) = co_nobjects c"
    by (simp_all add: indexDelete_def)
  show ?thesis
    using inv x(1) S filter_insert_card [OF S(1) x(1), of "Object_IsSpatial gl"]
      filter_insert_card [OF S(1) x(1), of "\<lambda>y. \<not> Object_IsSpatial gl y"] sp ns
    by (cases "Object_IsSpatial gl x"; cases "oexpires x = 0")
       (auto simp: coll_inv_def takeOut_def Let_def bg_laws [OF laws] V keep)
qed

section \<open>The invariant of a collection\<close>

definition coll_ok ::
  "('m, 't, 'r, ('g, 'p) Object) tree_lib \<Rightarrow> ('r \<Rightarrow> (rect32 \<times> ('g, 'p) Object) multiset)
     \<Rightarrow> ('g, 'p) geojson_lib \<Rightarrow> ('m, 't, 'r) Collection \<Rightarrow> bool" where
  "coll_ok tr items gl c \<longleftrightarrow>
     (\<forall>k x. bm_Get tr (co_objs c) k = Some x \<longrightarrow> oid x = k) \<and>
     (\<forall>x \<in> ran (bm_Get tr (co_objs c)). indexed gl x \<longrightarrow> rect_ordered (fst (rtreeItem gl x))) \<and>
     coll_inv tr items gl c (ran (bm_Get tr (co_objs c)))"

lemma coll_ok_New: "tree_laws tr items \<Longrightarrow> coll_ok tr items gl (Collection_New tr)"
  by (simp add: coll_ok_def coll_inv_def Collection_New_def bm_laws bg_laws rt_laws)

lemma coll_inv_objs [simp]: "coll_inv tr items gl (c\<lparr>co_objs := m\<rparr>) S = coll_inv tr items gl c S"
  by (simp add: coll_inv_def)

lemma takeOut_objs: "co_objs (takeOut tr gl x c) = co_objs c"
  by (simp add: takeOut_def indexDelete_def Let_def)

lemma putIn_objs: "co_objs (putIn tr gl x c) = co_objs c"
  by (simp add: putIn_def indexInsert_def Let_def)

text \<open>The objects of a map whose keys are their identifiers.\<close>

lemma keyed_ran:
  assumes "\<forall>k x. M k = Some x \<longrightarrow> oid x = k"
  shows "inj_on oid (ran M)" and "M k = Some x \<longleftrightarrow> x \<in> ran M \<and> oid x = k"
  using assms by (auto simp: inj_on_def ran_def)

lemma keyed_delete:
  assumes "\<forall>k x. M k = Some x \<longrightarrow> oid x = k" and "M k = Some p"
  shows "ran M = insert p (ran (M(k := None)))" and "p \<notin> ran (M(k := None))"
proof -
  have "x \<in> ran (M(k := None))" if "M a = Some x" "x \<noteq> p" for a x
    using that assms(2) unfolding ran_def by (auto intro!: exI [of _ a])
  then show "ran M = insert p (ran (M(k := None)))"
    using assms(2) by (auto simp: ran_def [of M]) (auto simp: ran_def split: if_splits)
  show "p \<notin> ran (M(k := None))" using assms by (auto simp: ran_def split: if_splits)
qed

lemma coll_ok_Delete:
  assumes laws: "tree_laws tr items" and ok: "coll_ok tr items gl c"
  shows "fst (Collection_Delete tr gl k c) = bm_Get tr (co_objs c) k"
    and "coll_ok tr items gl (snd (Collection_Delete tr gl k c))"
    and "bm_Get tr (co_objs (snd (Collection_Delete tr gl k c))) = (bm_Get tr (co_objs c))(k := None)"
proof -
  let ?M = "bm_Get tr (co_objs c)"
  obtain objs where del: "bm_Delete tr (co_objs c) k = (?M k, objs)" "bm_Get tr objs = ?M(k := None)"
    using bm_laws(5,6) [OF laws, of "co_objs c" k] by (metis prod.collapse)
  have key: "\<forall>k x. ?M k = Some x \<longrightarrow> oid x = k" using ok by (simp add: coll_ok_def)
  have ran: "ran (?M(k := None)) \<subseteq> ran ?M" by (auto simp: ran_def split: if_splits)
  show "fst (Collection_Delete tr gl k c) = ?M k"
    by (simp add: Collection_Delete_def del(1) Let_def split: option.splits)
  have snd: "snd (Collection_Delete tr gl k c) =
      (case ?M k of None \<Rightarrow> c\<lparr>co_objs := objs\<rparr> | Some p \<Rightarrow> takeOut tr gl p (c\<lparr>co_objs := objs\<rparr>))"
    by (auto simp: Collection_Delete_def del(1) takeOut_def indexDelete_def Let_def split: option.splits)
  show "bm_Get tr (co_objs (snd (Collection_Delete tr gl k c))) = ?M(k := None)"
    unfolding snd using del(2) by (simp add: takeOut_objs split: option.splits)
  moreover have "coll_inv tr items gl (snd (Collection_Delete tr gl k c)) (ran (?M(k := None)))"
  proof (cases "?M k")
    case None
    then have "?M(k := None) = ?M" by auto
    with None ok show ?thesis by (simp add: snd coll_ok_def)
  next
    case (Some p)
    have "coll_inv tr items gl (c\<lparr>co_objs := objs\<rparr>) (insert p (ran (?M(k := None))))"
      using ok keyed_delete(1) [OF key Some] by (simp add: coll_ok_def)
    moreover have "p \<in> ran ?M" using Some by (auto simp: ran_def)
    ultimately show ?thesis
      unfolding snd using takeOut_inv [OF laws _ keyed_delete(2) [OF key Some]] ok Some
      by (simp add: coll_ok_def)
  qed
  ultimately show "coll_ok tr items gl (snd (Collection_Delete tr gl k c))"
    using ok key ran by (auto simp: coll_ok_def)
qed

lemma coll_ok_Set:
  assumes laws: "tree_laws tr items" and ok: "coll_ok tr items gl c"
    and x: "indexed gl x \<longrightarrow> rect_ordered (fst (rtreeItem gl x))"
  shows "fst (Collection_Set tr gl x c) = bm_Get tr (co_objs c) (oid x)"
    and "coll_ok tr items gl (snd (Collection_Set tr gl x c))"
    and "bm_Get tr (co_objs (snd (Collection_Set tr gl x c))) = (bm_Get tr (co_objs c))(oid x \<mapsto> x)"
proof -
  let ?M = "bm_Get tr (co_objs c)" and ?k = "oid x"
  let ?R = "ran (?M(?k := None))"
  obtain objs where set: "bm_Set tr (co_objs c) ?k x = (?M ?k, objs)" "bm_Get tr objs = ?M(?k \<mapsto> x)"
    using bm_laws(3,4) [OF laws, of "co_objs c" ?k x] by (metis prod.collapse)
  have key: "\<forall>k x. ?M k = Some x \<longrightarrow> oid x = k" using ok by (simp add: coll_ok_def)
  define c1 where "c1 = (case ?M ?k of None \<Rightarrow> c\<lparr>co_objs := objs\<rparr> | Some p \<Rightarrow> takeOut tr gl p (c\<lparr>co_objs := objs\<rparr>))"
  have snd: "snd (Collection_Set tr gl x c) = putIn tr gl x c1"
    by (simp add: Collection_Set_def set(1) setFill_def c1_def)
  show "fst (Collection_Set tr gl x c) = ?M ?k" by (simp add: Collection_Set_def set(1))
  have objs: "co_objs c1 = objs" by (simp add: c1_def takeOut_objs split: option.splits)
  then show "bm_Get tr (co_objs (snd (Collection_Set tr gl x c))) = ?M(?k \<mapsto> x)"
    using set(2) by (simp add: snd putIn_objs)
  have c1: "coll_inv tr items gl c1 ?R"
  proof (cases "?M ?k")
    case None
    then have "?M(?k := None) = ?M" by auto
    with None ok show ?thesis by (simp add: c1_def coll_ok_def)
  next
    case (Some p)
    have "coll_inv tr items gl (c\<lparr>co_objs := objs\<rparr>) (insert p ?R)"
      using ok keyed_delete(1) [OF key Some] by (simp add: coll_ok_def)
    moreover have "p \<in> ran ?M" using Some by (auto simp: ran_def)
    ultimately show ?thesis
      unfolding c1_def using takeOut_inv [OF laws _ keyed_delete(2) [OF key Some]] ok Some
      by (simp add: coll_ok_def)
  qed
  have R: "x \<notin> ?R" "inj_on oid (insert x ?R)" "ran (?M(?k \<mapsto> x)) = insert x ?R" "?R \<subseteq> ran ?M"
    using key by (auto simp: ran_def inj_on_def split: if_splits)
  have "coll_inv tr items gl (snd (Collection_Set tr gl x c)) (insert x ?R)"
    unfolding snd by (rule putIn_inv [OF laws c1 R(1,2)])
  then show "coll_ok tr items gl (snd (Collection_Set tr gl x c))"
    using key x ok R(3,4) by (auto simp: coll_ok_def snd putIn_objs objs set(2))
qed

end
