(* ===== verification/Collection_Scan.thy ===== *)
theory Collection_Scan
  imports Collection_Invariant
begin

text \<open>
  What the iterations of a collection hand to their callers: the scans in the order of the
  identifiers with cursor and range, and the searches by area.
\<close>

section \<open>Feeding a caller\<close>

fun feed :: "('o, 's) iterator \<Rightarrow> 'o list \<Rightarrow> 's \<Rightarrow> bool \<times> 's" where
  "feed iter [] st = (True, st)"
| "feed iter (x # xs) st = (case iter x st of (k, u) \<Rightarrow> if k then feed iter xs u else (False, u))"

lemma nextStep_no_deadline:
  "sc_deadline s = None \<Longrightarrow>
   nextStep clock step s = Inr (s\<lparr>sc_cursor := map_option (Cursor_Step 1) (sc_cursor s)\<rparr>)"
  by (simp add: nextStep_def Deadline_Check_def)

lemma unat_Suc_count: "unat (w :: 64 word) + Suc n < 2 ^ 64 \<Longrightarrow> unat (w + 1) = Suc (unat w)"
  by (simp add: unat_word_ariths)

lemma walk_scanIter:
  "unat (sc_count s) + length xs < 2 ^ 64 \<Longrightarrow> sc_deadline s = None \<Longrightarrow> sc_keepon s \<Longrightarrow>
   \<exists>s'. walk (scanIter clock offset stop iter) xs s = Inr s' \<and> sc_deadline s' = None
     \<and> (sc_keepon s', sc_user s') =
       feed iter (takeWhile (\<lambda>x. \<not> stop x) (drop (unat offset - unat (sc_count s)) xs)) (sc_user s)"
proof (induction xs arbitrary: s)
  case (Cons x xs)
  let ?s1 = "s\<lparr>sc_count := sc_count s + 1\<rparr>"
  let ?s2 = "?s1\<lparr>sc_cursor := map_option (Cursor_Step 1) (sc_cursor s)\<rparr>"
  have count: "unat (sc_count s + 1) = Suc (unat (sc_count s))"
    using Cons.prems(1) unat_Suc_count [of "sc_count s" "length xs"] by simp
  show ?case
  proof (cases "sc_count s + 1 \<le> offset")
    case True
    then have d: "unat offset - unat (sc_count s) = Suc (unat offset - unat (sc_count s + 1))"
      using count by (simp add: word_le_nat_alt)
    from True have "walk (scanIter clock offset stop iter) (x # xs) s = walk (scanIter clock offset stop iter) xs ?s1"
      by (simp add: scanIter_def)
    with Cons.IH [of ?s1] Cons.prems count d show ?thesis by simp
  next
    case False
    then have d: "unat offset - unat (sc_count s) = 0" "unat offset - unat (sc_count s + 1) = 0"
      using count by (simp_all add: word_le_nat_alt)
    have next_s: "nextStep clock (sc_count s + 1) ?s1 = Inr ?s2" using Cons.prems(2) by (simp add: nextStep_no_deadline)
    show ?thesis
    proof (cases "stop x")
      case True
      with False Cons.prems next_s d show ?thesis by (simp add: scanIter_def)
    next
      case go: False
      obtain k u where k: "iter x (sc_user s) = (k, u)" by fastforce
      let ?s3 = "?s2\<lparr>sc_keepon := k, sc_user := u\<rparr>"
      have "scanIter clock offset stop iter x s = Inr (k, ?s3)"
        using False go next_s k by (simp add: scanIter_def)
      with Cons.IH [of ?s3] Cons.prems count d go k show ?thesis by (cases k) simp_all
    qed
  qed
qed simp

text \<open>An iteration from its beginning, with or without a cursor.\<close>

definition offset_of :: "Cursor option \<Rightarrow> nat" where
  "offset_of cursor = (case cursor of None \<Rightarrow> 0 | Some cu \<Rightarrow> unat (cu_cursor cu))"

lemma walk_from_start:
  assumes "scanStart cursor None st = (offset, s)" and "length xs < 2 ^ 64"
  shows "\<exists>s'. walk (scanIter clock offset stop iter) xs s = Inr s'
    \<and> (sc_keepon s', sc_user s') = feed iter (takeWhile (\<lambda>x. \<not> stop x) (drop (offset_of cursor) xs)) st"
proof -
  have s: "sc_count s = 0" "sc_deadline s = None" "sc_keepon s" "sc_user s = st" "unat offset = offset_of cursor"
    using assms(1) by (auto simp: scanStart_def offset_of_def Cursor_Offset_def Let_def split: option.splits)
  show ?thesis using walk_scanIter [of s xs clock offset stop iter] assms(2) s by auto
qed

section \<open>The order of the identifiers\<close>

definition keys :: "('m, 't, 'r, 'o) tree_lib \<Rightarrow> 'm \<Rightarrow> gostring list" where
  "keys tr m = sorted_list_of_set (dom (bm_Get tr m))"

definition at_keys :: "('m, 't, 'r, 'o) tree_lib \<Rightarrow> 'm \<Rightarrow> gostring list \<Rightarrow> 'o list" where
  "at_keys tr m ks = map (\<lambda>k. the (bm_Get tr m k)) ks"

text \<open>What the library documents of the iterations of a tree by identifier.\<close>

definition scan_laws :: "('m, 't, 'r, 'o) tree_lib \<Rightarrow> bool" where
  "scan_laws tr \<longleftrightarrow>
     (\<forall>m. bm_Scan tr m = at_keys tr m (keys tr m)) \<and>
     (\<forall>m. bm_Reverse tr m = at_keys tr m (rev (keys tr m))) \<and>
     (\<forall>m k. bm_Ascend tr m k = at_keys tr m (filter (\<lambda>i. k \<le> i) (keys tr m))) \<and>
     (\<forall>m k. bm_Descend tr m k = at_keys tr m (rev (filter (\<lambda>i. i \<le> k) (keys tr m))))"

text \<open>The objects of a collection by ascending identifier.\<close>

definition objects :: "('m, 't, 'r, 'o) tree_lib \<Rightarrow> ('m, 't, 'r) Collection \<Rightarrow> 'o list" where
  "objects tr c = at_keys tr (co_objs c) (keys tr (co_objs c))"

lemma objects_ids:
  assumes "tree_laws tr items" and "coll_ok tr items gl c"
  shows "map oid (objects tr c) = keys tr (co_objs c)" and "sorted_wrt (<) (map oid (objects tr c))"
    and "set (objects tr c) = ran (bm_Get tr (co_objs c))"
proof -
  let ?M = "bm_Get tr (co_objs c)"
  have key: "\<forall>k x. ?M k = Some x \<longrightarrow> oid x = k" using assms(2) by (simp add: coll_ok_def)
  have fin: "finite (dom ?M)" using bm_laws(1) [OF assms(1)] .
  have "oid (the (?M k)) = k" if "k \<in> dom ?M" for k using that key by auto
  then show ids: "map oid (objects tr c) = keys tr (co_objs c)"
    using fin by (auto simp: objects_def at_keys_def keys_def intro!: map_idI)
  show "sorted_wrt (<) (map oid (objects tr c))"
    unfolding ids keys_def using fin by simp
  show "set (objects tr c) = ran ?M"
    using fin by (force simp: objects_def at_keys_def keys_def ran_def)
qed

lemma takeWhile_filter_sorted:
  assumes "sorted_wrt (<) (map f xs)"
  shows "takeWhile (\<lambda>x. \<not> e \<le> f x) xs = filter (\<lambda>x. f x < (e :: 'a :: linorder)) xs"
  using assms
proof (induction xs)
  case (Cons x xs)
  show ?case
  proof (cases "e \<le> f x")
    case True
    then have "filter (\<lambda>x. f x < e) xs = []" using Cons.prems by (fastforce simp: filter_empty_conv)
    with True show ?thesis by simp
  qed (use Cons in simp)
qed simp

lemma takeWhile_filter_rev_sorted:
  assumes "sorted_wrt (>) (map f xs)"
  shows "takeWhile (\<lambda>x. \<not> f x \<le> e) xs = filter (\<lambda>x. (e :: 'a :: linorder) < f x) xs"
  using assms
proof (induction xs)
  case (Cons x xs)
  show ?case
  proof (cases "f x \<le> e")
    case True
    then have "filter (\<lambda>x. e < f x) xs = []" using Cons.prems by (fastforce simp: filter_empty_conv)
    with True show ?thesis by simp
  qed (use Cons in simp)
qed simp

end
