(* ===== verification/Collection_Properties.thy ===== *)
theory Collection_Properties
  imports Collection_Scan
begin

text \<open>
  The properties of collections: the indexes and counters stay exact, scans
  page through the identifiers, and what the searches by area hand to their callers.
\<close>

section \<open>Searches by area\<close>

definition nan_rect :: "rect32 \<Rightarrow> bool" where
  "nan_rect r \<longleftrightarrow> f_isnan (lo_x r) \<and> f_isnan (lo_y r) \<and> f_isnan (hi_x r) \<and> f_isnan (hi_y r)"

abbreviation alive_iter ::
  "('o \<Rightarrow> 's \<Rightarrow> iter_error + (bool \<times> 's)) \<Rightarrow> 'o \<Rightarrow> bool \<times> 's \<Rightarrow> iter_error + (bool \<times> bool \<times> 's)" where
  "alive_iter f \<equiv> (\<lambda>obj (alive, s). bindE (f obj s) (\<lambda>(k, s'). Inr (k, (k, s'))))"

lemma walk_areaIter:
  "unat (sc_count s) + length xs < 2 ^ 64 \<Longrightarrow> sc_deadline s = None \<Longrightarrow>
   \<exists>alive s'. walk (alive_iter (areaIter clock offset pred iter)) xs (True, s) = Inr (alive, s')
     \<and> (alive, sc_user s') = feed iter (filter pred (drop (unat offset - unat (sc_count s)) xs)) (sc_user s)"
proof (induction xs arbitrary: s)
  case (Cons x xs)
  let ?s1 = "s\<lparr>sc_count := sc_count s + 1\<rparr>"
  let ?s2 = "?s1\<lparr>sc_cursor := map_option (Cursor_Step 1) (sc_cursor s)\<rparr>"
  have count: "unat (sc_count s + 1) = Suc (unat (sc_count s))"
    using Cons.prems(1) unat_Suc_count [of "sc_count s" "length xs"] by simp
  show ?case
  proof (cases "sc_count s + 1 \<le> offset")
    case True
    then have "unat offset - unat (sc_count s) = Suc (unat offset - unat (sc_count s + 1))"
      using count by (simp add: word_le_nat_alt)
    with True Cons.IH [of ?s1] Cons.prems count show ?thesis by (simp add: areaIter_def)
  next
    case False
    then have d: "unat offset - unat (sc_count s) = 0" "unat offset - unat (sc_count s + 1) = 0"
      using count by (simp_all add: word_le_nat_alt)
    have next_s: "nextStep clock (sc_count s + 1) ?s1 = Inr ?s2" using Cons.prems(2) by (simp add: nextStep_no_deadline)
    show ?thesis
    proof (cases "pred x")
      case True
      obtain k u where k: "iter x (sc_user s) = (k, u)" by fastforce
      with False True next_s Cons.IH [of "?s2\<lparr>sc_user := u\<rparr>"] Cons.prems count d show ?thesis
        by (cases k) (simp_all add: areaIter_def exI [of Not False])
    next
      case skip: False
      with False next_s Cons.IH [of ?s2] Cons.prems count d show ?thesis by (simp add: areaIter_def)
    qed
  qed
qed auto

text \<open>
  What a sparse search finds: the rectangle is divided into quarters, these again, and so on, and the index
  offers the candidates of each.
\<close>

fun sparse_quads :: "nat \<Rightarrow> Rect \<Rightarrow> Rect list" where
  "sparse_quads 0 rect = [rect]"
| "sparse_quads (Suc k) rect = concat (map (sparse_quads k) (quads rect))"

definition candidates ::
  "('m, 't, 'r, 'o) tree_lib \<Rightarrow> ('m, 't, 'r) Collection \<Rightarrow> Rect \<Rightarrow> 'o list" where
  "candidates tr c rect =
     (if nan_rect (rtreeRect rect) then [] else rt_Search tr (co_spatial c) (rtreeRect rect))"

text \<open>
  The candidates that are handed over, \<open>n\<close> being the number of those still to be skipped: a known one is passed
  by, a match ends its quarter, and a mismatch ends everything.
\<close>

function sparse_hits ::
  "(('g, 'p) Object \<Rightarrow> bool) \<Rightarrow> nat \<Rightarrow> gostring set \<Rightarrow> ('g, 'p) Object list list \<Rightarrow> ('g, 'p) Object list" where
  "sparse_hits pred n found [] = []"
| "sparse_hits pred n found ([] # quarters) = sparse_hits pred n found quarters"
| "sparse_hits pred n found ((x # xs) # quarters) =
     (if oid x \<in> found then sparse_hits pred n found (xs # quarters)
      else if 0 < n then sparse_hits pred (n - 1) found (xs # quarters)
      else if pred x then x # sparse_hits pred 0 (insert (oid x) found) quarters
      else [])"
  by pat_completeness auto
termination
  by (relation "measure (\<lambda>(pred, n, found, quarters). length quarters + length (concat quarters))") auto

abbreviation leaf_iter ::
  "('o \<Rightarrow> 's \<Rightarrow> iter_error + (bool \<times> bool \<times> 's)) \<Rightarrow> 'o \<Rightarrow> bool \<times> 's \<Rightarrow> iter_error + (bool \<times> bool \<times> 's)" where
  "leaf_iter f \<equiv> (\<lambda>obj (alive, s). bindE (f obj s) (\<lambda>(match, ok, s').
     if \<not> ok then Inr (False, (False, s')) else Inr (\<not> match, (alive, s'))))"

abbreviation found_iter ::
  "(('g, 'p) Object \<Rightarrow> 's \<Rightarrow> iter_error + (bool \<times> bool \<times> 's)) \<Rightarrow> ('g, 'p) Object \<Rightarrow> gostring list \<times> 's
     \<Rightarrow> iter_error + (bool \<times> bool \<times> gostring list \<times> 's)" where
  "found_iter f \<equiv> (\<lambda>obj (matches, s).
     if oid obj \<in> set matches then Inr (False, True, (matches, s))
     else bindE (f obj s) (\<lambda>(match, ok, s').
            Inr (match, ok, (if match then oid obj # matches else matches, s'))))"

lemma walk_append:
  "walk (alive_iter f) (xs @ ys) (True, s) =
   bindE (walk (alive_iter f) xs (True, s)) (\<lambda>(alive, s'). if alive then walk (alive_iter f) ys (True, s') else Inr (False, s'))"
proof (induction xs arbitrary: s)
  case (Cons x xs)
  show ?case
  proof (cases "f x s")
    case (Inr p)
    obtain k s' where "p = (k, s')" by fastforce
    with Inr Cons show ?thesis by (cases k) simp_all
  qed simp
qed simp

text \<open>The recursion over the quarters is one walk over all of them.\<close>

lemma geoSparseInner_walk:
  "geoSparseInner tr k rect f s c = walk (alive_iter (\<lambda>quad s. sparseLeaf tr quad f s c)) (sparse_quads k rect) (True, s)"
proof (induction k arbitrary: rect s)
  case 0
  show ?case by (cases "sparseLeaf tr rect f s c") (auto split: prod.splits)
next
  case (Suc k)
  have "walk (\<lambda>quad (_, s). bindE (geoSparseInner tr k quad f s c) (\<lambda>(alive, s'). Inr (alive, (alive, s')))) qs (True, s)
      = walk (alive_iter (\<lambda>quad s. sparseLeaf tr quad f s c)) (concat (map (sparse_quads k) qs)) (True, s)" for qs
  proof (induction qs arbitrary: s)
    case (Cons q qs)
    show ?case
    proof (cases "geoSparseInner tr k q f s c")
      case (Inr p)
      obtain a s' where "p = (a, s')" by fastforce
      with Inr Cons Suc [of q s] show ?thesis by (cases a) (simp_all add: walk_append)
    qed (use Suc [of q s] in \<open>simp add: walk_append\<close>)
  qed simp
  then show ?case by simp
qed

lemma sparseLeaf_walk:
  "sparseLeaf tr rect f s c =
   bindE (walk (alive_iter (leaf_iter f)) (candidates tr c rect) (True, (True, s))) (\<lambda>(_, (alive, s')). Inr (alive, s'))"
  by (simp add: sparseLeaf_def geoSearch_def candidates_def nan_rect_def Let_def)

lemma walk_leaf:
  "unat (sc_count s) + length xs < 2 ^ 64 \<Longrightarrow> sc_deadline s = None \<Longrightarrow>
   \<exists>b alive m' s'. walk (alive_iter (leaf_iter (found_iter (areaSparseIter clock offset pred iter)))) xs (True, (True, (m, s)))
       = Inr (b, (alive, (m', s')))
     \<and> unat (sc_count s') \<le> unat (sc_count s) + length xs \<and> sc_deadline s' = None
     \<and> (\<forall>quarters. snd (feed iter (sparse_hits pred (unat offset - unat (sc_count s)) (set m) (xs # quarters)) (sc_user s)) =
         (if alive then snd (feed iter (sparse_hits pred (unat offset - unat (sc_count s')) (set m') quarters) (sc_user s'))
          else sc_user s'))"
proof (induction xs arbitrary: m s)
  case (Cons x xs)
  let ?s1 = "s\<lparr>sc_count := sc_count s + 1\<rparr>"
  let ?s2 = "?s1\<lparr>sc_cursor := map_option (Cursor_Step 1) (sc_cursor s)\<rparr>"
  have count: "unat (sc_count s + 1) = Suc (unat (sc_count s))"
    using Cons.prems(1) unat_Suc_count [of "sc_count s" "length xs"] by simp
  have next_s: "nextStep clock (sc_count s + 1) ?s1 = Inr ?s2" using Cons.prems(2) by (simp add: nextStep_no_deadline)
  consider (known) "oid x \<in> set m" | (skip) "oid x \<notin> set m" "sc_count s + 1 \<le> offset"
    | (check) "oid x \<notin> set m" "\<not> sc_count s + 1 \<le> offset" by blast
  then show ?case
  proof cases
    case known
    with Cons.IH [of s m] Cons.prems show ?thesis by fastforce
  next
    case skip
    then have "unat offset - unat (sc_count s) = Suc (unat offset - unat (sc_count s + 1))"
      using count by (simp add: word_le_nat_alt)
    with skip Cons.IH [of ?s1 m] Cons.prems count show ?thesis by (fastforce simp: areaSparseIter_def)
  next
    case check
    then have d: "unat offset - unat (sc_count s) = 0" "unat offset - unat (sc_count s + 1) = 0"
      using count by (simp_all add: word_le_nat_alt)
    obtain k u where k: "iter x (sc_user s) = (k, u)" by fastforce
    show ?thesis
    proof (cases "pred x")
      case True
      with check d next_s count Cons.prems(2) k show ?thesis
        by (intro exI [of _ False] exI [of _ k] exI [of _ "oid x # m"] exI [of _ "?s2\<lparr>sc_user := u\<rparr>"]) (auto simp: areaSparseIter_def Let_def)
    next
      case False
      with check d next_s count Cons.prems(2) show ?thesis
        by (intro exI [of _ False] exI [of _ m] exI [of _ ?s2]) (auto simp: areaSparseIter_def Let_def)
    qed
  qed
qed auto

lemma walk_quarters:
  "unat (sc_count s) + length (concat (map (candidates tr c) rects)) < 2 ^ 64 \<Longrightarrow> sc_deadline s = None \<Longrightarrow>
   \<exists>alive m' s'. walk (alive_iter (\<lambda>quad s. sparseLeaf tr quad (found_iter (areaSparseIter clock offset pred iter)) s c)) rects (True, (m, s))
       = Inr (alive, (m', s'))
     \<and> sc_user s' = snd (feed iter (sparse_hits pred (unat offset - unat (sc_count s)) (set m) (map (candidates tr c) rects)) (sc_user s))"
proof (induction rects arbitrary: m s)
  case (Cons r rects)
  obtain b alive m' s' where leaf: "walk (alive_iter (leaf_iter (found_iter (areaSparseIter clock offset pred iter)))) (candidates tr c r)
        (True, (True, (m, s))) = Inr (b, (alive, (m', s')))"
      "unat (sc_count s') \<le> unat (sc_count s) + length (candidates tr c r)" "sc_deadline s' = None"
      "\<And>quarters. snd (feed iter (sparse_hits pred (unat offset - unat (sc_count s)) (set m) (candidates tr c r # quarters)) (sc_user s)) =
         (if alive then snd (feed iter (sparse_hits pred (unat offset - unat (sc_count s')) (set m') quarters) (sc_user s'))
          else sc_user s')"
    using walk_leaf [of s "candidates tr c r" clock offset pred iter m] Cons.prems by auto
  then have "sparseLeaf tr r (found_iter (areaSparseIter clock offset pred iter)) (m, s) c = Inr (alive, (m', s'))"
    by (simp add: sparseLeaf_walk)
  with leaf(2-) Cons.IH [of s' m'] Cons.prems show ?case by (cases alive) auto
qed (auto intro: exI [of _ True])

lemma sparse_search:
  assumes "0 < sparse" and "length (concat (map (candidates tr c) (sparse_quads (unat sparse) rect))) < 2 ^ 64"
  shows "\<exists>s. areaSearch tr clock pred rect sparse cursor None iter st c = Inr (True, s)
    \<and> sc_user s = snd (feed iter (sparse_hits pred (offset_of cursor) {} (map (candidates tr c) (sparse_quads (unat sparse) rect))) st)"
proof -
  obtain offset s where s: "scanStart cursor None st = (offset, s)" by fastforce
  then have s': "sc_count s = 0" "sc_deadline s = None" "sc_user s = st" "unat offset = offset_of cursor"
    by (auto simp: scanStart_def offset_of_def Cursor_Offset_def Let_def split: option.splits)
  from walk_quarters [of s tr c "sparse_quads (unat sparse) rect" clock offset pred iter "[]"] s' assms
  show ?thesis by (auto simp: areaSearch_def geoSparse_def geoSparseInner_walk s)
qed

section \<open>Sequences of updates\<close>

datatype ('g, 'p) coll_op = OpSet "('g, 'p) Object" | OpDelete gostring

fun run_op ::
  "('m, 't, 'r, ('g, 'p) Object) tree_lib \<Rightarrow> ('g, 'p) geojson_lib \<Rightarrow> ('g, 'p) coll_op
     \<Rightarrow> ('m, 't, 'r) Collection \<Rightarrow> ('m, 't, 'r) Collection" where
  "run_op tr gl (OpSet x) c = snd (Collection_Set tr gl x c)"
| "run_op tr gl (OpDelete k) c = snd (Collection_Delete tr gl k c)"

definition op_ok :: "('g, 'p) geojson_lib \<Rightarrow> ('g, 'p) coll_op \<Rightarrow> bool" where
  "op_ok gl oper = (case oper of
     OpSet x \<Rightarrow> indexed gl x \<longrightarrow> rect_ordered (fst (rtreeItem gl x)) | OpDelete k \<Rightarrow> True)"

lemma run_ops_ok:
  assumes "tree_laws tr items"
  shows "coll_ok tr items gl c \<Longrightarrow> list_all (op_ok gl) ops \<Longrightarrow> coll_ok tr items gl (fold (run_op tr gl) ops c)"
proof (induction ops arbitrary: c)
  case (Cons oper ops)
  have "coll_ok tr items gl (run_op tr gl oper c)"
    using Cons.prems coll_ok_Set(2) [OF assms] coll_ok_Delete(2) [OF assms]
    by (cases oper) (simp_all add: op_ok_def)
  with Cons show ?case by simp
qed simp

text \<open>The number of identifiers is the number of objects.\<close>

lemma coll_ok_Count:
  assumes "tree_laws tr items" and "coll_ok tr items gl c"
  shows "Count c = int (card (dom (bm_Get tr (co_objs c))))"
proof -
  let ?M = "bm_Get tr (co_objs c)"
  have key: "\<forall>k x. ?M k = Some x \<longrightarrow> oid x = k" using assms(2) by (simp add: coll_ok_def)
  have S: "finite (ran ?M)" using assms(2) by (simp add: coll_ok_def coll_inv_def)
  have "Count c = int (card {x \<in> ran ?M. Object_IsSpatial gl x} + card {x \<in> ran ?M. \<not> Object_IsSpatial gl x})"
    using assms(2) by (simp add: coll_ok_def coll_inv_def Count_def)
  also have "\<dots> = int (card (ran ?M))"
    using S by (subst card_Un_disjoint [symmetric]) (auto intro!: arg_cong [where f = card])
  also have "\<dots> = int (card (oid ` ran ?M))" using keyed_ran(1) [OF key] by (simp add: card_image)
  also have "oid ` ran ?M = dom ?M" using key by (force simp: ran_def)
  finally show ?thesis .
qed

section \<open>A concrete library\<close>

definition demo_tr :: "((gostring \<times> 'o) list, 'o list, (rect32 \<times> 'o) list, 'o) tree_lib" where
  "demo_tr =
     (let ks = (\<lambda>m. sort (remdups (map fst m))) in
      \<lparr>bm_Set = (\<lambda>m k x. (map_of m k, (k, x) # m)),
       bm_Delete = (\<lambda>m k. (map_of m k, filter (\<lambda>e. fst e \<noteq> k) m)),
       bm_Get = map_of,
       bm_Scan = (\<lambda>m. map (\<lambda>k. the (map_of m k)) (ks m)),
       bm_Reverse = (\<lambda>m. map (\<lambda>k. the (map_of m k)) (rev (ks m))),
       bm_Ascend = (\<lambda>m i. map (\<lambda>k. the (map_of m k)) (filter (\<lambda>k. i \<le> k) (ks m))),
       bm_Descend = (\<lambda>m i. map (\<lambda>k. the (map_of m k)) (rev (filter (\<lambda>k. k \<le> i) (ks m)))),
       bm_Empty = [],
       bg_Set = (\<lambda>lt t x. x # filter (\<lambda>y. \<not> unordered lt y x) t),
       bg_Delete = (\<lambda>lt t x. filter (\<lambda>y. \<not> unordered lt y x) t),
       bg_Scan = (\<lambda>t. t), bg_Reverse = rev,
       bg_Ascend = (\<lambda>lt t x. filter (\<lambda>y. \<not> lt y x) t), bg_Descend = (\<lambda>lt t x. filter (\<lambda>y. \<not> lt x y) t),
       bg_Empty = [],
       rt_Insert = (\<lambda>t r x. (r, x) # t), rt_Delete = (\<lambda>t r x. remove1 (r, x) t),
       rt_Search = (\<lambda>t r. map snd t),
       rt_LeftMost = (\<lambda>t. None), rt_BottomMost = (\<lambda>t. None), rt_RightMost = (\<lambda>t. None), rt_TopMost = (\<lambda>t. None),
       rt_Empty = []\<rparr>)"

lemma demo_tree_laws: "tree_laws demo_tr mset"
proof -
  have "map_of (filter (\<lambda>e. fst e \<noteq> k) m) = (map_of m)(k := None)" for k :: gostring and m :: "(gostring \<times> 'a) list"
    by (induction m) auto
  then show ?thesis by (auto simp: tree_laws_def demo_tr_def Let_def finite_dom_map_of)
qed

lemma demo_keys: "keys demo_tr m = sort (remdups (map fst m))"
  by (simp add: keys_def demo_tr_def Let_def dom_map_of_conv_image_fst
      sorted_list_of_set_sort_remdups [symmetric])

lemma demo_scan_laws: "scan_laws demo_tr"
  unfolding scan_laws_def demo_keys by (simp add: demo_tr_def at_keys_def Let_def)

text \<open>Geometries that are rectangles.\<close>

definition demo_gl :: "(Rect, unit) geojson_lib" where
  "demo_gl = \<lparr>gl_type = (\<lambda>g. TOther), gl_IsSimple = (\<lambda>g. False), gl_Base = (\<lambda>g. ()),
     gl_SimplePoint = (\<lambda>p. zeroRect), gl_Spatial = (\<lambda>g. True), gl_Empty = (\<lambda>g. False), gl_Rect = (\<lambda>g. g),
     gl_String = (\<lambda>g. []), gl_NumPoints = (\<lambda>g. 4), gl_Within = (\<lambda>a b. a = b), gl_Intersects = (\<lambda>a b. True)\<rparr>"

definition demo_str :: "string \<Rightarrow> (Rect, unit) Object" where
  "demo_str k = Object_New demo_gl (lit k) (GString (lit ''v'')) 0 None"

lemma demo_str_simps [simp]: "oid (demo_str k) = lit k" "\<not> indexed demo_gl (demo_str k)"
  by (simp_all add: demo_str_def indexed_def Object_IsSpatial_def Object_New_geo kept_geo_def)

definition demo_coll ::
  "((gostring \<times> (Rect, unit) Object) list, (Rect, unit) Object list, (rect32 \<times> (Rect, unit) Object) list) Collection" where
  "demo_coll = fold (run_op demo_tr demo_gl) [OpSet (demo_str ''b''), OpSet (demo_str ''a'')] (Collection_New demo_tr)"

lemma demo_coll_ok: "coll_ok demo_tr mset demo_gl demo_coll"
  unfolding demo_coll_def
  by (rule run_ops_ok [OF demo_tree_laws coll_ok_New [OF demo_tree_laws]]) (simp add: op_ok_def)

lemma demo_coll_objs: "co_objs demo_coll = [(lit ''a'', demo_str ''a''), (lit ''b'', demo_str ''b'')]"
  by (simp add: demo_coll_def Collection_Set_def setFill_def putIn_objs takeOut_objs Collection_New_def demo_tr_def Let_def)

lemma demo_objects: "objects demo_tr demo_coll = [demo_str ''a'', demo_str ''b'']"
proof -
  have "sort (remdups [lit ''a'', lit ''b'']) = [lit ''a'', lit ''b'']" "lit ''b'' \<noteq> lit ''a''" by code_simp+
  then show ?thesis
    unfolding objects_def demo_coll_objs demo_keys at_keys_def by (simp add: demo_tr_def Let_def del: lit_Cons)
qed

section \<open>Properties\<close>

text \<open>
  C7. After every sequence of \<open>Set\<close> (of objects whose rectangles have no NaN) and \<open>Delete\<close> on an empty collection, the four indexes hold
  exactly the objects they should (strings by value, objects that expire by expiration, non-empty
  geometries in the spatial index), and the counters of objects, strings, points and bytes are the
  sums over the stored objects: nothing leaks when an object is replaced by one of another kind.
\<close>

theorem collection_indexes_exact:
  assumes "tree_laws tr items" and "list_all (op_ok gl) ops"
  shows "coll_ok tr items gl (fold (run_op tr gl) ops (Collection_New tr))
    \<and> Count (fold (run_op tr gl) ops (Collection_New tr))
      = int (card (dom (bm_Get tr (co_objs (fold (run_op tr gl) ops (Collection_New tr))))))"
  using run_ops_ok [OF assms(1) coll_ok_New [OF assms(1)] assms(2)] coll_ok_Count [OF assms(1)] by blast

theorem collection_indexes_exact_witness:
  "Count (fold (run_op demo_tr demo_gl) [OpSet (demo_str ''b''), OpSet (demo_str ''a'')] (Collection_New demo_tr)) = 2"
proof -
  have "list_all (op_ok demo_gl) [OpSet (demo_str ''b''), OpSet (demo_str ''a'')]" by (simp add: op_ok_def)
  from collection_indexes_exact [OF demo_tree_laws this]
  have "Count demo_coll = int (card (dom (bm_Get demo_tr (co_objs demo_coll))))" by (simp add: demo_coll_def)
  moreover have "lit ''a'' \<noteq> lit ''b''" by code_simp
  then have "dom (bm_Get demo_tr (co_objs demo_coll)) = {lit ''a'', lit ''b''}" "card {lit ''a'', lit ''b''} = 2"
    unfolding demo_coll_objs by (auto simp: demo_tr_def Let_def simp del: lit_Cons)
  ultimately show ?thesis by (simp add: demo_coll_def)
qed

lemma Scan_feed:
  assumes "tree_laws tr items" and "scan_laws tr" and "coll_ok tr items gl c" and "length (objects tr c) < 2 ^ 64"
  shows "sorted_wrt (<) (map oid (objects tr c)) \<and> set (objects tr c) = ran (bm_Get tr (co_objs c))
    \<and> (\<exists>s. Collection_Scan tr clock desc cursor None iter st c = Inr s
         \<and> (sc_keepon s, sc_user s) =
           feed iter (drop (offset_of cursor) (if desc then rev (objects tr c) else objects tr c)) st)"
proof -
  obtain offset s where s: "scanStart cursor None st = (offset, s)" by fastforce
  have "(if desc then bm_Reverse tr (co_objs c) else bm_Scan tr (co_objs c))
      = (if desc then rev (objects tr c) else objects tr c)"
    using assms(2) by (simp add: scan_laws_def objects_def at_keys_def rev_map)
  then show ?thesis
    using walk_from_start [OF s, of "if desc then rev (objects tr c) else objects tr c" clock "\<lambda>_. False" iter]
      assms(4) objects_ids(2,3) [OF assms(1,3)]
    by (simp add: Collection_Scan_def s takeWhile_eq_all_conv [THEN iffD2])
qed

text \<open>
  C17. \<open>Scan\<close> with a cursor at \<open>n\<close> hands over the objects in the order of their identifiers
  (descending if asked to) from the \<open>n\<close>-th one on, until the callback stops it, and reports whether
  the callback stopped it: pages follow each other without a gap and without a repetition.
\<close>

theorem Scan_pages_in_order:
  assumes "tree_laws tr items" and "scan_laws tr" and "coll_ok tr items gl c" and "length (objects tr c) < 2 ^ 64"
  shows "sorted_wrt (<) (map oid (objects tr c)) \<and> set (objects tr c) = ran (bm_Get tr (co_objs c))
    \<and> (\<exists>s. Collection_Scan tr clock desc cursor None iter st c = Inr s
         \<and> (sc_keepon s, sc_user s) =
           feed iter (drop (offset_of cursor) (if desc then rev (objects tr c) else objects tr c)) st)"
  by (rule Scan_feed [OF assms])

theorem Scan_pages_in_order_witness:
  "\<exists>s. Collection_Scan demo_tr (\<lambda>_. 0) False (Some \<lparr>cu_cursor = 1, cu_iters = 0\<rparr>) None
      (\<lambda>x ids. (True, ids @ [oid x])) [] demo_coll = Inr s \<and> sc_keepon s \<and> sc_user s = [lit ''b'']"
  using Scan_pages_in_order [OF demo_tree_laws demo_scan_laws demo_coll_ok, of "\<lambda>_. 0" False
      "Some \<lparr>cu_cursor = 1, cu_iters = 0\<rparr>" "\<lambda>x ids. (True, ids @ [oid x])" "[]"]
  by (auto simp: demo_objects offset_of_def simp del: lit_Cons)

lemma at_keys_rev: "at_keys tr m (rev ks) = rev (at_keys tr m ks)"
  by (simp add: at_keys_def rev_map)

lemma ScanRange_feed:
  assumes "tree_laws tr items" and "scan_laws tr" and "coll_ok tr items gl c" and "length (objects tr c) < 2 ^ 64"
  shows "\<exists>s. ScanRange tr clock start fin desc None None iter st c = Inr s
    \<and> (sc_keepon s, sc_user s) =
      feed iter (if desc then rev (filter (\<lambda>x. fin < oid x \<and> oid x \<le> start) (objects tr c))
                 else filter (\<lambda>x. start \<le> oid x \<and> oid x < fin) (objects tr c)) st"
proof -
  let ?all = "objects tr c" and ?m = "co_objs c"
  obtain offset s where s: "scanStart None None st = (offset, s)" by fastforce
  note ids = objects_ids [OF assms(1,3)]
  have sel: "at_keys tr ?m (filter P (keys tr ?m)) = filter (\<lambda>x. P (oid x)) ?all" for P
  proof -
    have "oid (the (bm_Get tr ?m k)) = k" if "k \<in> set (keys tr ?m)" for k
      using that ids(1) unfolding objects_def at_keys_def map_map comp_def
      by (metis (mono_tags, lifting) map_eq_conv map_ident)
    then show ?thesis
      unfolding objects_def at_keys_def filter_map comp_def
      by (intro arg_cong [where f = "map _"] filter_cong) auto
  qed
  let ?up = "filter (\<lambda>x. start \<le> oid x) ?all" and ?down = "filter (\<lambda>x. oid x \<le> start) ?all"
  have items: "bm_Ascend tr ?m start = ?up" "bm_Descend tr ?m start = rev ?down"
    using assms(2) sel [of "\<lambda>i. start \<le> i"] sel [of "\<lambda>i. i \<le> start"]
    by (simp_all add: scan_laws_def at_keys_rev)
  have sorted: "sorted_wrt (<) (map oid ?up)" "sorted_wrt (>) (map oid (rev ?down))"
    using ids(2) by (simp_all add: sorted_wrt_map sorted_wrt_filter sorted_wrt_rev)
  have len: "length ?up < 2 ^ 64" "length (rev ?down) < 2 ^ 64"
    unfolding length_rev using assms(4) length_filter_le le_less_trans by blast+
  show ?thesis
  proof (cases desc)
    case True
    then show ?thesis
      using walk_from_start [OF s len(2), of clock "\<lambda>x. oid x \<le> fin" iter]
        takeWhile_filter_rev_sorted [OF sorted(2), of fin]
      by (simp add: ScanRange_def s items offset_of_def rev_filter conj_commute)
  next
    case False
    then show ?thesis
      using walk_from_start [OF s len(1), of clock "\<lambda>x. oid x \<ge> fin" iter]
        takeWhile_filter_sorted [OF sorted(1), of fin]
      by (simp add: ScanRange_def s items offset_of_def conj_commute)
  qed
qed

text \<open>
  C18. \<open>ScanRange\<close> without a cursor hands over exactly the objects whose identifier lies in the range:
  ascending from \<open>start\<close> (included) to \<open>fin\<close> (excluded), or descending from \<open>start\<close> (included) to
  \<open>fin\<close> (excluded).
\<close>

theorem ScanRange_exact:
  assumes "tree_laws tr items" and "scan_laws tr" and "coll_ok tr items gl c" and "length (objects tr c) < 2 ^ 64"
  shows "\<exists>s. ScanRange tr clock start fin desc None None iter st c = Inr s
    \<and> (sc_keepon s, sc_user s) =
      feed iter (if desc then rev (filter (\<lambda>x. fin < oid x \<and> oid x \<le> start) (objects tr c))
                 else filter (\<lambda>x. start \<le> oid x \<and> oid x < fin) (objects tr c)) st"
  by (rule ScanRange_feed [OF assms])

theorem ScanRange_exact_witness:
  "\<exists>s. ScanRange demo_tr (\<lambda>_. 0) (lit ''a'') (lit ''b'') False None None
      (\<lambda>x ids. (True, ids @ [oid x])) [] demo_coll = Inr s \<and> sc_user s = [lit ''a'']"
proof -
  have ord: "lit ''a'' \<le> lit ''a''" "lit ''a'' < lit ''b''" "lit ''a'' \<le> lit ''b''" "\<not> lit ''b'' < lit ''b''" by code_simp+
  have "length (objects demo_tr demo_coll) < 2 ^ 64" by (simp add: demo_objects)
  from ScanRange_exact [OF demo_tree_laws demo_scan_laws demo_coll_ok this, of "\<lambda>_. 0" "lit ''a''" "lit ''b''" False
      "\<lambda>x ids. (True, ids @ [oid x])" "[]"] ord
  show ?thesis by (auto simp: demo_objects simp del: lit_Cons)
qed

text \<open>
  C33. \<open>Within\<close> and \<open>Intersects\<close> without the sparse option and without a deadline, for an area whose rectangle
  has no NaN, ask the spatial index for the candidates of
  the rectangle of the area and hand over exactly those behind the cursor that satisfy the
  predicate, in the order of the index, until the callback stops the search.
\<close>

theorem area_search_exact:
  assumes "\<not> nan_rect (rtreeRect (gl_Rect gl area))"
    and "rt_Search tr (co_spatial c) (rtreeRect (gl_Rect gl area)) = cands" and "length cands < 2 ^ 64"
  shows "(\<exists>s. Within tr gl clock area 0 cursor None iter st c = Inr (fst (feed iter
             (filter (\<lambda>x. geo_Within gl (ogeom gl x) area) (drop (offset_of cursor) cands)) st), s)
           \<and> sc_user s = snd (feed iter
             (filter (\<lambda>x. geo_Within gl (ogeom gl x) area) (drop (offset_of cursor) cands)) st))
    \<and> (\<exists>s. Intersects tr gl clock area 0 cursor None iter st c = Inr (fst (feed iter
             (filter (\<lambda>x. geo_Intersects gl (ogeom gl x) area) (drop (offset_of cursor) cands)) st), s)
           \<and> sc_user s = snd (feed iter
             (filter (\<lambda>x. geo_Intersects gl (ogeom gl x) area) (drop (offset_of cursor) cands)) st))"
proof -
  have search: "\<exists>s'. areaSearch tr clock pred (gl_Rect gl area) 0 cursor None iter st c
      = Inr (fst (feed iter (filter pred (drop (offset_of cursor) cands)) st), s')
    \<and> sc_user s' = snd (feed iter (filter pred (drop (offset_of cursor) cands)) st)" for pred
  proof -
    obtain offset s where s: "scanStart cursor None st = (offset, s)" by fastforce
    then have s': "sc_count s = 0" "sc_deadline s = None" "sc_user s = st" "unat offset = offset_of cursor"
      by (auto simp: scanStart_def offset_of_def Cursor_Offset_def Let_def split: option.splits)
    obtain alive s1 where
      "walk (alive_iter (areaIter clock offset pred iter)) cands (True, s) = Inr (alive, s1)"
      "(alive, sc_user s1) = feed iter (filter pred (drop (offset_of cursor) cands)) st"
      using walk_areaIter [of s cands clock offset pred iter] assms(3) s' by auto
    then show ?thesis
      using assms(1,2) by (auto simp: areaSearch_def geoSearch_def nan_rect_def s Let_def intro!: exI [of _ s1] dest: sym)
  qed
  show ?thesis unfolding Within_def Intersects_def by (intro conjI search)
qed

text \<open>A collection with one rectangle in the index, and the area that consists of the origin.\<close>

definition demo_rect :: Rect where
  "demo_rect = zeroRect\<lparr>MaxX := 0x3FF0000000000000\<rparr>"

definition demo_area_obj :: "(Rect, unit) Object" where
  "demo_area_obj = Object_New demo_gl (lit ''r'') (GLib demo_rect) 0 None"

definition demo_area_coll ::
  "((gostring \<times> (Rect, unit) Object) list, (Rect, unit) Object list, (rect32 \<times> (Rect, unit) Object) list) Collection" where
  "demo_area_coll = (Collection_New demo_tr)\<lparr>co_spatial := [(rtreeRect demo_rect, demo_area_obj)]\<rparr>"

lemma demo_area_simps:
  "rt_Search demo_tr (co_spatial demo_area_coll) r = [demo_area_obj]"
  "ogeom demo_gl demo_area_obj = GLib demo_rect" "gl_Rect demo_gl g = g"
  "\<not> gl_Within demo_gl demo_rect zeroRect" "gl_Intersects demo_gl demo_rect zeroRect"
  by (simp_all add: demo_area_coll_def demo_tr_def demo_area_obj_def Object_New_geo kept_geo_def demo_gl_def
      demo_rect_def zeroRect_def Let_def)

lemma origin_not_nan: "MinX r = 0 \<Longrightarrow> \<not> nan_rect (rtreeRect r)"
proof -
  have zero: "\<not> f_isnan 0" "\<not> f_isinf 0" "fst (f_ratio 0) = 0"
    by (simp_all add: f_isnan_def f_isinf_def f_mag_def f_ratio_def f_exp_def f_frac_def scale_up_def Let_def)
  then have "f32 0 = 0" unfolding f32_def by (cases "f_ratio 0") auto
  then have "rtreeValueDown 0 = 0" by (simp add: rtreeValueDown_def)
  then show "MinX r = 0 \<Longrightarrow> \<not> nan_rect (rtreeRect r)" using zero by (simp add: nan_rect_def rtreeRect_def)
qed

theorem area_search_exact_witness:
  "(\<exists>s. Within demo_tr demo_gl (\<lambda>_. 0) zeroRect 0 None None (\<lambda>x ids. (True, ids @ [oid x])) [] demo_area_coll
        = Inr (True, s) \<and> sc_user s = [])
   \<and> (\<exists>s. Intersects demo_tr demo_gl (\<lambda>_. 0) zeroRect 0 None None (\<lambda>x ids. (True, ids @ [oid x])) [] demo_area_coll
        = Inr (True, s) \<and> sc_user s = [lit ''r''])"
proof -
  have "\<not> nan_rect (rtreeRect (gl_Rect demo_gl zeroRect))"
    using origin_not_nan [of zeroRect] by (simp add: demo_area_simps zeroRect_def)
  from area_search_exact [OF this demo_area_simps(1), of "\<lambda>_. 0" None "\<lambda>x ids. (True, ids @ [oid x])" "[]"]
  show ?thesis by (simp add: demo_area_simps offset_of_def demo_area_obj_def [THEN arg_cong [where f = Object_ID]] del: lit_Cons)
qed

text \<open>
  C36. What \<open>Within\<close> and \<open>Intersects\<close> with the sparse option and without a deadline hand over. The rectangle of the area is divided into
  quarters \<open>sparse\<close> times, and the candidates of each quarter are looked at in turn: one that was handed over before is
  passed by, those before the cursor are skipped, a match is handed over and ends its quarter, and the first
  candidate that does not satisfy the predicate ends the whole search, although later
  candidates and quarters may satisfy it. The callback can end it earlier. The search still reports that it ran to the end.
\<close>

theorem sparse_search_exact:
  assumes "0 < sparse" and "quarters = map (candidates tr c) (sparse_quads (unat sparse) (gl_Rect gl area))"
    and "length (concat quarters) < 2 ^ 64"
  shows "(\<exists>s. Within tr gl clock area sparse cursor None iter st c = Inr (True, s) \<and> sc_user s = snd (feed iter
             (sparse_hits (\<lambda>x. geo_Within gl (ogeom gl x) area) (offset_of cursor) {} quarters) st))
    \<and> (\<exists>s. Intersects tr gl clock area sparse cursor None iter st c = Inr (True, s) \<and> sc_user s = snd (feed iter
             (sparse_hits (\<lambda>x. geo_Intersects gl (ogeom gl x) area) (offset_of cursor) {} quarters) st))"
  unfolding Within_def Intersects_def assms(2) by (intro conjI sparse_search assms(1) assms(3) [unfolded assms(2)])

lemma sparse_hits_known: "list_all (\<lambda>l. l = [] \<or> l = [x]) quarters \<Longrightarrow> oid x \<in> found \<Longrightarrow> sparse_hits pred 0 found quarters = []"
  by (induction quarters) auto

theorem sparse_search_exact_witness:
  "(\<exists>s. Within demo_tr demo_gl (\<lambda>_. 0) zeroRect 1 None None (\<lambda>x ids. (True, ids @ [oid x])) [] demo_area_coll
        = Inr (True, s) \<and> sc_user s = [])
   \<and> (\<exists>s. Intersects demo_tr demo_gl (\<lambda>_. 0) zeroRect 1 None None (\<lambda>x ids. (True, ids @ [oid x])) [] demo_area_coll
        = Inr (True, s) \<and> sc_user s = [lit ''r''])"
proof -
  obtain q q1 q2 q3 where quads: "quads zeroRect = [q, q1, q2, q3]" "MinX q = 0"
    by (simp add: quads_def zeroRect_def Let_def)
  have cands: "candidates demo_tr demo_area_coll r = (if nan_rect (rtreeRect r) then [] else [demo_area_obj])" for r
    by (simp add: candidates_def demo_area_simps)
  define quarters where "quarters = map (candidates demo_tr demo_area_coll) (sparse_quads (unat (1 :: 8 word)) (gl_Rect demo_gl zeroRect))"
  have quarters: "quarters = [demo_area_obj] # map (candidates demo_tr demo_area_coll) [q1, q2, q3]"
    using origin_not_nan [OF quads(2)] by (simp add: quarters_def demo_area_simps quads(1) cands)
  then have len: "length (concat quarters) < 2 ^ 64" by (simp add: cands)
  have "list_all (\<lambda>l. l = [] \<or> l = [demo_area_obj]) (map (candidates demo_tr demo_area_coll) [q1, q2, q3])" by (simp add: cands)
  from sparse_hits_known [OF this] have rest: "sparse_hits pred 0 {oid demo_area_obj} (map (candidates demo_tr demo_area_coll) [q1, q2, q3]) = []" for pred
    by simp
  have hits: "sparse_hits (\<lambda>x. geo_Within demo_gl (ogeom demo_gl x) zeroRect) 0 {} quarters = []"
    "sparse_hits (\<lambda>x. geo_Intersects demo_gl (ogeom demo_gl x) zeroRect) 0 {} quarters = [demo_area_obj]"
    by (simp_all add: quarters demo_area_simps rest del: list.map)
  from sparse_search_exact [OF _ quarters_def len, of "\<lambda>_. 0" None "\<lambda>x ids. (True, ids @ [oid x])" "[]"]
  show ?thesis
    by (simp add: hits offset_of_def demo_area_obj_def [THEN arg_cong [where f = Object_ID]] del: lit_Cons)
qed

end
