(* ===== verification/Go_Format.thy ===== *)
theory Go_Format
  imports Float_Ops Glob
begin

text \<open>
  What the commands of the server use of Go's number formats and of \<^verbatim>\<open>encoding/json\<close>: \<open>ParseInt\<close>,
  \<open>FormatFloat\<close> with the shortest digits, conversions between \<^verbatim>\<open>int64\<close> and \<^verbatim>\<open>float64\<close>, \<^verbatim>\<open>math.Max\<close>, and
  \<open>Marshal\<close> of a string as Go writes it since version 1.22.
\<close>

section \<open>Decimal digits\<close>

function dec_digits :: "int \<Rightarrow> gostring" where
  "dec_digits n = (if n < 10 then [48 + word_of_int n] else dec_digits (n div 10) @ [48 + word_of_int (n mod 10)])"
  by pat_completeness auto
termination
  by (relation "measure nat") auto

declare dec_digits.simps [simp del]

definition Itoa :: "int \<Rightarrow> gostring" where
  "Itoa n = (if n < 0 then 45 # dec_digits (- n) else dec_digits n)"

definition FormatBool :: "bool \<Rightarrow> gostring" where
  "FormatBool b = (if b then lit ''true'' else lit ''false'')"

text \<open>\<^verbatim>\<open>strconv.ParseInt(s, 10, 64)\<close>; \<open>None\<close> is an error of syntax or range.\<close>

definition ParseInt :: "gostring \<Rightarrow> int option" where
  "ParseInt s =
     (case take_sign s of (neg, ds) \<Rightarrow>
        if ds = [] \<or> \<not> list_all is_digit ds then None
        else let n = foldl (\<lambda>n c. n * 10 + digit_value c) 0 ds; v = (if neg then - n else n)
             in if - (2 ^ 63) \<le> v \<and> v < 2 ^ 63 then Some v else None)"

section \<open>Conversions\<close>

text \<open>
  \<^verbatim>\<open>int64(x)\<close> drops the fraction.  The language leaves the result open where the value does not
  fit; \<open>out\<close> is what the machine gives there.
\<close>

definition f_to_int64 :: "(float64 \<Rightarrow> 64 word) \<Rightarrow> float64 \<Rightarrow> 64 word" where
  "f_to_int64 out x =
     (if f_isnan x \<or> f_isinf x then out x
      else case f_ratio x of (p, q) \<Rightarrow>
        let n = sgn p * (\<bar>p\<bar> div q) in
        if - (2 ^ 63) \<le> n \<and> n < 2 ^ 63 then word_of_int n else out x)"

definition f_of_int64 :: "64 word \<Rightarrow> float64" where
  "f_of_int64 n = f_round False (sint n) 1"

definition f_div :: "float64 \<Rightarrow> float64 \<Rightarrow> float64" where
  "f_div a b =
     (let neg = (bit a 63 \<noteq> bit b 63) in
      if f_isnan a \<or> f_isnan b \<or> f_isinf a \<and> f_isinf b \<or> f_mag a = 0 \<and> f_mag b = 0 then f_nan
      else if f_isinf a \<or> f_mag b = 0 then (if neg then f_neginf else f_inf)
      else if f_isinf b then (if neg then set_bit 63 0 else 0)
      else (case (f_ratio a, f_ratio b) of ((p, q), (r, s)) \<Rightarrow> f_round neg (p * s * sgn r) (q * \<bar>r\<bar>)))"

definition f_max :: "float64 \<Rightarrow> float64 \<Rightarrow> float64" where
  "f_max x y =
     (if x = f_inf \<or> y = f_inf then f_inf
      else if f_isnan x \<or> f_isnan y then f_nan
      else if f_mag x = 0 \<and> f_mag y = 0 then (if bit x 63 then y else x)
      else if f_lt y x then x else y)"

section \<open>\<open>FormatFloat\<close>\<close>

text \<open>\<open>c * 10 ^ - k\<close> as a fraction.\<close>

definition dec_fraction :: "int \<Rightarrow> int \<Rightarrow> int \<times> int" where
  "dec_fraction c k = fraction 10 c (- k)"

function declen :: "int \<Rightarrow> int" where
  "declen n = (if n \<le> 0 then 0 else 1 + declen (n div 10))"
  by pat_completeness auto
termination
  by (relation "measure nat") auto

declare declen.simps [simp del]

text \<open>The position of the decimal point: the least \<open>d\<close> with \<open>p / q < 10 ^ d\<close>.\<close>

definition point_pos :: "int \<Rightarrow> int \<Rightarrow> int" where
  "point_pos p q =
     (let d = declen p - declen q in
      if 10 ^ nat d * q \<le> p * 10 ^ nat (- d) then d + 1 else d)"

text \<open>
  The number with \<open>n\<close> significant digits next to the value that reads back as the same bits, if
  there is one; the nearer one if there are two.
\<close>

definition shortAt :: "float64 \<Rightarrow> nat \<Rightarrow> (int \<times> int) option" where
  "shortAt w n =
     (case f_ratio (unset_bit 63 w) of (p, q) \<Rightarrow>
        let k = int n - point_pos p q; a = p * 10 ^ nat k; b = q * 10 ^ nat (- k); lo = a div b;
            reads = (\<lambda>c. case dec_fraction c k of (r, s) \<Rightarrow> round_bits r s = f_mag w)
        in if reads lo \<and> (\<not> reads (lo + 1) \<or> 2 * (a - lo * b) \<le> b) then Some (lo, k)
           else if reads (lo + 1) then Some (lo + 1, k) else None)"

definition shortest :: "float64 \<Rightarrow> int \<times> int" where
  "shortest w = hd (List.map_filter (shortAt w) [1..<18] @ [(0, 0)])"

definition pad_left :: "nat \<Rightarrow> gostring \<Rightarrow> gostring" where
  "pad_left n ds = replicate (n - length ds) 48 @ ds"

definition trim_zeros :: "gostring \<Rightarrow> gostring" where
  "trim_zeros ds = rev (dropWhile (\<lambda>c. c = 48) (rev ds))"

definition FormatFloat :: "float64 \<Rightarrow> gostring" where
  "FormatFloat w =
     (if f_isnan w then lit ''NaN''
      else if f_isinf w then (if bit w 63 then lit ''-Inf'' else lit ''+Inf'')
      else (if bit w 63 then [45] else []) @
        (if f_mag w = 0 then [48]
         else case shortest w of (c, k) \<Rightarrow>
           if k \<le> 0 then dec_digits (c * 10 ^ nat (- k))
           else let frac = trim_zeros (pad_left (nat k) (dec_digits (c mod 10 ^ nat k)))
                in dec_digits (c div 10 ^ nat k) @ (if frac = [] then [] else 46 # frac)))"

section \<open>\<open>Marshal\<close> of a string\<close>

definition hex_digit :: "int \<Rightarrow> byte" where
  "hex_digit n = (if n < 10 then 48 + word_of_int n else 87 + word_of_int n)"

definition json_escape :: "byte \<Rightarrow> gostring" where
  "json_escape c =
     (if c = 92 \<or> c = 34 then [92, c]
      else if c = 8 then [92, 98] else if c = 12 then [92, 102]
      else if c = 10 then [92, 110] else if c = 13 then [92, 114] else if c = 9 then [92, 116]
      else if c < 32 \<or> c = 60 \<or> c = 62 \<or> c = 38
      then (92 # lit ''u00'') @ [hex_digit (uint c div 16), hex_digit (uint c mod 16)]
      else [c])"

function json_body :: "gostring \<Rightarrow> gostring" where
  "json_body [] = []"
| "json_body (c # s) =
     (if c < 0x80 then json_escape c @ json_body s
      else case DecodeRuneInString (c # s) of (r, n) \<Rightarrow>
        if n \<le> 1 then (92 # lit ''ufffd'') @ json_body s
        else (if r = 0x2028 then (92 # lit ''u2028'') else if r = 0x2029 then (92 # lit ''u2029'') else take n (c # s))
             @ json_body (drop n (c # s)))"
  by pat_completeness auto
termination
  by (relation "measure length") auto

declare json_body.simps [simp del]

definition json_Marshal :: "gostring \<Rightarrow> gostring" where
  "json_Marshal s = [34] @ json_body s @ [34]"

end
