(* ===== verification/Server_Json.thy ===== *)
theory Server_Json
  imports Go_Format
begin

text \<open>
  The JSON helpers of the server (\<^verbatim>\<open>internal/legacy/server/json.go\<close>): quoting of strings, and which
  arguments of \<^verbatim>\<open>JSET\<close> are stored as numbers.
\<close>

section \<open>Strings\<close>

definition json_special :: "byte \<Rightarrow> bool" where
  "json_special c \<longleftrightarrow> c < 32 \<or> c = 92 \<or> c = 34 \<or> c > 126"

definition appendJSONString :: "gostring \<Rightarrow> gostring \<Rightarrow> gostring" where
  "appendJSONString b s =
     (if list_ex json_special s then b @ json_Marshal s else b @ [34] @ s @ [34])"

definition jsonString :: "gostring \<Rightarrow> gostring" where
  "jsonString s = (if list_ex json_special s then json_Marshal s else [34] @ s @ [34])"

section \<open>Numbers\<close>

text \<open>The part behind the fraction, and the part behind the integer.\<close>

definition numberExp :: "gostring \<Rightarrow> bool" where
  "numberExp data =
     (case data of
        [] \<Rightarrow> True
      | c # u \<Rightarrow>
          if c = 101 \<or> c = 69
          then (case u of
                  [] \<Rightarrow> False
                | d # v \<Rightarrow>
                    (case (if d = 43 \<or> d = 45 then v else u) of
                       [] \<Rightarrow> False
                     | x # w \<Rightarrow> is_digit x \<and> dropWhile is_digit w = []))
          else False)"

definition numberFrac :: "gostring \<Rightarrow> bool" where
  "numberFrac data =
     (case data of
        [] \<Rightarrow> True
      | c # u \<Rightarrow>
          if c = 46
          then (case u of [] \<Rightarrow> False | d # v \<Rightarrow> is_digit d \<and> numberExp (dropWhile is_digit v))
          else numberExp data)"

definition isJSONNumber :: "gostring \<Rightarrow> bool" where
  "isJSONNumber data =
     (case data of
        [] \<Rightarrow> False
      | c # s \<Rightarrow>
          (case (if c = 45 then s else data) of
             [] \<Rightarrow> False
           | d # t \<Rightarrow> numberFrac (if d = 48 then t else dropWhile is_digit (d # t))))"

section \<open>The grammar of ECMA-404\<close>

text \<open>A number is a sign, an integer, a fraction and an exponent.\<close>

definition sign_part :: "gostring \<Rightarrow> bool" where
  "sign_part s \<longleftrightarrow> s = [] \<or> s = [45]"

definition digit_run :: "gostring \<Rightarrow> bool" where
  "digit_run s \<longleftrightarrow> s \<noteq> [] \<and> list_all is_digit s"

definition int_part :: "gostring \<Rightarrow> bool" where
  "int_part s \<longleftrightarrow> s = [48] \<or> digit_run s \<and> hd s \<noteq> 48"

definition frac_part :: "gostring \<Rightarrow> bool" where
  "frac_part s \<longleftrightarrow> s = [] \<or> (\<exists>ds. s = 46 # ds \<and> digit_run ds)"

definition exp_part :: "gostring \<Rightarrow> bool" where
  "exp_part s \<longleftrightarrow> s = [] \<or>
     (\<exists>c sg ds. s = c # sg @ ds \<and> (c = 101 \<or> c = 69) \<and> (sg = [] \<or> sg = [43] \<or> sg = [45]) \<and> digit_run ds)"

definition json_number :: "gostring \<Rightarrow> bool" where
  "json_number s \<longleftrightarrow>
     (\<exists>sg i f e. s = sg @ i @ f @ e \<and> sign_part sg \<and> int_part i \<and> frac_part f \<and> exp_part e)"

text \<open>What the code accepts beyond that: a fraction or an exponent without an integer before it.\<close>

definition headless_number :: "gostring \<Rightarrow> bool" where
  "headless_number s \<longleftrightarrow>
     (\<exists>sg f e. s = sg @ f @ e \<and> sign_part sg \<and> frac_part f \<and> exp_part e \<and> f @ e \<noteq> [])"

lemma digit_not: "\<not> is_digit 46" "\<not> is_digit 101" "\<not> is_digit 69" "\<not> is_digit 43" "\<not> is_digit 45" "is_digit 48"
  by (simp_all add: is_digit_def)

lemma dropWhile_digits: "\<exists>ds. s = ds @ dropWhile is_digit s \<and> list_all is_digit ds"
  by (intro exI [of _ "takeWhile is_digit s"]) (auto simp: list_all_iff dest: set_takeWhileD)

lemma dropWhile_all: "list_all is_digit ds \<Longrightarrow> dropWhile is_digit (ds @ s) = dropWhile is_digit s"
  by (induction ds) auto

lemma numberExp_iff: "numberExp s \<longleftrightarrow> exp_part s"
proof
  assume "numberExp s"
  then consider "s = []" | c d v x w where "s = c # d # v" "c = 101 \<or> c = 69"
      "(if d = 43 \<or> d = 45 then v else d # v) = x # w" "is_digit x" "dropWhile is_digit w = []"
    by (auto simp: numberExp_def split: list.splits if_splits)
  then show "exp_part s"
  proof cases
    case 2
    have "digit_run (x # w)" using 2(4,5) by (simp add: digit_run_def list_all_iff)
    moreover have "s = c # (if d = 43 \<or> d = 45 then [d] else []) @ x # w" using 2(1,3) by (auto split: if_splits)
    ultimately show ?thesis
      using 2(2) unfolding exp_part_def
      by (intro disjI2 exI [of _ c] exI [of _ "if d = 43 \<or> d = 45 then [d] else []"] exI [of _ "x # w"]) auto
  qed (simp add: exp_part_def)
next
  assume "exp_part s"
  then consider "s = []" | c sg ds where "s = c # sg @ ds" "c = 101 \<or> c = 69" "sg = [] \<or> sg = [43] \<or> sg = [45]" "digit_run ds"
    unfolding exp_part_def by blast
  then show "numberExp s"
  proof cases
    case 2
    then obtain x w where ds: "ds = x # w" "is_digit x" "list_all is_digit w"
      by (cases ds) (auto simp: digit_run_def)
    then have "x \<noteq> 43" "x \<noteq> 45" using digit_not by auto
    moreover have "dropWhile is_digit w = []" using ds(3) dropWhile_all [of w "[]"] by simp
    ultimately show "numberExp s" using 2 ds by (auto simp: numberExp_def)
  qed (simp add: numberExp_def)
qed

lemma exp_part_start: "exp_part e \<Longrightarrow> e = [] \<or> hd e = 101 \<or> hd e = 69"
  by (auto simp: exp_part_def)

lemma numberFrac_iff: "numberFrac s \<longleftrightarrow> (\<exists>f e. s = f @ e \<and> frac_part f \<and> exp_part e)"
proof
  assume *: "numberFrac s"
  show "\<exists>f e. s = f @ e \<and> frac_part f \<and> exp_part e"
  proof (cases "\<exists>d v. s = 46 # d # v")
    case True
    then obtain d v where s: "s = 46 # d # v" by blast
    obtain ds where ds: "v = ds @ dropWhile is_digit v" "list_all is_digit ds" using dropWhile_digits by blast
    have "is_digit d" "exp_part (dropWhile is_digit v)" using * s by (simp_all add: numberFrac_def numberExp_iff)
    with ds s show ?thesis
      by (intro exI [of _ "46 # d # ds"] exI [of _ "dropWhile is_digit v"]) (simp add: frac_part_def digit_run_def)
  next
    case False
    with * have "exp_part s" by (cases s) (auto simp: numberFrac_def numberExp_iff exp_part_def split: if_splits list.splits)
    then show ?thesis by (intro exI [of _ "[]"] exI [of _ s]) (simp add: frac_part_def)
  qed
next
  assume "\<exists>f e. s = f @ e \<and> frac_part f \<and> exp_part e"
  then obtain f e where s: "s = f @ e" "frac_part f" "exp_part e" by blast
  note start = exp_part_start [OF s(3)]
  have rest: "dropWhile is_digit e = e" using start digit_not by (cases e) auto
  from s(2) show "numberFrac s"
    unfolding frac_part_def
  proof (elim disjE exE conjE)
    fix ds assume f: "f = 46 # ds" "digit_run ds"
    then obtain d w where "ds = d # w" "is_digit d" "list_all is_digit w" by (cases ds) (auto simp: digit_run_def)
    with s f rest show ?thesis by (simp add: numberFrac_def numberExp_iff dropWhile_all)
  next
    assume "f = []"
    with s start show ?thesis by (cases e) (auto simp: numberFrac_def numberExp_iff)
  qed
qed

lemma frac_exp_start:
  "frac_part f \<Longrightarrow> exp_part e \<Longrightarrow> f @ e = [] \<or> \<not> is_digit (hd (f @ e)) \<and> hd (f @ e) \<noteq> 45"
  using exp_part_start [of e] digit_not by (cases f) (auto simp: frac_part_def)

text \<open>The integer and what follows it, behind the sign.\<close>

definition number_body :: "gostring \<Rightarrow> bool" where
  "number_body t \<longleftrightarrow> t \<noteq> [] \<and> (\<exists>i f e. t = i @ f @ e \<and> (i = [] \<or> int_part i) \<and> frac_part f \<and> exp_part e)"

lemma numberFrac_body:
  "numberFrac (if d = 48 then t else dropWhile is_digit (d # t)) \<longleftrightarrow> number_body (d # t)"
proof
  assume *: "numberFrac (if d = 48 then t else dropWhile is_digit (d # t))"
  obtain i where i: "d # t = i @ (if d = 48 then t else dropWhile is_digit (d # t))" "i = [] \<or> int_part i"
  proof (cases "d = 48")
    case False
    obtain ds where ds: "d # t = ds @ dropWhile is_digit (d # t)" "list_all is_digit ds" using dropWhile_digits by blast
    with False have "ds = [] \<or> int_part ds" by (cases ds) (auto simp: int_part_def digit_run_def)
    with ds False that show ?thesis by simp
  qed (use that [of "[48]"] in \<open>simp add: int_part_def\<close>)
  from * obtain f e where "(if d = 48 then t else dropWhile is_digit (d # t)) = f @ e" "frac_part f" "exp_part e"
    unfolding numberFrac_iff by blast
  with i have "d # t = i @ f @ e" "i = [] \<or> int_part i" "frac_part f" "exp_part e" by simp_all
  then show "number_body (d # t)" unfolding number_body_def by blast
next
  assume "number_body (d # t)"
  then obtain i f e where s: "d # t = i @ f @ e" "i = [] \<or> int_part i" "frac_part f" "exp_part e"
    unfolding number_body_def by blast
  have rest: "dropWhile is_digit (f @ e) = f @ e" using frac_exp_start [OF s(3,4)] by (cases "f @ e") auto
  have "(if d = 48 then t else dropWhile is_digit (d # t)) = f @ e"
  proof (cases i)
    case Nil
    with s(1) have dt: "d # t = f @ e" by simp
    with frac_exp_start [OF s(3,4)] digit_not(6) have "d \<noteq> 48" by (metis list.sel(1) list.distinct(1))
    with dt rest show ?thesis by simp
  next
    case (Cons x i')
    with s have "i = [48] \<or> d \<noteq> 48 \<and> list_all is_digit i" by (auto simp: int_part_def digit_run_def)
    then show ?thesis
    proof
      assume "d \<noteq> 48 \<and> list_all is_digit i"
      then show ?thesis unfolding s(1) using rest by (simp add: dropWhile_all)
    qed (use s(1) in simp)
  qed
  then show "numberFrac (if d = 48 then t else dropWhile is_digit (d # t))"
    unfolding numberFrac_iff using s(3,4) by (intro exI [of _ f] exI [of _ e]) simp
qed

lemma body_no_sign: "number_body t \<Longrightarrow> hd t \<noteq> 45"
  unfolding number_body_def
proof (elim conjE exE)
  fix i f e assume *: "t = i @ f @ e" "i = [] \<or> int_part i" "frac_part f" "exp_part e" "t \<noteq> []"
  show "hd t \<noteq> 45"
  proof (cases i)
    case Nil
    with * frac_exp_start [OF *(3,4)] show ?thesis by auto
  next
    case (Cons x i')
    with * have "is_digit x" using digit_not(6) by (auto simp: int_part_def digit_run_def)
    with * Cons digit_not show ?thesis by auto
  qed
qed

lemma isJSONNumber_body: "isJSONNumber s \<longleftrightarrow> (\<exists>sg t. s = sg @ t \<and> sign_part sg \<and> number_body t)"
proof (cases s)
  case Nil
  then show ?thesis by (simp add: isJSONNumber_def number_body_def)
next
  case (Cons c u)
  show ?thesis
  proof (cases "c = 45")
    case True
    have "(\<exists>sg t. s = sg @ t \<and> sign_part sg \<and> number_body t) \<longleftrightarrow> number_body u"
      using Cons True body_no_sign [of s] by (auto simp: sign_part_def intro: exI [of _ "[45]"])
    with Cons True show ?thesis
      by (cases u) (simp_all only: isJSONNumber_def numberFrac_body list.case simp_thms if_True, simp add: number_body_def)
  next
    case False
    have "(\<exists>sg t. s = sg @ t \<and> sign_part sg \<and> number_body t) \<longleftrightarrow> number_body s"
      using Cons False by (auto simp: sign_part_def)
    with Cons False show ?thesis by (simp only: isJSONNumber_def numberFrac_body list.case simp_thms if_False)
  qed
qed

text \<open>
  C24. Which arguments \<open>isJSONNumber\<close> takes for JSON numbers: exactly those of the grammar of ECMA-404, and
  beyond it every fraction or exponent that has no integer before it, such as \<open>.5\<close> and \<open>e5\<close>.
\<close>

theorem isJSONNumber_exact: "isJSONNumber s \<longleftrightarrow> json_number s \<or> headless_number s"
proof
  assume "isJSONNumber s"
  then obtain sg i f e where "s = sg @ i @ f @ e" "sign_part sg" "i @ f @ e \<noteq> []" "i = [] \<or> int_part i"
      "frac_part f" "exp_part e" unfolding isJSONNumber_body number_body_def by blast
  then show "json_number s \<or> headless_number s"
    unfolding json_number_def headless_number_def by (cases "i = []") (simp_all, blast+)
next
  assume "json_number s \<or> headless_number s"
  then obtain sg i f e where s: "s = sg @ i @ f @ e" "sign_part sg" "i @ f @ e \<noteq> []" "i = [] \<or> int_part i"
      "frac_part f" "exp_part e"
  proof
    assume "json_number s"
    then obtain sg i f e where "s = sg @ i @ f @ e" "sign_part sg" "int_part i" "frac_part f" "exp_part e"
      unfolding json_number_def by blast
    moreover from this have "i \<noteq> []" by (auto simp: int_part_def digit_run_def)
    ultimately show thesis using that by simp
  next
    assume "headless_number s"
    then obtain sg f e where "s = sg @ f @ e" "sign_part sg" "frac_part f" "exp_part e" "f @ e \<noteq> []"
      unfolding headless_number_def by blast
    then show thesis using that [of sg "[]" f e] by simp
  qed
  then show "isJSONNumber s" unfolding isJSONNumber_body number_body_def by blast
qed

lemma headless_examples:
  "isJSONNumber (lit ''.5'')" "isJSONNumber (lit ''e5'')" "\<not> json_number (lit ''.5'')" "\<not> json_number (lit ''e5'')"
proof -
  show "isJSONNumber (lit ''.5'')" "isJSONNumber (lit ''e5'')" by code_simp+
  have "\<not> json_number (c # s)" if "c \<noteq> 45" "\<not> is_digit c" for c s
  proof
    assume "json_number (c # s)"
    then obtain sg i r where "c # s = sg @ i @ r" "sign_part sg" "int_part i" unfolding json_number_def by blast
    with that digit_not(6) show False by (cases i) (auto simp: sign_part_def int_part_def digit_run_def)
  qed
  moreover have "byte_of CHR ''.'' \<noteq> 45" "\<not> is_digit (byte_of CHR ''.'')" "byte_of CHR ''e'' \<noteq> 45"
    "\<not> is_digit (byte_of CHR ''e'')" by code_simp+
  ultimately show "\<not> json_number (lit ''.5'')" "\<not> json_number (lit ''e5'')" by simp_all
qed

end
