(* ===== verification/Hook_Groups.thy ===== *)
theory Hook_Groups
  imports Collection_Invariant "HOL-Library.Product_Lexorder"
begin

text \<open>
  The connections between hooks and objects (\<^verbatim>\<open>internal/legacy/server/group.go\<close>): one set of items in two
  trees, one ordered by hook and one by object.

  The package \<^verbatim>\<open>btree\<close> is not part of the sources: the record \<open>btree_lib\<close> holds the operations of a tree
  whose order is a function on its items, and \<open>btree_laws\<close> states what it documents of them.
\<close>

section \<open>Trees by an order\<close>

record ('t, 'i) btree_lib =
  bt_Get :: "('i \<Rightarrow> 'i \<Rightarrow> bool) \<Rightarrow> 't \<Rightarrow> 'i \<Rightarrow> 'i option"
  bt_Set :: "('i \<Rightarrow> 'i \<Rightarrow> bool) \<Rightarrow> 't \<Rightarrow> 'i \<Rightarrow> 't"
  bt_Delete :: "('i \<Rightarrow> 'i \<Rightarrow> bool) \<Rightarrow> 't \<Rightarrow> 'i \<Rightarrow> 't"
  bt_Ascend :: "('i \<Rightarrow> 'i \<Rightarrow> bool) \<Rightarrow> 't \<Rightarrow> 'i option \<Rightarrow> 'i list"
  bt_Empty :: 't

abbreviation bt_items :: "('t, 'i) btree_lib \<Rightarrow> ('i \<Rightarrow> 'i \<Rightarrow> bool) \<Rightarrow> 't \<Rightarrow> 'i list" where
  "bt_items bt lt t \<equiv> bt_Ascend bt lt t None"

text \<open>
  \<open>ok lt t\<close> says that the tree was built with the order \<open>lt\<close>.  An item replaces the item that is not ordered
  against it, and an ascent from a pivot offers the items that are not below it, in order.
\<close>

definition btree_laws :: "('t, 'i) btree_lib \<Rightarrow> (('i \<Rightarrow> 'i \<Rightarrow> bool) \<Rightarrow> 't \<Rightarrow> bool) \<Rightarrow> ('i \<Rightarrow> 'i \<Rightarrow> bool) \<Rightarrow> bool" where
  "btree_laws bt ok lt \<longleftrightarrow>
     ok lt (bt_Empty bt) \<and> bt_items bt lt (bt_Empty bt) = [] \<and>
     (\<forall>t. ok lt t \<longrightarrow> sorted_wrt lt (bt_items bt lt t) \<and>
        (\<forall>x. ok lt (bt_Set bt lt t x) \<and>
             set (bt_items bt lt (bt_Set bt lt t x)) = insert x {y \<in> set (bt_items bt lt t). \<not> unordered lt y x}) \<and>
        (\<forall>x. ok lt (bt_Delete bt lt t x) \<and>
             set (bt_items bt lt (bt_Delete bt lt t x)) = {y \<in> set (bt_items bt lt t). \<not> unordered lt y x}) \<and>
        (\<forall>p. bt_Ascend bt lt t (Some p) = filter (\<lambda>x. \<not> lt x p) (bt_items bt lt t)) \<and>
        (\<forall>x. bt_Get bt lt t x = find (unordered lt x) (bt_items bt lt t)))"

lemma btree_lawsD:
  assumes "btree_laws bt ok lt" and "ok lt t"
  shows "sorted_wrt lt (bt_items bt lt t)" and "ok lt (bt_Set bt lt t x)" and "ok lt (bt_Delete bt lt t x)"
    and "set (bt_items bt lt (bt_Set bt lt t x)) = insert x {y \<in> set (bt_items bt lt t). \<not> unordered lt y x}"
    and "set (bt_items bt lt (bt_Delete bt lt t x)) = {y \<in> set (bt_items bt lt t). \<not> unordered lt y x}"
    and "bt_Ascend bt lt t (Some p) = filter (\<lambda>x. \<not> lt x p) (bt_items bt lt t)"
    and "bt_Get bt lt t x = find (unordered lt x) (bt_items bt lt t)"
  using assms unfolding btree_laws_def by simp_all

lemma btree_empty: "btree_laws bt ok lt \<Longrightarrow> ok lt (bt_Empty bt) \<and> bt_items bt lt (bt_Empty bt) = []"
  by (simp add: btree_laws_def)

text \<open>What a tree needs of the order it is given, and how a run of items is read from it.\<close>

locale tree_order =
  fixes lt :: "'i \<Rightarrow> 'i \<Rightarrow> bool"
  assumes irrefl: "\<not> lt a a" and trans: "lt a b \<Longrightarrow> lt b c \<Longrightarrow> lt a c"
    and cut: "lt a c \<Longrightarrow> lt a b \<or> lt b c"
begin

lemma asym: "lt a b \<Longrightarrow> \<not> lt b a"
  using irrefl trans by blast

lemma unordered_refl: "unordered lt a a"
  by (simp add: unordered_def irrefl)

lemma unordered_cong: "unordered lt a b \<Longrightarrow> unordered lt b c \<Longrightarrow> unordered lt a c"
  unfolding unordered_def using cut by blast

text \<open>A run \<open>P\<close> of items with the lower bound \<open>p\<close>: the ascent from \<open>p\<close> reads it first, and all of it.\<close>

lemma takeWhile_run:
  assumes "sorted_wrt lt xs" and "\<And>x. P x \<Longrightarrow> \<not> lt x p"
    and "\<And>x y. P x \<Longrightarrow> \<not> P y \<Longrightarrow> \<not> lt y p \<Longrightarrow> lt x y"
  shows "takeWhile P (filter (\<lambda>x. \<not> lt x p) xs) = filter P xs"
  using assms(1)
proof (induction xs)
  case (Cons x xs)
  show ?case
  proof (cases "P x")
    case True
    with Cons assms(2) show ?thesis by simp
  next
    case False
    show ?thesis
    proof (cases "lt x p")
      case False
      then have "filter P xs = []"
        using Cons.prems \<open>\<not> P x\<close> assms(3) asym by (auto simp: filter_empty_conv)
      with \<open>\<not> P x\<close> False show ?thesis by simp
    qed (use False Cons in simp)
  qed
qed simp

text \<open>No two items of a sorted list are unordered.\<close>

lemma find_unordered:
  assumes "sorted_wrt lt xs" and "y \<in> set xs" and "unordered lt x y"
  shows "find (unordered lt x) xs = Some y"
  using assms(1,2)
proof (induction xs)
  case (Cons z xs)
  show ?case
  proof (cases "unordered lt x z")
    case True
    have "unordered lt z y" using True assms(3) unordered_cong unfolding unordered_def by blast
    with Cons.prems have "y = z" by (auto simp: unordered_def)
    with True show ?thesis by simp
  qed (use Cons assms(3) in auto)
qed simp

end

text \<open>The order by a key of the items.\<close>

definition by_key :: "('i \<Rightarrow> 'k :: linorder) \<Rightarrow> 'i \<Rightarrow> 'i \<Rightarrow> bool" where
  "by_key k a b \<longleftrightarrow> k a < k b"

lemma by_key_order: "tree_order (by_key k)"
  by unfold_locales (auto simp: by_key_def)

lemma by_key_unordered: "unordered (by_key k) a b \<longleftrightarrow> k a = k b"
  by (auto simp: unordered_def by_key_def)

section \<open>Connections\<close>

record groupItem =
  hookName :: gostring
  colKey :: gostring
  objID :: gostring
  groupID :: gostring

definition byGroupHook :: "groupItem \<Rightarrow> groupItem \<Rightarrow> bool" where
  "byGroupHook a b =
     (if hookName a < hookName b then True
      else if hookName a > hookName b then False
      else if colKey a < colKey b then True
      else if colKey a > colKey b then False
      else objID a < objID b)"

definition byGroupObject :: "groupItem \<Rightarrow> groupItem \<Rightarrow> bool" where
  "byGroupObject a b =
     (if colKey a < colKey b then True
      else if colKey a > colKey b then False
      else if objID a < objID b then True
      else if objID a > objID b then False
      else hookName a < hookName b)"

text \<open>The four strings share one allocation, of which each is a slice.\<close>

definition newGroupItem :: "gostring \<Rightarrow> gostring \<Rightarrow> gostring \<Rightarrow> gostring \<Rightarrow> groupItem" where
  "newGroupItem bsonID hn ck oi =
     (let gid = bsonID; ustr = hn @ ck @ oi @ gid; slice = (\<lambda>pos n. take n (drop pos ustr));
          p1 = length hn; p2 = p1 + length ck; p3 = p2 + length oi
      in \<lparr>hookName = slice 0 (length hn), colKey = slice p1 (length ck),
          objID = slice p2 (length oi), groupID = slice p3 (length gid)\<rparr>)"

lemma newGroupItem_simp: "newGroupItem gid hn ck oi = \<lparr>hookName = hn, colKey = ck, objID = oi, groupID = gid\<rparr>"
  by (simp add: newGroupItem_def Let_def)

record 'q groups =
  groupHooks :: 'q
  groupObjects :: 'q

abbreviation key_item :: "gostring \<Rightarrow> gostring \<Rightarrow> gostring \<Rightarrow> groupItem" where
  "key_item hn ck oi \<equiv> \<lparr>hookName = hn, colKey = ck, objID = oi, groupID = []\<rparr>"

definition groupConnect ::
  "('q, groupItem) btree_lib \<Rightarrow> gostring \<Rightarrow> gostring \<Rightarrow> gostring \<Rightarrow> gostring \<Rightarrow> 'q groups \<Rightarrow> gostring \<times> 'q groups" where
  "groupConnect bt bsonID hn ck oi s =
     (let g = newGroupItem bsonID hn ck oi in
      (groupID g, s\<lparr>groupHooks := bt_Set bt byGroupHook (groupHooks s) g,
                    groupObjects := bt_Set bt byGroupObject (groupObjects s) g\<rparr>))"

definition groupDisconnect ::
  "('q, groupItem) btree_lib \<Rightarrow> gostring \<Rightarrow> gostring \<Rightarrow> gostring \<Rightarrow> 'q groups \<Rightarrow> 'q groups" where
  "groupDisconnect bt hn ck oi s =
     (let g = key_item hn ck oi in
      s\<lparr>groupHooks := bt_Delete bt byGroupHook (groupHooks s) g,
        groupObjects := bt_Delete bt byGroupObject (groupObjects s) g\<rparr>)"

definition groupGet :: "('q, groupItem) btree_lib \<Rightarrow> gostring \<Rightarrow> gostring \<Rightarrow> gostring \<Rightarrow> 'q groups \<Rightarrow> gostring" where
  "groupGet bt hn ck oi s =
     (case bt_Get bt byGroupHook (groupHooks s) (key_item hn ck oi) of Some g \<Rightarrow> groupID g | None \<Rightarrow> [])"

text \<open>The hints of the source only speed the tree up.\<close>

definition deleteGroups :: "('q, groupItem) btree_lib \<Rightarrow> groupItem list \<Rightarrow> 'q groups \<Rightarrow> 'q groups" where
  "deleteGroups bt groups s =
     fold (\<lambda>g s. s\<lparr>groupHooks := bt_Delete bt byGroupHook (groupHooks s) g,
                    groupObjects := bt_Delete bt byGroupObject (groupObjects s) g\<rparr>) groups s"

definition groupDisconnectObject :: "('q, groupItem) btree_lib \<Rightarrow> gostring \<Rightarrow> gostring \<Rightarrow> 'q groups \<Rightarrow> 'q groups" where
  "groupDisconnectObject bt ck oi s =
     deleteGroups bt
       (takeWhile (\<lambda>g. \<not> (colKey g \<noteq> ck \<or> objID g \<noteq> oi))
          (bt_Ascend bt byGroupObject (groupObjects s) (Some (key_item [] ck oi)))) s"

definition groupDisconnectCollection :: "('q, groupItem) btree_lib \<Rightarrow> gostring \<Rightarrow> 'q groups \<Rightarrow> 'q groups" where
  "groupDisconnectCollection bt ck s =
     deleteGroups bt
       (takeWhile (\<lambda>g. \<not> colKey g \<noteq> ck)
          (bt_Ascend bt byGroupObject (groupObjects s) (Some (key_item [] ck [])))) s"

definition groupDisconnectHook :: "('q, groupItem) btree_lib \<Rightarrow> gostring \<Rightarrow> 'q groups \<Rightarrow> 'q groups" where
  "groupDisconnectHook bt hn s =
     deleteGroups bt
       (takeWhile (\<lambda>g. \<not> hookName g \<noteq> hn)
          (bt_Ascend bt byGroupHook (groupHooks s) (Some (key_item hn [] [])))) s"

section \<open>The two orders\<close>

lemma byGroupHook_key: "byGroupHook = by_key (\<lambda>g. (hookName g, colKey g, objID g))"
  by (auto simp: fun_eq_iff byGroupHook_def by_key_def)

lemma byGroupObject_key: "byGroupObject = by_key (\<lambda>g. (colKey g, objID g, hookName g))"
  by (auto simp: fun_eq_iff byGroupObject_def by_key_def)

interpretation by_hook: tree_order byGroupHook
  unfolding byGroupHook_key by (rule by_key_order)

interpretation by_object: tree_order byGroupObject
  unfolding byGroupObject_key by (rule by_key_order)

definition same_link :: "groupItem \<Rightarrow> groupItem \<Rightarrow> bool" where
  "same_link a b \<longleftrightarrow> hookName a = hookName b \<and> colKey a = colKey b \<and> objID a = objID b"

lemma unordered_link: "unordered byGroupHook a b \<longleftrightarrow> same_link a b" "unordered byGroupObject a b \<longleftrightarrow> same_link a b"
  by (auto simp: byGroupHook_key byGroupObject_key by_key_unordered same_link_def)

section \<open>The trees hold the same connections\<close>

definition links :: "('q, groupItem) btree_lib \<Rightarrow> 'q groups \<Rightarrow> groupItem set" where
  "links bt s = set (bt_items bt byGroupHook (groupHooks s))"

definition groups_ok ::
  "('q, groupItem) btree_lib \<Rightarrow> ((groupItem \<Rightarrow> groupItem \<Rightarrow> bool) \<Rightarrow> 'q \<Rightarrow> bool) \<Rightarrow> 'q groups \<Rightarrow> bool" where
  "groups_ok bt ok s \<longleftrightarrow>
     ok byGroupHook (groupHooks s) \<and> ok byGroupObject (groupObjects s) \<and>
     set (bt_items bt byGroupObject (groupObjects s)) = links bt s"

abbreviation group_laws ::
  "('q, groupItem) btree_lib \<Rightarrow> ((groupItem \<Rightarrow> groupItem \<Rightarrow> bool) \<Rightarrow> 'q \<Rightarrow> bool) \<Rightarrow> bool" where
  "group_laws bt ok \<equiv> btree_laws bt ok byGroupHook \<and> btree_laws bt ok byGroupObject"

lemma deleteGroups_exact:
  assumes "group_laws bt ok"
  shows "groups_ok bt ok s \<Longrightarrow> groups_ok bt ok (deleteGroups bt gs s)
    \<and> links bt (deleteGroups bt gs s) = {g \<in> links bt s. \<not> (\<exists>d \<in> set gs. same_link g d)}"
proof (induction gs arbitrary: s)
  case (Cons d gs)
  let ?s = "s\<lparr>groupHooks := bt_Delete bt byGroupHook (groupHooks s) d,
             groupObjects := bt_Delete bt byGroupObject (groupObjects s) d\<rparr>"
  have ok: "ok byGroupHook (groupHooks s)" "ok byGroupObject (groupObjects s)"
    using Cons.prems by (simp_all add: groups_ok_def)
  have "groups_ok bt ok ?s" "links bt ?s = {g \<in> links bt s. \<not> same_link g d}"
    using Cons.prems btree_lawsD(3,5) [OF conjunct1 [OF assms], OF ok(1), of d]
      btree_lawsD(3,5) [OF conjunct2 [OF assms], OF ok(2), of d]
    by (auto simp: groups_ok_def links_def unordered_link)
  with Cons.IH [of ?s] show ?case by (auto simp: deleteGroups_def)
qed (simp add: deleteGroups_def)

text \<open>A run of connections that both keys determine is removed as a whole.\<close>

lemma disconnect_run:
  assumes "group_laws bt ok" and "groups_ok bt ok s" and "set gs = {g \<in> links bt s. P g}"
    and "\<And>a b. same_link a b \<Longrightarrow> P a = P b"
  shows "groups_ok bt ok (deleteGroups bt gs s) \<and> links bt (deleteGroups bt gs s) = {g \<in> links bt s. \<not> P g}"
proof -
  have "(\<exists>d \<in> set gs. same_link g d) \<longleftrightarrow> P g" if "g \<in> links bt s" for g
  proof
    assume "P g"
    with that assms(3) have "g \<in> set gs" "same_link g g" by (simp_all add: same_link_def)
    then show "\<exists>d \<in> set gs. same_link g d" by blast
  next
    assume "\<exists>d \<in> set gs. same_link g d"
    then obtain d where "P d" "same_link g d" using assms(3) by blast
    then show "P g" using assms(4) by simp
  qed
  then have "{g \<in> links bt s. \<not> (\<exists>d \<in> set gs. same_link g d)} = {g \<in> links bt s. \<not> P g}" by blast
  then show ?thesis using deleteGroups_exact [OF assms(1,2), of gs] by simp
qed

lemma groupDisconnectObject_exact:
  assumes "group_laws bt ok" and "groups_ok bt ok s"
  shows "groups_ok bt ok (groupDisconnectObject bt ck oi s)
    \<and> links bt (groupDisconnectObject bt ck oi s) = {g \<in> links bt s. \<not> (colKey g = ck \<and> objID g = oi)}"
  unfolding groupDisconnectObject_def
proof (rule disconnect_run [OF assms])
  have ok: "ok byGroupObject (groupObjects s)" using assms(2) by (simp add: groups_ok_def)
  note laws = btree_lawsD [OF conjunct2 [OF assms(1)], OF ok]
  have run: "takeWhile (\<lambda>g. \<not> (colKey g \<noteq> ck \<or> objID g \<noteq> oi)) (filter (\<lambda>x. \<not> byGroupObject x (key_item [] ck oi)) (bt_items bt byGroupObject (groupObjects s)))
      = filter (\<lambda>g. \<not> (colKey g \<noteq> ck \<or> objID g \<noteq> oi)) (bt_items bt byGroupObject (groupObjects s))"
    by (rule by_object.takeWhile_run [OF laws(1)]) (auto simp: byGroupObject_key by_key_def)
  show "set (takeWhile (\<lambda>g. \<not> (colKey g \<noteq> ck \<or> objID g \<noteq> oi))
      (bt_Ascend bt byGroupObject (groupObjects s) (Some (key_item [] ck oi)))) = {g \<in> links bt s. colKey g = ck \<and> objID g = oi}"
    unfolding laws(6) run using assms(2) by (auto simp: groups_ok_def)
qed (auto simp: same_link_def)

lemma groupDisconnectCollection_exact:
  assumes "group_laws bt ok" and "groups_ok bt ok s"
  shows "groups_ok bt ok (groupDisconnectCollection bt ck s)
    \<and> links bt (groupDisconnectCollection bt ck s) = {g \<in> links bt s. colKey g \<noteq> ck}"
  unfolding groupDisconnectCollection_def
proof (rule disconnect_run [OF assms, where P = "\<lambda>g. colKey g = ck"])
  have ok: "ok byGroupObject (groupObjects s)" using assms(2) by (simp add: groups_ok_def)
  note laws = btree_lawsD [OF conjunct2 [OF assms(1)], OF ok]
  have run: "takeWhile (\<lambda>g. \<not> colKey g \<noteq> ck) (filter (\<lambda>x. \<not> byGroupObject x (key_item [] ck [])) (bt_items bt byGroupObject (groupObjects s)))
      = filter (\<lambda>g. \<not> colKey g \<noteq> ck) (bt_items bt byGroupObject (groupObjects s))"
    by (rule by_object.takeWhile_run [OF laws(1)]) (auto simp: byGroupObject_key by_key_def)
  show "set (takeWhile (\<lambda>g. \<not> colKey g \<noteq> ck)
      (bt_Ascend bt byGroupObject (groupObjects s) (Some (key_item [] ck [])))) = {g \<in> links bt s. colKey g = ck}"
    unfolding laws(6) run using assms(2) by (auto simp: groups_ok_def)
qed (auto simp: same_link_def)

lemma groupDisconnectHook_exact:
  assumes "group_laws bt ok" and "groups_ok bt ok s"
  shows "groups_ok bt ok (groupDisconnectHook bt hn s)
    \<and> links bt (groupDisconnectHook bt hn s) = {g \<in> links bt s. hookName g \<noteq> hn}"
  unfolding groupDisconnectHook_def
proof (rule disconnect_run [OF assms, where P = "\<lambda>g. hookName g = hn"])
  have ok: "ok byGroupHook (groupHooks s)" using assms(2) by (simp add: groups_ok_def)
  note laws = btree_lawsD [OF conjunct1 [OF assms(1)], OF ok]
  have run: "takeWhile (\<lambda>g. \<not> hookName g \<noteq> hn) (filter (\<lambda>x. \<not> byGroupHook x (key_item hn [] [])) (bt_items bt byGroupHook (groupHooks s)))
      = filter (\<lambda>g. \<not> hookName g \<noteq> hn) (bt_items bt byGroupHook (groupHooks s))"
    by (rule by_hook.takeWhile_run [OF laws(1)]) (auto simp: byGroupHook_key by_key_def)
  show "set (takeWhile (\<lambda>g. \<not> hookName g \<noteq> hn)
      (bt_Ascend bt byGroupHook (groupHooks s) (Some (key_item hn [] [])))) = {g \<in> links bt s. hookName g = hn}"
    unfolding laws(6) run using assms(2) by (auto simp: links_def)
qed (auto simp: same_link_def)

lemma groupConnect_exact:
  assumes "group_laws bt ok" and "groups_ok bt ok s" and "groupConnect bt gid hn ck oi s = (r, s')"
  shows "groups_ok bt ok s'" and "groupGet bt hn ck oi s' = gid" and "r = gid"
    and "links bt s' = insert (newGroupItem gid hn ck oi) {g \<in> links bt s. \<not> same_link g (key_item hn ck oi)}"
proof -
  let ?g = "newGroupItem gid hn ck oi"
  have ok: "ok byGroupHook (groupHooks s)" "ok byGroupObject (groupObjects s)"
    using assms(2) by (simp_all add: groups_ok_def)
  note hook = btree_lawsD(2,4) [OF conjunct1 [OF assms(1)], OF ok(1), of ?g]
  note obj = btree_lawsD(2,4) [OF conjunct2 [OF assms(1)], OF ok(2), of ?g]
  have s': "groupHooks s' = bt_Set bt byGroupHook (groupHooks s) ?g"
      "groupObjects s' = bt_Set bt byGroupObject (groupObjects s) ?g"
    using assms(3) by (auto simp: groupConnect_def Let_def)
  show "r = gid" using assms(3) by (auto simp: groupConnect_def Let_def newGroupItem_simp)
  show "groups_ok bt ok s'"
    using assms(2) hook obj by (auto simp: groups_ok_def links_def s' unordered_link)
  show "links bt s' = insert ?g {g \<in> links bt s. \<not> same_link g (key_item hn ck oi)}"
    using hook(2) by (auto simp: links_def s' unordered_link same_link_def newGroupItem_simp)
  note hook' = btree_lawsD [OF conjunct1 [OF assms(1)], OF hook(1)]
  have "find (unordered byGroupHook (key_item hn ck oi)) (bt_items bt byGroupHook (groupHooks s')) = Some ?g"
    unfolding s' by (rule by_hook.find_unordered [OF hook'(1)])
      (simp_all only: hook(2), simp_all add: unordered_link same_link_def newGroupItem_simp)
  then show "groupGet bt hn ck oi s' = gid"
    unfolding groupGet_def s' hook'(7) by (simp add: newGroupItem_simp)
qed

section \<open>A concrete tree\<close>

definition demo_bt :: "('i list, 'i) btree_lib" where
  "demo_bt =
     \<lparr>bt_Get = (\<lambda>lt t x. find (unordered lt x) t),
      bt_Set = (\<lambda>lt t x. filter (\<lambda>y. lt y x) t @ [x] @ filter (\<lambda>y. lt x y) t),
      bt_Delete = (\<lambda>lt t x. filter (\<lambda>y. \<not> unordered lt y x) t),
      bt_Ascend = (\<lambda>lt t p. case p of None \<Rightarrow> t | Some x \<Rightarrow> filter (\<lambda>y. \<not> lt y x) t),
      bt_Empty = []\<rparr>"

lemma demo_bt_laws:
  assumes "tree_order lt"
  shows "btree_laws demo_bt sorted_wrt lt"
proof -
  have sorted: "sorted_wrt lt (filter (\<lambda>y. lt y x) t @ x # filter (\<lambda>y. lt x y) t)" if "sorted_wrt lt t" for t x
    using that tree_order.trans [OF assms] by (auto simp: sorted_wrt_append sorted_wrt_filter)
  have set: "{y. y \<in> set t \<and> lt y x} \<union> {y. y \<in> set t \<and> lt x y} = {y \<in> set t. \<not> unordered lt y x}" for t x
    by (auto simp: unordered_def)
  show ?thesis
    using sorted set by (simp add: btree_laws_def demo_bt_def sorted_wrt_filter Un_insert_left [symmetric] insert_commute)
qed

definition demo_groups :: "groupItem list groups" where
  "demo_groups = snd (groupConnect demo_bt (lit ''g2'') (lit ''h'') (lit ''fleet'') (lit ''b'')
     (snd (groupConnect demo_bt (lit ''g1'') (lit ''h'') (lit ''fleet'') (lit ''a'') \<lparr>groupHooks = [], groupObjects = []\<rparr>)))"

lemma demo_group_laws: "group_laws demo_bt sorted_wrt"
  by (simp add: demo_bt_laws by_hook.tree_order_axioms by_object.tree_order_axioms)

lemma demo_groups_ok: "groups_ok demo_bt sorted_wrt demo_groups"
  unfolding demo_groups_def
  by (intro groupConnect_exact(1) [OF demo_group_laws _ prod.collapse [symmetric]])
     (simp add: groups_ok_def links_def demo_bt_def)

lemma demo_groups_eq: "demo_groups =
  (let a = newGroupItem (lit ''g1'') (lit ''h'') (lit ''fleet'') (lit ''a'');
       b = newGroupItem (lit ''g2'') (lit ''h'') (lit ''fleet'') (lit ''b'')
   in \<lparr>groupHooks = [a, b], groupObjects = [a, b]\<rparr>)"
  by code_simp

section \<open>Property\<close>

text \<open>
  C19. The connections between hooks and objects stay the same set in both trees.  After a connection its
  group is found; disconnecting an object, a collection or a hook removes exactly the connections of that
  object, collection or hook, although the code only walks one run of one of the trees.
\<close>

theorem disconnect_exact:
  assumes "group_laws bt ok" and "groups_ok bt ok s"
  shows "groups_ok bt ok (groupDisconnectObject bt ck oi s)
    \<and> links bt (groupDisconnectObject bt ck oi s) = {g \<in> links bt s. \<not> (colKey g = ck \<and> objID g = oi)}
    \<and> groups_ok bt ok (groupDisconnectCollection bt ck s)
    \<and> links bt (groupDisconnectCollection bt ck s) = {g \<in> links bt s. colKey g \<noteq> ck}
    \<and> groups_ok bt ok (groupDisconnectHook bt hn s)
    \<and> links bt (groupDisconnectHook bt hn s) = {g \<in> links bt s. hookName g \<noteq> hn}
    \<and> groups_ok bt ok (snd (groupConnect bt gid hn ck oi s))
    \<and> groupGet bt hn ck oi (snd (groupConnect bt gid hn ck oi s)) = gid"
  using groupDisconnectObject_exact [OF assms] groupDisconnectCollection_exact [OF assms]
    groupDisconnectHook_exact [OF assms] groupConnect_exact(1,2) [OF assms prod.collapse [symmetric]]
  by simp

theorem disconnect_exact_witness:
  "links demo_bt (groupDisconnectObject demo_bt (lit ''fleet'') (lit ''a'') demo_groups)
     = {newGroupItem (lit ''g2'') (lit ''h'') (lit ''fleet'') (lit ''b'')}"
proof -
  have "lit ''a'' \<noteq> lit ''b''" by code_simp
  with disconnect_exact [OF demo_group_laws demo_groups_ok, of "lit ''fleet''" "lit ''a''"] show ?thesis
    by (auto simp: links_def demo_groups_eq demo_bt_def Let_def newGroupItem_simp simp del: lit_Cons)
qed

end
