(* ===== verification/Server_State.thy ===== *)
theory Server_State
  imports Server_Json Hook_Groups Collections Glob
begin

text \<open>
  The state of the server that the commands work on (\<^verbatim>\<open>internal/legacy/server/server.go\<close>), the values they
  return, and the removal of hooks (\<^verbatim>\<open>internal/legacy/server/hooks.go\<close>).

  The packages \<^verbatim>\<open>btree\<close>, \<^verbatim>\<open>rtree\<close>, \<^verbatim>\<open>geojson\<close> and \<^verbatim>\<open>geohash\<close> are not part of the sources: \<open>libs\<close> collects what
  the commands call.  Collections are shared by pointer in the source; each one hangs under one
  key only, and an update of a collection is written back under its key here.
\<close>

section \<open>Libraries\<close>

text \<open>A map from strings that can be walked in the order of its keys.\<close>

record ('c, 'v) map_lib =
  mp_Get :: "'c \<Rightarrow> gostring \<Rightarrow> 'v option"
  mp_Set :: "'c \<Rightarrow> gostring \<Rightarrow> 'v \<Rightarrow> 'c"
  mp_Delete :: "'c \<Rightarrow> gostring \<Rightarrow> 'c"
  mp_Scan :: "'c \<Rightarrow> (gostring \<times> 'v) list"
  mp_Ascend :: "'c \<Rightarrow> gostring \<Rightarrow> (gostring \<times> 'v) list"
  mp_Keys :: "'c \<Rightarrow> gostring list"
  mp_Empty :: 'c

record Hook =
  h_Key :: gostring
  h_Name :: gostring
  h_channel :: bool
  h_expires :: int
  h_rect :: "Rect option"
  h_cross :: bool

text \<open>
  \<open>h_expires\<close> is a \<^verbatim>\<open>time.Time\<close> in nanoseconds since its zero value; \<open>h_rect\<close> is the rectangle of the area of
  the fence, if it has an area, and \<open>h_cross\<close> says whether the fence detects crossings.
\<close>

record 'x hook_rtree_lib =
  hr_Delete :: "'x \<Rightarrow> Rect \<Rightarrow> Hook \<Rightarrow> 'x"
  hr_Empty :: 'x

text \<open>More of \<^verbatim>\<open>geojson\<close> than the collections need, and \<^verbatim>\<open>geohash\<close>.  Coordinates are pairs of x and y.\<close>

record 'g geojson_ext =
  gx_AppendJSON :: "'g \<Rightarrow> gostring"
  gx_Center :: "'g \<Rightarrow> float64 \<times> float64"
  gx_PointZ :: "'g \<Rightarrow> float64 option"
  gx_FeatureBase :: "'g \<Rightarrow> 'g option"
  gx_NewPoint :: "float64 \<Rightarrow> float64 \<Rightarrow> 'g"
  gx_NewPointZ :: "float64 \<Rightarrow> float64 \<Rightarrow> float64 \<Rightarrow> 'g"
  gx_NewRect :: "Rect \<Rightarrow> 'g"
  gx_Parse :: "gostring \<Rightarrow> gostring + 'g"
  gh_Decode :: "gostring \<Rightarrow> float64 \<times> float64"
  gh_Encode :: "float64 \<Rightarrow> float64 \<Rightarrow> int \<Rightarrow> gostring"

record ('m, 't, 'r, 'g, 'p, 'c, 'h, 'q, 'x, 'n) libs =
  lb_tr :: "('m, 't, 'r, ('g, 'p) Object) tree_lib"
  lb_gl :: "('g, 'p) geojson_lib"
  lb_gx :: "'g geojson_ext"
  lb_mp :: "('c, ('m, 't, 'r) Collection) map_lib"
  lb_hk :: "('h, Hook) btree_lib"
  lb_gr :: "('q, groupItem) btree_lib"
  lb_rt :: "'x hook_rtree_lib"
  lb_hm :: "'n hashmap_lib"
  lb_gj :: gjson_lib
  lb_out :: "float64 \<Rightarrow> 64 word"

section \<open>State, messages and results\<close>

record ('c, 'h, 'q, 'x, 'n) Server =
  sv_cols :: 'c
  sv_hooks :: 'h
  sv_hooksOut :: 'h
  sv_hookExpires :: 'h
  sv_groups :: "'q groups"
  sv_hookTree :: 'x
  sv_hookCross :: 'x
  sv_closed :: "gostring list"
  sv_tab :: "'n sstring"
  sv_maxMemory :: int
  sv_outOfMemory :: bool
  sv_statsExpired :: int

text \<open>
  \<open>sv_closed\<close> records the hooks that were told to end, \<open>sv_tab\<close> is the table of shared field names of the
  process.
\<close>

datatype out_type = ONull | ORESP | OTelnet | ONative | OHTTP | OWebSocket | OJSON

record Message =
  msg_Args :: "gostring list"
  msg_OutputType :: out_type
  msg_Deadline :: "Deadline option"

text \<open>
  What a command reads of the clock: the time for expirations, the time stamp, the time it took, the times during
  its iterations and the time at its end.
\<close>

record Times =
  tm_now :: "64 word"
  tm_stamp :: "64 word"
  tm_elapsed :: gostring
  tm_clock :: "64 word \<Rightarrow> int"
  tm_end :: int

datatype resp_value =
    RNone
  | RNull
  | RSimpleString gostring
  | RString gostring
  | RInteger int
  | RBool bool
  | RFloat float64
  | RArray "resp_value list"

datatype cmd_error =
    ErrInvalidNumberOfArguments
  | ErrInvalidArgument gostring
  | ErrKeyNotFound
  | ErrIDNotFound
  | ErrIDAlreadyExists
  | ErrPathNotFound
  | ErrKeyHasHooksSet
  | ErrKeyHasChannelsSet
  | ErrOOM
  | ErrTimeout
  | ErrGeoJSON gostring
  | PanicNil
  | PanicIndex
  | PanicField fl_error
  | PanicDeadline
  | Diverges

text \<open>The children of the details of a command have no children of their own.\<close>

record ('o, 'ch) commandDetails =
  d_command :: gostring
  d_key :: gostring
  d_newKey :: gostring
  d_obj :: "'o option"
  d_old :: "'o option"
  d_updated :: bool
  d_timestamp :: "64 word"
  d_parent :: bool
  d_pattern :: gostring
  d_children :: "'ch list"

definition noChild :: "('o, unit) commandDetails" where
  "noChild = \<lparr>d_command = [], d_key = [], d_newKey = [], d_obj = None, d_old = None, d_updated = False,
     d_timestamp = 0, d_parent = False, d_pattern = [], d_children = []\<rparr>"

type_synonym 'o details = "('o, ('o, unit) commandDetails) commandDetails"

definition noDetails :: "'o details" where
  "noDetails = \<lparr>d_command = [], d_key = [], d_newKey = [], d_obj = None, d_old = None, d_updated = False,
     d_timestamp = 0, d_parent = False, d_pattern = [], d_children = []\<rparr>"

text \<open>
  A command returns an error, or a value with its details, and the state that it leaves; a query returns
  an error or a value.
\<close>

type_synonym ('m, 't, 'r, 'g, 'p, 'c, 'h, 'q, 'x, 'n) command =
  "('m, 't, 'r, 'g, 'p, 'c, 'h, 'q, 'x, 'n) libs \<Rightarrow> Times \<Rightarrow> Message \<Rightarrow> ('c, 'h, 'q, 'x, 'n) Server
     \<Rightarrow> (cmd_error + (resp_value \<times> ('g, 'p) Object details)) \<times> ('c, 'h, 'q, 'x, 'n) Server"

type_synonym ('m, 't, 'r, 'g, 'p, 'c, 'h, 'q, 'x, 'n) query =
  "('m, 't, 'r, 'g, 'p, 'c, 'h, 'q, 'x, 'n) libs \<Rightarrow> Times \<Rightarrow> Message \<Rightarrow> ('c, 'h, 'q, 'x, 'n) Server \<Rightarrow> cmd_error + resp_value"

text \<open>\<^verbatim>\<open>{"ok":true,"elapsed":"..."}\<close>\<close>

definition okElapsed :: "Times \<Rightarrow> gostring" where
  "okElapsed tm = lit ''{\"ok\":true,\"elapsed\":\"'' @ tm_elapsed tm @ lit ''\"}''"

definition OKMessage :: "Times \<Rightarrow> Message \<Rightarrow> resp_value" where
  "OKMessage tm msg =
     (case msg_OutputType msg of
        OJSON \<Rightarrow> RString (okElapsed tm)
      | ORESP \<Rightarrow> RSimpleString (lit ''OK'')
      | _ \<Rightarrow> RSimpleString [])"

definition NOMessage :: resp_value where
  "NOMessage = RSimpleString []"

text \<open>The end of many commands: the JSON text, or what \<open>f\<close> gives for RESP, or nothing.\<close>

definition replyOK :: "Times \<Rightarrow> Message \<Rightarrow> resp_value \<Rightarrow> resp_value" where
  "replyOK tm msg r =
     (case msg_OutputType msg of OJSON \<Rightarrow> RString (okElapsed tm) | ORESP \<Rightarrow> r | _ \<Rightarrow> RNone)"

definition boolInt :: "bool \<Rightarrow> resp_value" where
  "boolInt b = (if b then RInteger 1 else RInteger 0)"

section \<open>Hooks\<close>

definition byHookName :: "Hook \<Rightarrow> Hook \<Rightarrow> bool" where
  "byHookName a b \<longleftrightarrow> h_Name a < h_Name b"

definition byHookExpires :: "Hook \<Rightarrow> Hook \<Rightarrow> bool" where
  "byHookExpires ha hb =
     (if h_expires ha < h_expires hb then True
      else if h_expires ha > h_expires hb then False
      else h_Name ha < h_Name hb)"

definition nameHook :: "gostring \<Rightarrow> Hook" where
  "nameHook nm = \<lparr>h_Key = [], h_Name = nm, h_channel = False, h_expires = 0, h_rect = None, h_cross = False\<rparr>"

text \<open>\<open>Close\<close> does nothing for a channel, and otherwise tells the goroutine of the hook to end.\<close>

definition Hook_Close :: "Hook \<Rightarrow> ('c, 'h, 'q, 'x, 'n) Server \<Rightarrow> ('c, 'h, 'q, 'x, 'n) Server" where
  "Hook_Close hook s = (if h_channel hook then s else s\<lparr>sv_closed := sv_closed s @ [h_Name hook]\<rparr>)"

definition cmdDELHOOKop ::
  "('m, 't, 'r, 'g, 'p, 'c, 'h, 'q, 'x, 'n) libs \<Rightarrow> gostring \<Rightarrow> bool \<Rightarrow> ('c, 'h, 'q, 'x, 'n) Server
     \<Rightarrow> bool \<times> ('c, 'h, 'q, 'x, 'n) Server" where
  "cmdDELHOOKop lb name channel s =
     (case bt_Get (lb_hk lb) byHookName (sv_hooks s) (nameHook name) of
        None \<Rightarrow> (False, s)
      | Some hook \<Rightarrow>
          if h_channel hook \<noteq> channel then (False, s)
          else
            let s1 = Hook_Close hook s;
                s2 = s1\<lparr>sv_hooks := bt_Delete (lb_hk lb) byHookName (sv_hooks s1) hook,
                        sv_hooksOut := bt_Delete (lb_hk lb) byHookName (sv_hooksOut s1) hook\<rparr>;
                s3 = (if h_expires hook \<noteq> 0
                      then s2\<lparr>sv_hookExpires := bt_Delete (lb_hk lb) byHookExpires (sv_hookExpires s2) hook\<rparr> else s2);
                s4 = s3\<lparr>sv_groups := groupDisconnectHook (lb_gr lb) (h_Name hook) (sv_groups s3)\<rparr>;
                s5 = (case h_rect hook of
                        None \<Rightarrow> s4
                      | Some rect \<Rightarrow>
                          let t = s4\<lparr>sv_hookTree := hr_Delete (lb_rt lb) (sv_hookTree s4) rect hook\<rparr>
                          in if h_cross hook
                             then t\<lparr>sv_hookCross := hr_Delete (lb_rt lb) (sv_hookCross t) rect hook\<rparr> else t)
            in (True, s5))"

fun tokenval :: "gostring list \<Rightarrow> gostring list \<times> gostring \<times> bool" where
  "tokenval (v # vs) = (vs, v, True)"
| "tokenval [] = ([], [], False)"

definition cmdDelHook :: "('m, 't, 'r, 'g, 'p, 'c, 'h, 'q, 'x, 'n) command" where
  "cmdDelHook lb tm msg s =
     (case msg_Args msg of
        [] \<Rightarrow> (Inl PanicIndex, s)
      | cmd # vs0 \<Rightarrow>
          let channel = (ToLower cmd = lit ''delchan''); (vs, name, ok) = tokenval vs0 in
          if \<not> ok \<or> name = [] \<or> vs \<noteq> [] then (Inl ErrInvalidNumberOfArguments, s)
          else
            let (updated, s') = cmdDELHOOKop lb name channel s;
                d = noDetails\<lparr>d_updated := updated, d_timestamp := tm_stamp tm\<rparr>
            in (case msg_OutputType msg of
                  OJSON \<Rightarrow> (Inr (OKMessage tm msg, d), s')
                | ORESP \<Rightarrow> (Inr (boolInt updated, d), s')
                | _ \<Rightarrow> (Inr (RNone, d), s')))"

text \<open>
  The hooks that \<open>forEachHookByPattern\<close> hands to its callback; no caller ever stops it.  A pattern that
  \<open>Match\<close> rejects matches nothing.
\<close>

definition globMatches :: "gostring \<Rightarrow> gostring \<Rightarrow> bool" where
  "globMatches pattern name = (case Match pattern name of Inl e \<Rightarrow> False | Inr b \<Rightarrow> b)"

definition forEachHookByPattern where
  "forEachHookByPattern lb pattern channel s =
     (let g = Parse pattern False; hasUpperLimit = (glob_Limits g ! 1 \<noteq> []) in
      filter (\<lambda>hook. h_channel hook = channel \<and> globMatches pattern (h_Name hook))
        (takeWhile (\<lambda>hook. \<not> (hasUpperLimit \<and> h_Name hook > glob_Limits g ! 1))
           (bt_Ascend (lb_hk lb) byHookName (sv_hooks s) (Some (nameHook (glob_Limits g ! 0))))))"

definition cmdPDelHook :: "('m, 't, 'r, 'g, 'p, 'c, 'h, 'q, 'x, 'n) command" where
  "cmdPDelHook lb tm msg s =
     (case msg_Args msg of
        [] \<Rightarrow> (Inl PanicIndex, s)
      | cmd # vs0 \<Rightarrow>
          let channel = (ToLower cmd = lit ''pdelchan''); (vs, pattern, ok) = tokenval vs0 in
          if \<not> ok \<or> pattern = [] \<or> vs \<noteq> [] then (Inl ErrInvalidNumberOfArguments, s)
          else
            let hooks = filter (\<lambda>hook. h_channel hook = channel) (forEachHookByPattern lb pattern channel s);
                s' = fold (\<lambda>hook s. snd (cmdDELHOOKop lb (h_Name hook) channel s)) hooks s;
                d = noDetails\<lparr>d_updated := hooks \<noteq> [], d_timestamp := tm_stamp tm\<rparr>
            in (case msg_OutputType msg of
                  OJSON \<Rightarrow> (Inr (OKMessage tm msg, d), s')
                | ORESP \<Rightarrow> (Inr (RInteger (int (length hooks)), d), s')
                | _ \<Rightarrow> (Inr (RNone, d), s')))"

section \<open>Collections under their keys\<close>

definition getCol where
  "getCol lb key s = mp_Get (lb_mp lb) (sv_cols s) key"

definition putCol where
  "putCol lb key col s = s\<lparr>sv_cols := mp_Set (lb_mp lb) (sv_cols s) key col\<rparr>"

definition delCol where
  "delCol lb key s = s\<lparr>sv_cols := mp_Delete (lb_mp lb) (sv_cols s) key\<rparr>"

definition disconnectObject where
  "disconnectObject lb key ident s = s\<lparr>sv_groups := groupDisconnectObject (lb_gr lb) key ident (sv_groups s)\<rparr>"

definition disconnectCollection where
  "disconnectCollection lb key s = s\<lparr>sv_groups := groupDisconnectCollection (lb_gr lb) key (sv_groups s)\<rparr>"

end
