(* ===== verification/Server_Read.thy ===== *)
theory Server_Read
  imports Server_State
begin

text \<open>
  The commands that read (\<^verbatim>\<open>internal/legacy/server/crud.go\<close> and \<^verbatim>\<open>keys.go\<close>).  They return a value or an error and leave
  the state alone.
\<close>

section \<open>Objects in a response\<close>

fun geo_AppendJSON :: "'g geojson_ext \<Rightarrow> 'g geo \<Rightarrow> gostring" where
  "geo_AppendJSON gx (GString s) = json_Marshal s"
| "geo_AppendJSON gx (GLib g) = gx_AppendJSON gx g"

fun geo_Center :: "'g geojson_ext \<Rightarrow> 'g geo \<Rightarrow> float64 \<times> float64" where
  "geo_Center gx (GString s) = (0, 0)"
| "geo_Center gx (GLib g) = gx_Center gx g"

text \<open>A feature passes the question on to its geometry.\<close>

partial_function (option) extractZLoop :: "'g geojson_ext \<Rightarrow> 'g \<Rightarrow> float64 option" where
  "extractZLoop gx g =
     (case gx_PointZ gx g of
        Some z \<Rightarrow> Some z
      | None \<Rightarrow> (case gx_FeatureBase gx g of Some b \<Rightarrow> extractZLoop gx b | None \<Rightarrow> Some 0))"

declare extractZLoop.simps [code]

fun extractZCoordinate :: "'g geojson_ext \<Rightarrow> 'g geo \<Rightarrow> float64 option" where
  "extractZCoordinate gx (GString s) = Some 0"
| "extractZCoordinate gx (GLib g) = extractZLoop gx g"

definition appendJSONSimpleBounds where
  "appendJSONSimpleBounds gl dst geo =
     (let bbox = geo_Rect gl geo in
      dst @ lit ''{\"sw\":{\"lat\":'' @ FormatFloat (MinY bbox) @ lit '',\"lon\":'' @ FormatFloat (MinX bbox)
          @ lit ''},\"ne\":{\"lat\":'' @ FormatFloat (MaxY bbox) @ lit '',\"lon\":'' @ FormatFloat (MaxX bbox)
          @ lit ''}}'')"

definition appendJSONSimplePoint where
  "appendJSONSimplePoint gx dst geo =
     (case geo_Center gx geo of (x, y) \<Rightarrow>
      case extractZCoordinate gx geo of
        None \<Rightarrow> Inl Diverges
      | Some z \<Rightarrow>
          Inr (dst @ lit ''{\"lat\":'' @ FormatFloat y @ lit '',\"lon\":'' @ FormatFloat x
               @ (if \<not> f_eq z 0 then lit '',\"z\":'' @ FormatFloat z else []) @ lit ''}''))"

datatype okind = KindObject | KindPoint | KindBounds | KindHash

text \<open>The value of the object in the form that was asked for: JSON text, or a RESP value.\<close>

definition objectJSON where
  "objectJSON lb geo kind precision =
     (case kind of
        KindObject \<Rightarrow> Inr (lit '',\"object\":'' @ geo_AppendJSON (lb_gx lb) geo)
      | KindPoint \<Rightarrow> appendJSONSimplePoint (lb_gx lb) (lit '',\"point\":'') geo
      | KindHash \<Rightarrow>
          (case geo_Center (lb_gx lb) geo of (x, y) \<Rightarrow>
             Inr (lit '',\"hash\":\"'' @ gh_Encode (lb_gx lb) y x precision @ lit ''\"''))
      | KindBounds \<Rightarrow> Inr (appendJSONSimpleBounds (lb_gl lb) (lit '',\"bounds\":'') geo))"

definition objectRESP where
  "objectRESP lb obj geo kind precision =
     (case kind of
        KindObject \<Rightarrow> Inr (RString (geo_String (lb_gl lb) geo))
      | KindPoint \<Rightarrow>
          (case geo_Center (lb_gx lb) geo of (x, y) \<Rightarrow>
           case extractZCoordinate (lb_gx lb) geo of
             None \<Rightarrow> Inl Diverges
           | Some z \<Rightarrow>
               Inr (RArray ([RString (FormatFloat y), RString (FormatFloat x)]
                            @ (if \<not> f_eq z 0 then [RString (FormatFloat z)] else []))))
      | KindHash \<Rightarrow>
          (case geo_Center (lb_gx lb) geo of (x, y) \<Rightarrow> Inr (RString (gh_Encode (lb_gx lb) y x precision)))
      | KindBounds \<Rightarrow>
          (let bbox = Object_Rect (lb_gl lb) obj in
           Inr (RArray [RArray [RFloat (MinY bbox), RFloat (MinX bbox)],
                        RArray [RFloat (MaxY bbox), RFloat (MaxX bbox)]])))"

definition fieldE :: "fl_error + 'a \<Rightarrow> cmd_error + 'a" where
  "fieldE r = (case r of Inl e \<Rightarrow> Inl (PanicField e) | Inr x \<Rightarrow> Inr x)"

definition lenE :: "(fl_error + int) option \<Rightarrow> cmd_error + int" where
  "lenE r = (case r of None \<Rightarrow> Inl Diverges | Some x \<Rightarrow> fieldE x)"

text \<open>The fields behind the object, if they were asked for and there are any.\<close>

definition fieldsJSON where
  "fieldsJSON lb ss fl =
     bindE (lenE (List_Len fl)) (\<lambda>nfields.
       if 0 < nfields
       then bindE (fieldE (List_Scan ss fl (\<lambda>f (buf, i).
                (True, buf @ (if 0 < (i :: nat) then lit '','' else []) @ jsonString (fd_name f) @ lit '':''
                       @ Value_JSON (lb_gj lb) (fd_value f), i + 1)) ([], 0)))
              (\<lambda>(buf, i). Inr (lit '',\"fields\":{'' @ buf @ lit ''}''))
       else Inr [])"

definition fieldsRESP where
  "fieldsRESP ss fl =
     bindE (lenE (List_Len fl)) (\<lambda>nfields.
       if 0 < nfields
       then bindE (fieldE (List_Scan ss fl (\<lambda>f fvals.
                (True, fvals @ [RString (fd_name f), RString (v_data (fd_value f))])) []))
              (\<lambda>fvals. Inr [RArray fvals])
       else Inr [])"

definition buildObjectResponse where
  "buildObjectResponse lb tm ss msg obj kind precision withfields =
     (let geo = ogeom (lb_gl lb) obj; fl = Object_Fields obj in
      if msg_OutputType msg = OJSON
      then bindE (objectJSON lb geo kind precision) (\<lambda>obj.
           bindE (if withfields then fieldsJSON lb ss fl else Inr []) (\<lambda>fields.
             Inr (RString (lit ''{\"ok\":true'' @ obj @ fields
                           @ lit '',\"elapsed\":\"'' @ tm_elapsed tm @ lit ''\"}''))))
      else bindE (objectRESP lb obj geo kind precision) (\<lambda>val.
           bindE (if withfields then fieldsRESP ss fl else Inr []) (\<lambda>fields.
             Inr (if withfields then RArray (val # fields) else val))))"

text \<open>
  \<open>buildObjectResponse\<close> with a nil object: \<open>Geo\<close> returns a nil interface, whose methods panic, and \<open>Fields\<close>
  dereferences the object; only \<open>Rect\<close> checks for nil and returns the zero rectangle.
\<close>

definition nilObjectResponse :: "Message \<Rightarrow> okind \<Rightarrow> bool \<Rightarrow> cmd_error + resp_value" where
  "nilObjectResponse msg kind withfields =
     bindE (case kind of
              KindBounds \<Rightarrow>
                if msg_OutputType msg = OJSON then Inl PanicNil
                else let bbox = zeroRect in
                     Inr (RArray [RArray [RFloat (MinY bbox), RFloat (MinX bbox)],
                                  RArray [RFloat (MaxY bbox), RFloat (MaxX bbox)]])
            | _ \<Rightarrow> Inl PanicNil)
       (\<lambda>val. if withfields then Inl PanicNil else Inr val)"

section \<open>Commands\<close>

definition cmdBOUNDS :: "('m, 't, 'r, 'g, 'p, 'c, 'h, 'q, 'x, 'n) query" where
  "cmdBOUNDS lb tm msg s =
     (case msg_Args msg of
        [_, key] \<Rightarrow>
          (case getCol lb key s of
             None \<Rightarrow> if msg_OutputType msg = ORESP then Inr RNull else Inl ErrKeyNotFound
           | Some col \<Rightarrow>
               let b = Collection_Bounds (lb_tr lb) (lb_gl lb) col in
               if msg_OutputType msg = OJSON
               then Inr (RString (lit ''{\"ok\":true,\"bounds\":'' @ gx_AppendJSON (lb_gx lb) (gx_NewRect (lb_gx lb) b)
                                  @ lit '',\"elapsed\":\"'' @ tm_elapsed tm @ lit ''\"}''))
               else Inr (RArray [RArray [RFloat (MinX b), RFloat (MinY b)], RArray [RFloat (MaxX b), RFloat (MaxY b)]]))
      | _ \<Rightarrow> Inl ErrInvalidNumberOfArguments)"

definition cmdTYPE :: "('m, 't, 'r, 'g, 'p, 'c, 'h, 'q, 'x, 'n) query" where
  "cmdTYPE lb tm msg s =
     (case msg_Args msg of
        [_, key] \<Rightarrow>
          (case getCol lb key s of
             None \<Rightarrow> if msg_OutputType msg = ORESP then Inr (RSimpleString (lit ''none'')) else Inl ErrKeyNotFound
           | Some col \<Rightarrow>
               let typ = lit ''hash'' in
               if msg_OutputType msg = OJSON
               then Inr (RString (lit ''{\"ok\":true,\"type\":'' @ jsonString typ
                                  @ lit '',\"elapsed\":\"'' @ tm_elapsed tm @ lit ''\"}''))
               else Inr (RSimpleString typ))
      | _ \<Rightarrow> Inl ErrInvalidNumberOfArguments)"

text \<open>The precision of a geohash: from 1 to 12.\<close>

definition parsePrecision :: "gostring \<Rightarrow> cmd_error + int" where
  "parsePrecision s =
     (case ParseInt s of
        None \<Rightarrow> Inl (ErrInvalidArgument s)
      | Some n \<Rightarrow> if n < 1 \<or> n > 12 then Inl (ErrInvalidArgument s) else Inr n)"

record ret_opts =
  ro_withfields :: bool
  ro_kind :: okind
  ro_precision :: int

definition noRet :: ret_opts where
  "noRet = \<lparr>ro_withfields = False, ro_kind = KindObject, ro_precision = 0\<rparr>"

fun getArgs :: "gostring list \<Rightarrow> ret_opts \<Rightarrow> cmd_error + ret_opts" where
  "getArgs [] ro = Inr ro"
| "getArgs (a # as) ro =
     (let low = ToLower a in
      if low = lit ''withfields'' then getArgs as (ro\<lparr>ro_withfields := True\<rparr>)
      else if low = lit ''object'' then getArgs as (ro\<lparr>ro_kind := KindObject\<rparr>)
      else if low = lit ''point'' then getArgs as (ro\<lparr>ro_kind := KindPoint\<rparr>)
      else if low = lit ''bounds'' then getArgs as (ro\<lparr>ro_kind := KindBounds\<rparr>)
      else if low = lit ''hash''
      then (case as of
              [] \<Rightarrow> Inl ErrInvalidNumberOfArguments
            | p # as' \<Rightarrow> bindE (parsePrecision p) (\<lambda>n. getArgs as' (ro\<lparr>ro_kind := KindHash, ro_precision := n\<rparr>)))
      else Inl ErrInvalidNumberOfArguments)"

definition cmdGET :: "('m, 't, 'r, 'g, 'p, 'c, 'h, 'q, 'x, 'n) query" where
  "cmdGET lb tm msg s =
     (case msg_Args msg of
        _ # key # ident # opts \<Rightarrow>
          bindE (getArgs opts noRet) (\<lambda>ro.
            case getCol lb key s of
              None \<Rightarrow> if msg_OutputType msg = ORESP then Inr RNull else Inl ErrKeyNotFound
            | Some col \<Rightarrow>
                (case Collection_Get (lb_tr lb) ident col of
                   None \<Rightarrow> if msg_OutputType msg = ORESP then Inr RNull else Inl ErrIDNotFound
                 | Some obj \<Rightarrow>
                     buildObjectResponse lb tm (strs (sv_tab s)) msg obj (ro_kind ro) (ro_precision ro) (ro_withfields ro)))
      | _ \<Rightarrow> Inl ErrInvalidNumberOfArguments)"

definition cmdFGET :: "('m, 't, 'r, 'g, 'p, 'c, 'h, 'q, 'x, 'n) query" where
  "cmdFGET lb tm msg s =
     (case msg_Args msg of
        _ # key # ident # fname # _ \<Rightarrow>
          (case getCol lb key s of
             None \<Rightarrow> Inl ErrKeyNotFound
           | Some col \<Rightarrow>
               (case Collection_Get (lb_tr lb) ident col of
                  None \<Rightarrow> Inl ErrIDNotFound
                | Some obj \<Rightarrow>
                    bindE (fieldE (List_Get (lb_gj lb) (strs (sv_tab s)) (Object_Fields obj) fname)) (\<lambda>f.
                      case msg_OutputType msg of
                        OJSON \<Rightarrow> Inr (RString (lit ''{\"ok\":true,\"value\":'' @ Value_JSON (lb_gj lb) (fd_value f)
                                              @ lit '',\"elapsed\":\"'' @ tm_elapsed tm @ lit ''\"}''))
                      | ORESP \<Rightarrow> Inr (RString (v_data (fd_value f)))
                      | _ \<Rightarrow> Inr NOMessage)))
      | _ \<Rightarrow> Inl ErrInvalidNumberOfArguments)"

abbreviation f_second :: float64 where "f_second \<equiv> 0x41CDCD6500000000"

definition ttlSeconds where
  "ttlSeconds lb now obj =
     (if oexpires obj = 0 then - 1
      else sint (f_to_int64 (lb_out lb) (f_max (f_div (f_of_int64 (oexpires obj - now)) f_second) 0)))"

definition cmdTTL :: "('m, 't, 'r, 'g, 'p, 'c, 'h, 'q, 'x, 'n) query" where
  "cmdTTL lb tm msg s =
     (case msg_Args msg of
        [_, key, ident] \<Rightarrow>
          (case getCol lb key s of
             None \<Rightarrow> if msg_OutputType msg = OJSON then Inl ErrKeyNotFound else Inr (RInteger (- 2))
           | Some col \<Rightarrow>
               (case Collection_Get (lb_tr lb) ident col of
                  None \<Rightarrow> if msg_OutputType msg = OJSON then Inl ErrIDNotFound else Inr (RInteger (- 2))
                | Some obj \<Rightarrow>
                    let ttl = ttlSeconds lb (tm_now tm) obj in
                    if msg_OutputType msg = OJSON
                    then Inr (RSimpleString (lit ''{\"ok\":true,\"ttl\":'' @ Itoa ttl
                                             @ lit '',\"elapsed\":\"'' @ tm_elapsed tm @ lit ''\"}''))
                    else Inr (RInteger ttl)))
      | _ \<Rightarrow> Inl ErrInvalidNumberOfArguments)"

definition existsReply :: "Times \<Rightarrow> Message \<Rightarrow> bool \<Rightarrow> resp_value" where
  "existsReply tm msg b =
     (if msg_OutputType msg = OJSON
      then RSimpleString (lit ''{\"ok\":true,\"exists\":'' @ FormatBool b
                          @ lit '',\"elapsed\":\"'' @ tm_elapsed tm @ lit ''\"}'')
      else RBool b)"

definition cmdEXISTS :: "('m, 't, 'r, 'g, 'p, 'c, 'h, 'q, 'x, 'n) query" where
  "cmdEXISTS lb tm msg s =
     (case msg_Args msg of
        [_, key, ident] \<Rightarrow>
          (case getCol lb key s of
             None \<Rightarrow> Inl ErrKeyNotFound
           | Some col \<Rightarrow> Inr (existsReply tm msg (Collection_Get (lb_tr lb) ident col \<noteq> None)))
      | _ \<Rightarrow> Inl ErrInvalidNumberOfArguments)"

definition cmdFEXISTS :: "('m, 't, 'r, 'g, 'p, 'c, 'h, 'q, 'x, 'n) query" where
  "cmdFEXISTS lb tm msg s =
     (case msg_Args msg of
        [_, key, ident, fname] \<Rightarrow>
          (case getCol lb key s of
             None \<Rightarrow> Inl ErrKeyNotFound
           | Some col \<Rightarrow>
               (case Collection_Get (lb_tr lb) ident col of
                  None \<Rightarrow> Inl ErrIDNotFound
                | Some obj \<Rightarrow>
                    bindE (fieldE (List_Get (lb_gj lb) (strs (sv_tab s)) (Object_Fields obj) fname)) (\<lambda>f.
                      Inr (existsReply tm msg (fd_name f \<noteq> [])))))
      | _ \<Rightarrow> Inl ErrInvalidNumberOfArguments)"

definition joinComma :: "gostring list \<Rightarrow> gostring" where
  "joinComma xs = (case xs of [] \<Rightarrow> [] | y # ys \<Rightarrow> y @ concat (map (\<lambda>x. lit '','' @ x) ys))"

definition cmdKEYS :: "('m, 't, 'r, 'g, 'p, 'c, 'h, 'q, 'x, 'n) query" where
  "cmdKEYS lb tm msg s =
     (case msg_Args msg of
        [_, pattern] \<Rightarrow>
          let g = Parse pattern False;
              everything = (glob_Limits g ! 0 = [] \<and> glob_Limits g ! 1 = []);
              keys = filter (globMatches pattern) (map fst
                (if everything then mp_Scan (lb_mp lb) (sv_cols s)
                 else takeWhile (\<lambda>e. \<not> fst e > glob_Limits g ! 1) (mp_Ascend (lb_mp lb) (sv_cols s) (glob_Limits g ! 0))))
          in if msg_OutputType msg = OJSON
             then Inr (RString (lit ''{\"ok\":true,\"keys\":['' @ joinComma (map json_Marshal keys)
                                @ lit ''],\"elapsed\":\"'' @ tm_elapsed tm @ lit ''\"}''))
             else Inr (RArray (map RString keys))
      | _ \<Rightarrow> Inl ErrInvalidNumberOfArguments)"

end
