(* ===== verification/Server_Write.thy ===== *)
theory Server_Write
  imports Server_Read
begin

text \<open>
  The commands that delete, rename and expire (\<^verbatim>\<open>internal/legacy/server/crud.go\<close>) and the expiration in the background
  (\<^verbatim>\<open>expire.go\<close>).  A command returns an error, or a value with its details, and the state it leaves.
\<close>

section \<open>\<^verbatim>\<open>DEL\<close> and \<^verbatim>\<open>PDEL\<close>\<close>

fun delArgs :: "gostring list \<Rightarrow> bool \<Rightarrow> cmd_error + bool" where
  "delArgs [] erron404 = Inr erron404"
| "delArgs (a # as) erron404 =
     (if ToLower a = lit ''erron404'' then delArgs as True else Inl (ErrInvalidArgument a))"

text \<open>The collection without the object; the key goes with the last object.\<close>

definition dropIfEmpty where
  "dropIfEmpty lb key col s = (if Count col = 0 then delCol lb key s else s)"

definition cmdDEL :: "('m, 't, 'r, 'g, 'p, 'c, 'h, 'q, 'x, 'n) command" where
  "cmdDEL lb tm msg s =
     (case msg_Args msg of
        _ # key # ident # opts \<Rightarrow>
          (case delArgs opts False of
             Inl e \<Rightarrow> (Inl e, s)
           | Inr erron404 \<Rightarrow>
               let finish = (\<lambda>old updated s.
                     let d = noDetails\<lparr>d_command := lit ''del'', d_key := key, d_obj := old, d_updated := updated,
                                       d_timestamp := tm_stamp tm\<rparr>
                     in (Inr (replyOK tm msg (boolInt updated), d), disconnectObject lb key ident s))
               in (case getCol lb key s of
                     None \<Rightarrow> if erron404 then (Inl ErrKeyNotFound, s) else finish None False s
                   | Some col \<Rightarrow>
                       (case Collection_Delete (lb_tr lb) (lb_gl lb) ident col of
                          (Some old, col') \<Rightarrow> finish (Some old) True (dropIfEmpty lb key col' (putCol lb key col' s))
                        | (None, col') \<Rightarrow>
                            if erron404 then (Inl ErrIDNotFound, putCol lb key col' s)
                            else finish None False (putCol lb key col' s))))
      | _ \<Rightarrow> (Inl ErrInvalidNumberOfArguments, s))"

text \<open>The identifiers that a pattern selects.\<close>

definition pdelIDs where
  "pdelIDs lb tm msg pattern col =
     (let g = Parse pattern False;
          iter = (\<lambda>obj ids. (True, if globMatches pattern (oid obj) then ids @ [oid obj] else ids))
      in if glob_Limits g ! 0 = [] \<and> glob_Limits g ! 1 = []
         then Collection_Scan (lb_tr lb) (tm_clock tm) False None (msg_Deadline msg) iter [] col
         else ScanRange (lb_tr lb) (tm_clock tm) (glob_Limits g ! 0) (glob_Limits g ! 1) False None
                (msg_Deadline msg) iter [] col)"

definition pdelStep where
  "pdelStep lb tm key ident = (\<lambda>(col, children, s).
     case Collection_Delete (lb_tr lb) (lb_gl lb) ident col of (obj, col') \<Rightarrow>
       (col', children @ [noChild\<lparr>d_command := lit ''del'', d_updated := True, d_timestamp := tm_stamp tm,
                                   d_key := key, d_obj := obj\<rparr>],
        disconnectObject lb key ident s))"

definition cmdPDEL :: "('m, 't, 'r, 'g, 'p, 'c, 'h, 'q, 'x, 'n) command" where
  "cmdPDEL lb tm msg s =
     (case msg_Args msg of
        [_, key, pattern] \<Rightarrow>
          (let result = (case getCol lb key s of
                 None \<Rightarrow> (Inr [], s)
               | Some col \<Rightarrow>
                   (case pdelIDs lb tm msg pattern col of
                      Inl e \<Rightarrow> (Inl PanicDeadline, s)
                    | Inr sc \<Rightarrow>
                        (case fold (pdelStep lb tm key) (sc_user sc) (col, [], s) of (col', children, s') \<Rightarrow>
                           (Inr children, dropIfEmpty lb key col' (putCol lb key col' s')))))
           in case result of
                (Inl e, s') \<Rightarrow> (Inl e, s')
              | (Inr children, s') \<Rightarrow>
                  let d = noDetails\<lparr>d_command := lit ''pdel'', d_children := children, d_key := key, d_pattern := pattern,
                                    d_updated := children \<noteq> [], d_timestamp := tm_stamp tm, d_parent := True\<rparr>
                  in (Inr (replyOK tm msg (RInteger (int (length children))), d), s'))
      | _ \<Rightarrow> (Inl ErrInvalidNumberOfArguments, s))"

section \<open>\<^verbatim>\<open>DROP\<close>, \<^verbatim>\<open>RENAME\<close> and \<^verbatim>\<open>FLUSHDB\<close>\<close>

definition cmdDROPop ::
  "('m, 't, 'r, 'g, 'p, 'c, 'h, 'q, 'x, 'n) libs \<Rightarrow> gostring \<Rightarrow> ('c, 'h, 'q, 'x, 'n) Server
     \<Rightarrow> ('m, 't, 'r) Collection option \<times> ('c, 'h, 'q, 'x, 'n) Server" where
  "cmdDROPop lb key s =
     (let col = getCol lb key s; s1 = (if col \<noteq> None then delCol lb key s else s)
      in (col, disconnectCollection lb key s1))"

definition cmdDROP :: "('m, 't, 'r, 'g, 'p, 'c, 'h, 'q, 'x, 'n) command" where
  "cmdDROP lb tm msg s =
     (case msg_Args msg of
        [_, key] \<Rightarrow>
          (case cmdDROPop lb key s of (col, s') \<Rightarrow>
             let d = noDetails\<lparr>d_key := key, d_updated := col \<noteq> None, d_command := lit ''drop'',
                               d_timestamp := tm_stamp tm\<rparr>
             in (Inr (replyOK tm msg (boolInt (col \<noteq> None)), d), s'))
      | _ \<Rightarrow> (Inl ErrInvalidNumberOfArguments, s))"

definition cmdRENAME :: "('m, 't, 'r, 'g, 'p, 'c, 'h, 'q, 'x, 'n) command" where
  "cmdRENAME lb tm msg s =
     (case msg_Args msg of
        [cmd, key, newKey] \<Rightarrow>
          let nx = (ToLower cmd = lit ''renamenx'') in
          (case getCol lb key s of
             None \<Rightarrow> (Inl ErrKeyNotFound, s)
           | Some col \<Rightarrow>
               let hooks = filter (\<lambda>h. h_Key h = key \<or> h_Key h = newKey) (bt_items (lb_hk lb) byHookName (sv_hooks s)) in
               if list_ex (\<lambda>h. \<not> h_channel h) hooks then (Inl ErrKeyHasHooksSet, s)
               else if list_ex h_channel hooks then (Inl ErrKeyHasChannelsSet, s)
               else
                 let (updated, s1) = (case getCol lb newKey s of
                       None \<Rightarrow> (True, s)
                     | Some newCol \<Rightarrow> if \<not> nx then (True, delCol lb newKey s) else (False, s));
                     s2 = (if updated then putCol lb newKey col (delCol lb key s1) else s1);
                     d = noDetails\<lparr>d_command := lit ''rename'', d_key := key, d_newKey := newKey, d_updated := updated,
                                   d_timestamp := tm_stamp tm\<rparr>
                 in (Inr (replyOK tm msg (if \<not> nx then RSimpleString (lit ''OK'') else boolInt updated), d), s2))
      | _ \<Rightarrow> (Inl ErrInvalidNumberOfArguments, s))"

definition hookNames where
  "hookNames lb channel s =
     map h_Name (filter (\<lambda>h. h_channel h = channel) (bt_items (lb_hk lb) byHookName (sv_hooks s)))"

definition cmdFLUSHDB :: "('m, 't, 'r, 'g, 'p, 'c, 'h, 'q, 'x, 'n) command" where
  "cmdFLUSHDB lb tm msg s =
     (if length (msg_Args msg) \<noteq> 1 then (Inl ErrInvalidNumberOfArguments, s)
      else
        let s1 = fold (\<lambda>key s. snd (cmdDROPop lb key s)) (mp_Keys (lb_mp lb) (sv_cols s)) s;
            s2 = fold (\<lambda>name s. snd (cmdDELHOOKop lb name True s)) (hookNames lb True s1) s1;
            s3 = fold (\<lambda>name s. snd (cmdDELHOOKop lb name False s)) (hookNames lb False s2) s2;
            s4 = s3\<lparr>sv_cols := mp_Empty (lb_mp lb),
                    sv_groups := \<lparr>groupHooks = bt_Empty (lb_gr lb), groupObjects = bt_Empty (lb_gr lb)\<rparr>,
                    sv_hookExpires := bt_Empty (lb_hk lb), sv_hooks := bt_Empty (lb_hk lb),
                    sv_hooksOut := bt_Empty (lb_hk lb), sv_hookTree := hr_Empty (lb_rt lb),
                    sv_hookCross := hr_Empty (lb_rt lb)\<rparr>;
            d = noDetails\<lparr>d_command := lit ''flushdb'', d_updated := True, d_timestamp := tm_stamp tm\<rparr>
        in (Inr (if msg_OutputType msg = OJSON then RString (okElapsed tm) else RSimpleString (lit ''OK''), d), s4))"

section \<open>Expirations\<close>

text \<open>\<^verbatim>\<open>time.Duration(float64(time.Second) * x)\<close>, added to the time in nanoseconds.\<close>

definition expiresAt where
  "expiresAt lb now x = now + f_to_int64 (lb_out lb) (f_mul f_second x)"

definition cmdEXPIRE :: "('m, 't, 'r, 'g, 'p, 'c, 'h, 'q, 'x, 'n) command" where
  "cmdEXPIRE lb tm msg s =
     (case msg_Args msg of
        [_, key, ident, svalue] \<Rightarrow>
          (case ParseFloat svalue of (value, ok) \<Rightarrow>
             if \<not> ok then (Inl (ErrInvalidArgument svalue), s)
             else
               (case getCol lb key s of
                  None \<Rightarrow>
                    (case msg_OutputType msg of
                       OJSON \<Rightarrow> (Inl ErrKeyNotFound, s)
                     | ORESP \<Rightarrow> (Inr (RInteger 0, noDetails), s)
                     | _ \<Rightarrow> (Inr (RNone, noDetails), s))
                | Some col \<Rightarrow>
                    let ex = expiresAt lb (tm_now tm) value in
                    (case Collection_Get (lb_tr lb) ident col of
                       None \<Rightarrow>
                         (case msg_OutputType msg of
                            OJSON \<Rightarrow> (Inl ErrIDNotFound, s)
                          | ORESP \<Rightarrow> (Inr (RInteger 0, noDetails), s)
                          | _ \<Rightarrow> (Inr (RNone, noDetails), s))
                     | Some o' \<Rightarrow>
                         let obj = Object_New (lb_gl lb) ident (ogeom (lb_gl lb) o') ex (Object_Fields o');
                             s' = putCol lb key (snd (Collection_Set (lb_tr lb) (lb_gl lb) obj col)) s;
                             d = noDetails\<lparr>d_key := key, d_obj := Some obj, d_command := lit ''expire'', d_updated := True,
                                           d_timestamp := tm_stamp tm\<rparr>
                         in (Inr (replyOK tm msg (RInteger 1), d), s'))))
      | _ \<Rightarrow> (Inl ErrInvalidNumberOfArguments, s))"

definition cmdPERSIST :: "('m, 't, 'r, 'g, 'p, 'c, 'h, 'q, 'x, 'n) command" where
  "cmdPERSIST lb tm msg s =
     (case msg_Args msg of
        [_, key, ident] \<Rightarrow>
          let missing = (\<lambda>e. if msg_OutputType msg = ORESP then (Inr (RInteger 0, noDetails), s) else (Inl e, s)) in
          (case getCol lb key s of
             None \<Rightarrow> missing ErrKeyNotFound
           | Some col \<Rightarrow>
               (case Collection_Get (lb_tr lb) ident col of
                  None \<Rightarrow> missing ErrIDNotFound
                | Some o' \<Rightarrow>
                    let cleared = (oexpires o' \<noteq> 0);
                        obj = Object_New (lb_gl lb) ident (ogeom (lb_gl lb) o') 0 (Object_Fields o');
                        s' = (if cleared then putCol lb key (snd (Collection_Set (lb_tr lb) (lb_gl lb) obj col)) s else s);
                        d = noDetails\<lparr>d_command := lit ''persist'', d_key := key,
                                      d_obj := if cleared then Some obj else None, d_updated := cleared,
                                      d_timestamp := tm_stamp tm\<rparr>;
                        res = (case msg_OutputType msg of
                                 OJSON \<Rightarrow> RSimpleString (okElapsed tm) | ORESP \<Rightarrow> boolInt cleared | _ \<Rightarrow> RNone)
                    in (Inr (res, d), s')))
      | _ \<Rightarrow> (Inl ErrInvalidNumberOfArguments, s))"

text \<open>A message of the server to itself.\<close>

definition ownMessage :: "gostring list \<Rightarrow> Message" where
  "ownMessage args = \<lparr>msg_Args = args, msg_OutputType = ONull, msg_Deadline = None\<rparr>"

text \<open>
  The messages for the expired objects, then one \<^verbatim>\<open>DEL\<close> after the other.  What goes to the log file is
  returned; an error ends the process.
\<close>

definition expiredArgs where
  "expiredArgs lb nano s =
     foldE (\<lambda>(key, col) msgs.
       ScanExpires (lb_tr lb)
         (\<lambda>obj msgs. if nano <s oexpires obj then (False, msgs) else (True, msgs @ [[lit ''del'', key, oid obj]]))
         msgs col) (mp_Scan (lb_mp lb) (sv_cols s)) []"

definition runOwn where
  "runOwn cmd tm args = (\<lambda>(logged, s).
     case cmd tm (ownMessage args) s of
       (Inl e, s') \<Rightarrow> Inl e
     | (Inr (res, d), s') \<Rightarrow> Inr (logged @ [(args, d)], s'))"

definition backgroundExpireObjects where
  "backgroundExpireObjects lb tm nano s =
     (case expiredArgs lb nano s of
        Inl e \<Rightarrow> Inl PanicDeadline
      | Inr msgs \<Rightarrow>
          foldE (runOwn (cmdDEL lb) tm) msgs ([], s\<lparr>sv_statsExpired := sv_statsExpired s + int (length msgs)\<rparr>))"

definition backgroundExpireHooks where
  "backgroundExpireHooks lb tm now s =
     foldE (runOwn (cmdDelHook lb) tm)
       (map (\<lambda>h. [if h_channel h then lit ''delchan'' else lit ''delhook'', h_Name h])
          (takeWhile (\<lambda>h. \<not> h_expires h > now) (bt_items (lb_hk lb) byHookExpires (sv_hookExpires s)))) ([], s)"

end
