(* ===== verification/Server_Set.thy ===== *)
theory Server_Set
  imports Server_Write
begin

text \<open>
  The commands that store objects and fields: \<^verbatim>\<open>SET\<close> and \<^verbatim>\<open>FSET\<close> (\<^verbatim>\<open>internal/legacy/server/crud.go\<close>), and \<^verbatim>\<open>JSET\<close>, \<^verbatim>\<open>JDEL\<close>
  and \<^verbatim>\<open>JGET\<close> (\<^verbatim>\<open>json.go\<close>).  The packages \<^verbatim>\<open>sjson\<close> and \<^verbatim>\<open>gjson\<close>, which edit and read JSON texts, are not part of the
  sources: the record \<open>sjson_lib\<close> holds what the commands call.
\<close>

section \<open>Arguments\<close>

definition isReservedFieldName :: "gostring \<Rightarrow> bool" where
  "isReservedFieldName name \<longleftrightarrow> name = lit ''z'' \<or> name = lit ''lat'' \<or> name = lit ''lon''"

text \<open>
  The options behind \<^verbatim>\<open>RETURN\<close>: \<open>j\<close> walks over the arguments, and \<open>i\<close>, from which the bound of the loop
  is computed in every round, counts the options that were found.
\<close>

function returnLoop :: "gostring list \<Rightarrow> nat \<Rightarrow> nat \<Rightarrow> ret_opts \<Rightarrow> cmd_error + (nat \<times> ret_opts)" where
  "returnLoop args j i ro =
     (if i + 3 \<le> j \<or> length args \<le> j then Inr (i, ro)
      else
        let low = ToLower (args ! j) in
        if low = lit ''withfields'' then returnLoop args (j + 1) (i + 1) (ro\<lparr>ro_withfields := True\<rparr>)
        else if low = lit ''object'' then returnLoop args (j + 1) (i + 1) (ro\<lparr>ro_kind := KindObject\<rparr>)
        else if low = lit ''point'' then returnLoop args (j + 1) (i + 1) (ro\<lparr>ro_kind := KindPoint\<rparr>)
        else if low = lit ''bounds'' then returnLoop args (j + 1) (i + 1) (ro\<lparr>ro_kind := KindBounds\<rparr>)
        else if low = lit ''hash''
        then (if j + 1 = length args then Inl ErrInvalidNumberOfArguments
              else case parsePrecision (args ! (j + 1)) of
                     Inl e \<Rightarrow> Inl e
                   | Inr n \<Rightarrow> returnLoop args (j + 2) (i + 2) (ro\<lparr>ro_kind := KindHash, ro_precision := n\<rparr>))
        else returnLoop args (j + 1) i ro)"
  by pat_completeness auto
termination
  by (relation "measure (\<lambda>(args, j, i, ro). length args - j)") auto

declare returnLoop.simps [simp del]

lemma returnLoop_progress: "returnLoop args j i ro = Inr (i', ro') \<Longrightarrow> i \<le> i'"
proof (induction "length args - j" arbitrary: j i ro rule: less_induct)
  case less
  have IH: "returnLoop args j1 i1 ro1 = Inr (i', ro') \<Longrightarrow> j < j1 \<Longrightarrow> j < length args \<Longrightarrow> i1 \<le> i'" for j1 i1 ro1
    by (rule less.hyps) auto
  from less.prems show ?case
    by (subst (asm) returnLoop.simps)
       (auto simp: Let_def split: if_splits sum.splits dest!: IH simp del: lit_Cons)
qed

record 'g set_args =
  sa_fields :: "Field list"
  sa_ex :: "64 word"
  sa_xx :: bool
  sa_nx :: bool
  sa_ret :: bool
  sa_opts :: ret_opts
  sa_oobj :: "'g geo option"

definition noSetArgs :: "'g set_args" where
  "noSetArgs = \<lparr>sa_fields = [], sa_ex = 0, sa_xx = False, sa_nx = False, sa_ret = False, sa_opts = noRet, sa_oobj = None\<rparr>"

definition parseCoord :: "gostring \<Rightarrow> cmd_error + float64" where
  "parseCoord s = (case ParseFloat s of (x, ok) \<Rightarrow> if ok then Inr x else Inl (ErrInvalidArgument s))"

definition setPoint where
  "setPoint lb args i a =
     (if length args \<le> i + 2 then Inl ErrInvalidNumberOfArguments
      else
        let slat = args ! (i + 1); slon = args ! (i + 2);
            probe = (if i + 3 < length args then ParseFloat (args ! (i + 3)) else (0, False));
            hasZ = snd probe
        in bindE (parseCoord slat) (\<lambda>y.
           bindE (parseCoord slon) (\<lambda>x.
             Inr (if hasZ then i + 3 else i + 2,
                  a\<lparr>sa_oobj := Some (GLib (if \<not> hasZ then gx_NewPoint (lb_gx lb) x y
                                           else gx_NewPointZ (lb_gx lb) x y (fst probe)))\<rparr>))))"

definition setBounds where
  "setBounds lb args i a =
     (if length args \<le> i + 4 then Inl ErrInvalidNumberOfArguments
      else
        bindE (parseCoord (args ! (i + 1))) (\<lambda>v0.
        bindE (parseCoord (args ! (i + 2))) (\<lambda>v1.
        bindE (parseCoord (args ! (i + 3))) (\<lambda>v2.
        bindE (parseCoord (args ! (i + 4))) (\<lambda>v3.
          Inr (i + 4, a\<lparr>sa_oobj := Some (GLib (gx_NewRect (lb_gx lb)
                 \<lparr>MinX = v1, MinY = v0, MaxX = v3, MaxY = v2\<rparr>))\<rparr>))))))"

text \<open>An option with one argument.\<close>

definition withArg :: "gostring list \<Rightarrow> nat \<Rightarrow> (gostring \<Rightarrow> cmd_error + 'a) \<Rightarrow> cmd_error + (nat \<times> 'a)" where
  "withArg args i f =
     (if length args \<le> i + 1 then Inl ErrInvalidNumberOfArguments
      else bindE (f (args ! (i + 1))) (\<lambda>a. Inr (i + 1, a)))"

text \<open>One round of the loop: the option at \<open>i\<close>, with the position of the last argument it takes.\<close>

definition setArg where
  "setArg lb now args i a =
     (let arg = args ! i; low = ToLower arg in
      if low = lit ''field''
      then (if length args \<le> i + 2 then Inl ErrInvalidNumberOfArguments
            else let fkey = args ! (i + 1); fval = args ! (i + 2) in
                 if isReservedFieldName fkey then Inl (ErrInvalidArgument fkey)
                 else Inr (i + 2, a\<lparr>sa_fields := sa_fields a @ [Make (lb_gj lb) fkey fval]\<rparr>))
      else if low = lit ''ex''
      then withArg args i (\<lambda>exval. bindE (parseCoord exval) (\<lambda>x. Inr (a\<lparr>sa_ex := expiresAt lb now x\<rparr>)))
      else if low = lit ''nx'' then (if sa_xx a then Inl (ErrInvalidArgument arg) else Inr (i, a\<lparr>sa_nx := True\<rparr>))
      else if low = lit ''xx'' then (if sa_nx a then Inl (ErrInvalidArgument arg) else Inr (i, a\<lparr>sa_xx := True\<rparr>))
      else if low = lit ''return''
      then (if sa_ret a then Inl (ErrInvalidArgument arg)
            else bindE (returnLoop args i i (sa_opts a)) (\<lambda>(i', ro). Inr (i', a\<lparr>sa_ret := True, sa_opts := ro\<rparr>)))
      else if low = lit ''string'' then withArg args i (\<lambda>str. Inr (a\<lparr>sa_oobj := Some (GString str)\<rparr>))
      else if low = lit ''point'' then setPoint lb args i a
      else if low = lit ''bounds'' then setBounds lb args i a
      else if low = lit ''hash''
      then withArg args i (\<lambda>shash. case gh_Decode (lb_gx lb) shash of (lat, lon) \<Rightarrow>
             Inr (a\<lparr>sa_oobj := Some (GLib (gx_NewPoint (lb_gx lb) lon lat))\<rparr>))
      else if low = lit ''object''
      then withArg args i (\<lambda>json. case gx_Parse (lb_gx lb) json of
             Inl err \<Rightarrow> Inl (ErrGeoJSON err) | Inr g \<Rightarrow> Inr (a\<lparr>sa_oobj := Some (GLib g)\<rparr>))
      else Inl (ErrInvalidArgument arg))"

lemma setArg_progress: "setArg lb now args i a = Inr (i', a') \<Longrightarrow> i \<le> i'"
  by (auto simp: setArg_def withArg_def setPoint_def setBounds_def Let_def go_simps
      split: if_splits sum.splits prod.splits dest: returnLoop_progress simp del: lit_Cons)

function setArgs where
  "setArgs lb now args i a =
     (if length args \<le> i then Inr a
      else case setArg lb now args i a of Inl e \<Rightarrow> Inl e | Inr (i', a') \<Rightarrow> setArgs lb now args (i' + 1) a')"
  by pat_completeness auto
termination
  by (relation "measure (\<lambda>(lb, now, args, i, a). length args - i)") (auto dest!: setArg_progress)

declare setArgs.simps [simp del]

section \<open>\<^verbatim>\<open>SET\<close>\<close>

definition applyFields where
  "applyFields lb fl fs tab = foldE (\<lambda>f (fl, tab). List_Set (lb_hm lb) tab fl f) fs (fl, tab)"

definition outOfMemory where
  "outOfMemory s \<longleftrightarrow> 0 < sv_maxMemory s \<and> sv_outOfMemory s"

definition setNada :: "Message \<Rightarrow> bool \<Rightarrow> cmd_error + (resp_value \<times> 'o details)" where
  "setNada msg nx =
     (if msg_OutputType msg = OJSON then Inl (if nx then ErrIDAlreadyExists else ErrIDNotFound)
      else Inr (RNull, noDetails))"

definition setInto where
  "setInto lb tm msg key ident a oobj col s =
     (if (case Collection_Get (lb_tr lb) ident col of None \<Rightarrow> sa_xx a | Some _ \<Rightarrow> sa_nx a)
      then (setNada msg (sa_nx a), s)
      else
        let flist = (case Collection_Get (lb_tr lb) ident col of Some old \<Rightarrow> Object_Fields old | None \<Rightarrow> None) in
        (case applyFields lb flist (sa_fields a) (sv_tab s) of
           Inl e \<Rightarrow> (Inl (PanicField e), s)
         | Inr (fl, tab) \<Rightarrow>
             let obj = Object_New (lb_gl lb) ident oobj (sa_ex a) fl;
                 (old, col') = Collection_Set (lb_tr lb) (lb_gl lb) obj col;
                 s' = putCol lb key col' (s\<lparr>sv_tab := tab\<rparr>);
                 d = noDetails\<lparr>d_command := lit ''set'', d_key := key, d_obj := Some obj, d_old := old,
                               d_updated := True, d_timestamp := tm_stamp tm\<rparr>;
                 ro = sa_opts a
             in (bindE (if sa_ret a
                        then buildObjectResponse lb tm (strs tab) msg obj (ro_kind ro) (ro_precision ro) (ro_withfields ro)
                        else Inr (replyOK tm msg (RSimpleString (lit ''OK'')))) (\<lambda>res. Inr (res, d)), s')))"

definition cmdSET :: "('m, 't, 'r, 'g, 'p, 'c, 'h, 'q, 'x, 'n) command" where
  "cmdSET lb tm msg s =
     (if outOfMemory s then (Inl ErrOOM, s)
      else case msg_Args msg of
        _ # key # ident # _ \<Rightarrow>
          (case setArgs lb (tm_now tm) (msg_Args msg) 3 noSetArgs of
             Inl e \<Rightarrow> (Inl e, s)
           | Inr a \<Rightarrow>
               (case sa_oobj a of
                  None \<Rightarrow> (Inl ErrInvalidNumberOfArguments, s)
                | Some oobj \<Rightarrow>
                    (case getCol lb key s of
                       None \<Rightarrow>
                         if sa_xx a then (setNada msg (sa_nx a), s)
                         else setInto lb tm msg key ident a oobj (Collection_New (lb_tr lb))
                                (putCol lb key (Collection_New (lb_tr lb)) s)
                     | Some col \<Rightarrow> setInto lb tm msg key ident a oobj col s)))
      | _ \<Rightarrow> (Inl ErrInvalidNumberOfArguments, s))"

section \<open>\<^verbatim>\<open>FSET\<close>\<close>

record fset_args =
  fa_xx :: bool
  fa_ret :: bool
  fa_opts :: ret_opts
  fa_fields :: "Field list"

definition noFsetArgs :: fset_args where
  "noFsetArgs = \<lparr>fa_xx = False, fa_ret = False, fa_opts = noRet, fa_fields = []\<rparr>"

definition fsetArg :: "gjson_lib \<Rightarrow> gostring list \<Rightarrow> nat \<Rightarrow> fset_args \<Rightarrow> cmd_error + (nat \<times> fset_args)" where
  "fsetArg gj args i a =
     (let arg = args ! i; low = ToLower arg in
      if low = lit ''xx'' then Inr (i, a\<lparr>fa_xx := True\<rparr>)
      else if low = lit ''return''
      then (if fa_ret a then Inl (ErrInvalidArgument arg)
            else bindE (returnLoop args i i (fa_opts a)) (\<lambda>(i', ro). Inr (i', a\<lparr>fa_ret := True, fa_opts := ro\<rparr>)))
      else if i + 1 = length args then Inl ErrInvalidNumberOfArguments
      else if isReservedFieldName arg then Inl (ErrInvalidArgument arg)
      else Inr (i + 1, a\<lparr>fa_fields := fa_fields a @ [Make gj arg (args ! (i + 1))]\<rparr>))"

lemma fsetArg_progress: "fsetArg gj args i a = Inr (i', a') \<Longrightarrow> i \<le> i'"
  by (auto simp: fsetArg_def Let_def go_simps split: if_splits dest: returnLoop_progress simp del: lit_Cons)

function fsetArgs :: "gjson_lib \<Rightarrow> gostring list \<Rightarrow> nat \<Rightarrow> fset_args \<Rightarrow> cmd_error + fset_args" where
  "fsetArgs gj args i a =
     (if length args \<le> i then Inr a
      else case fsetArg gj args i a of Inl e \<Rightarrow> Inl e | Inr (i', a') \<Rightarrow> fsetArgs gj args (i' + 1) a')"
  by pat_completeness auto
termination
  by (relation "measure (\<lambda>(gj, args, i, a). length args - i)") (auto dest!: fsetArg_progress)

declare fsetArgs.simps [simp del]

text \<open>A field is only set where its value differs from the one that a \<open>Get\<close> of its name returns.\<close>

definition updateField where
  "updateField lb f = (\<lambda>(ofields, tab, n :: int).
     bindE (List_Get (lb_gj lb) (strs tab) ofields (fd_name f)) (\<lambda>prev.
       if \<not> Equals (fd_value prev) (fd_value f)
       then bindE (List_Set (lb_hm lb) tab ofields f) (\<lambda>(fl, tab'). Inr (fl, tab', n + 1))
       else Inr (ofields, tab, n)))"

definition cmdFSET :: "('m, 't, 'r, 'g, 'p, 'c, 'h, 'q, 'x, 'n) command" where
  "cmdFSET lb tm msg s =
     (if outOfMemory s then (Inl ErrOOM, s)
      else if length (msg_Args msg) < 5 then (Inl ErrInvalidNumberOfArguments, s)
      else
        let key = msg_Args msg ! 1; ident = msg_Args msg ! 2 in
        case fsetArgs (lb_gj lb) (msg_Args msg) 3 noFsetArgs of
          Inl e \<Rightarrow> (Inl e, s)
        | Inr a \<Rightarrow>
            (case getCol lb key s of
               None \<Rightarrow> (Inl ErrKeyNotFound, s)
             | Some col \<Rightarrow>
                 (case Collection_Get (lb_tr lb) ident col of
                    None \<Rightarrow>
                      if \<not> fa_xx a then (Inl ErrIDNotFound, s)
                      else
                        let ro = fa_opts a
                        in (bindE (if fa_ret a then nilObjectResponse msg (ro_kind ro) (ro_withfields ro)
                                   else Inr (replyOK tm msg (RInteger 0))) (\<lambda>res. Inr (res, noDetails)), s)
                  | Some o' \<Rightarrow>
                      (case foldE (updateField lb) (fa_fields a) (Object_Fields o', sv_tab s, 0) of
                         Inl e \<Rightarrow> (Inl (PanicField e), s)
                       | Inr (ofields, tab, n) \<Rightarrow>
                           let obj = Object_New (lb_gl lb) ident (ogeom (lb_gl lb) o') (oexpires o') ofields;
                               s' = putCol lb key (snd (Collection_Set (lb_tr lb) (lb_gl lb) obj col)) (s\<lparr>sv_tab := tab\<rparr>);
                               d = noDetails\<lparr>d_command := lit ''fset'', d_key := key, d_obj := Some obj,
                                             d_timestamp := tm_stamp tm, d_updated := n > 0\<rparr>;
                               ro = fa_opts a
                           in (bindE (if fa_ret a
                                      then buildObjectResponse lb tm (strs tab) msg obj (ro_kind ro) (ro_precision ro)
                                             (ro_withfields ro)
                                      else Inr (replyOK tm msg (RInteger n))) (\<lambda>res. Inr (res, d)), s')))))"

section \<open>\<^verbatim>\<open>JGET\<close>, \<^verbatim>\<open>JSET\<close> and \<^verbatim>\<open>JDEL\<close>\<close>

text \<open>A result of \<^verbatim>\<open>gjson\<close>: its raw text and its string, if it exists.\<close>

record sjson_lib =
  sj_Get :: "gostring \<Rightarrow> gostring \<Rightarrow> (gostring \<times> gostring) option"
  sj_Parse :: "gostring \<Rightarrow> (gostring \<times> gostring) option"
  sj_SetRaw :: "gostring \<Rightarrow> gostring \<Rightarrow> gostring \<Rightarrow> gostring + gostring"
  sj_Set :: "gostring \<Rightarrow> gostring \<Rightarrow> gostring \<Rightarrow> gostring + gostring"
  sj_Delete :: "gostring \<Rightarrow> gostring \<Rightarrow> gostring + gostring"

definition cmdJget :: "sjson_lib \<Rightarrow> ('m, 't, 'r, 'g, 'p, 'c, 'h, 'q, 'x, 'n) query" where
  "cmdJget sj lb tm msg s =
     (let args = msg_Args msg in
      if length args < 3 \<or> length args > 5 then Inl ErrInvalidNumberOfArguments
      else if length args = 5 \<and> ToLower (args ! 4) \<noteq> lit ''raw'' then Inl (ErrInvalidArgument (args ! 4))
      else
        let key = args ! 1; ident = args ! 2; doget = (length args > 3); raw = (length args = 5) in
        (case getCol lb key s of
           None \<Rightarrow> if msg_OutputType msg = ORESP then Inr RNull else Inl ErrKeyNotFound
         | Some col \<Rightarrow>
             (case Collection_Get (lb_tr lb) ident col of
                None \<Rightarrow> if msg_OutputType msg = ORESP then Inr RNull else Inl ErrIDNotFound
              | Some obj \<Rightarrow>
                  let text = geo_String (lb_gl lb) (ogeom (lb_gl lb) obj);
                      res = (if doget then sj_Get sj text (args ! 3) else sj_Parse sj text);
                      val = (case res of None \<Rightarrow> [] | Some (r, str) \<Rightarrow> if raw then r else str)
                  in (case msg_OutputType msg of
                        OJSON \<Rightarrow>
                          Inr (RString (lit ''{\"ok\":true'' @ (if res \<noteq> None then lit '',\"value\":'' @ jsonString val else [])
                                        @ lit '',\"elapsed\":\"'' @ tm_elapsed tm @ lit ''\"}''))
                      | ORESP \<Rightarrow> if res = None then Inr RNull else Inr (RString val)
                      | _ \<Rightarrow> Inr NOMessage))))"

text \<open>What \<^verbatim>\<open>JSET\<close> and \<^verbatim>\<open>JDEL\<close> know of the object: whether it is spatial, its text and its fields.\<close>

definition jsonOf where
  "jsonOf lb ident col =
     (case Collection_Get (lb_tr lb) ident col of
        None \<Rightarrow> (False, [], None)
      | Some obj \<Rightarrow>
          (geo_Spatial (lb_gl lb) (ogeom (lb_gl lb) obj), geo_String (lb_gl lb) (ogeom (lb_gl lb) obj), Object_Fields obj))"

definition jsonStore ::
  "('m, 't, 'r, 'g, 'p, 'c, 'h, 'q, 'x, 'n) libs \<Rightarrow> Times \<Rightarrow> Message \<Rightarrow> gostring \<Rightarrow> gostring \<Rightarrow> gostring \<Rightarrow> List
     \<Rightarrow> ('m, 't, 'r) Collection \<Rightarrow> resp_value \<Rightarrow> ('c, 'h, 'q, 'x, 'n) Server
     \<Rightarrow> (cmd_error + (resp_value \<times> ('g, 'p) Object details)) \<times> ('c, 'h, 'q, 'x, 'n) Server" where
  "jsonStore lb tm msg key ident json fl col res s =
     (let obj = Object_New (lb_gl lb) ident (GString json) 0 fl;
          s' = putCol lb key (snd (Collection_Set (lb_tr lb) (lb_gl lb) obj col)) s;
          d = noDetails\<lparr>d_key := key, d_obj := Some obj, d_timestamp := tm_stamp tm, d_updated := True\<rparr>
      in (case msg_OutputType msg of
            OJSON \<Rightarrow> (Inr (RString (okElapsed tm), d), s') | ORESP \<Rightarrow> (Inr (res, d), s') | _ \<Rightarrow> (Inr (NOMessage, d), s')))"

definition jsonAsSET where
  "jsonAsSET lb tm msg key ident json s =
     cmdSET lb tm (msg\<lparr>msg_Args := [lit ''SET'', key, ident, lit ''OBJECT'', json]\<rparr>) s"

text \<open>Whether the value of \<^verbatim>\<open>JSET\<close> is stored as it is, rather than as a string.\<close>

definition jsetRaw :: "gostring list \<Rightarrow> cmd_error + bool" where
  "jsetRaw args =
     (let opt = ToLower (args ! 5); val = args ! 4 in
      if length args \<noteq> 5 \<and> length args \<noteq> 6 then Inl ErrInvalidNumberOfArguments
      else if length args = 6 \<and> opt \<noteq> lit ''raw'' \<and> opt \<noteq> lit ''str'' then Inl (ErrInvalidArgument (args ! 5))
      else
        let raw = (length args = 6 \<and> opt = lit ''raw''); str = (length args = 6 \<and> opt = lit ''str'') in
        Inr (if \<not> str \<and> \<not> raw
             then val = lit ''true'' \<or> val = lit ''false'' \<or> val = lit ''null'' \<or> isJSONNumber val else raw))"

definition cmdJset :: "sjson_lib \<Rightarrow> ('m, 't, 'r, 'g, 'p, 'c, 'h, 'q, 'x, 'n) command" where
  "cmdJset sj lb tm msg s =
     (let args = msg_Args msg in
      case jsetRaw args of
        Inl e \<Rightarrow> (Inl e, s)
      | Inr raw \<Rightarrow>
          let key = args ! 1; ident = args ! 2; path = args ! 3; val = args ! 4;
              found = getCol lb key s;
              col = (case found of Some c \<Rightarrow> c | None \<Rightarrow> Collection_New (lb_tr lb));
              (geoobj, json, fl) = jsonOf lb ident col
          in (case (if raw then sj_SetRaw sj json path val else sj_Set sj json path val) of
                Inl err \<Rightarrow> (Inl (ErrGeoJSON err), s)
              | Inr json' \<Rightarrow>
                  if geoobj then jsonAsSET lb tm msg key ident json' s
                  else jsonStore lb tm msg key ident json' fl col (RSimpleString (lit ''OK''))
                         (if found = None then putCol lb key col s else s)))"

definition cmdJdel :: "sjson_lib \<Rightarrow> ('m, 't, 'r, 'g, 'p, 'c, 'h, 'q, 'x, 'n) command" where
  "cmdJdel sj lb tm msg s =
     (case msg_Args msg of
        [_, key, ident, path] \<Rightarrow>
          (case getCol lb key s of
             None \<Rightarrow> if msg_OutputType msg = ORESP then (Inr (RInteger 0, noDetails), s) else (Inl ErrKeyNotFound, s)
           | Some col \<Rightarrow>
               (case jsonOf lb ident col of (geoobj, json, fl) \<Rightarrow>
                case sj_Delete sj json path of
                  Inl err \<Rightarrow> (Inl (ErrGeoJSON err), s)
                | Inr njson \<Rightarrow>
                    if njson = json
                    then (case msg_OutputType msg of
                            OJSON \<Rightarrow> (Inl ErrPathNotFound, s)
                          | ORESP \<Rightarrow> (Inr (RInteger 0, noDetails), s)
                          | _ \<Rightarrow> (Inr (NOMessage, noDetails), s))
                    else if geoobj then jsonAsSET lb tm msg key ident njson s
                    else jsonStore lb tm msg key ident njson fl col (RInteger 1) s))
      | _ \<Rightarrow> (Inl ErrInvalidNumberOfArguments, s))"

end
