(* ===== verification/Server_Invariant.thy ===== *)
theory Server_Invariant
  imports Server_Set Collection_Properties
begin

text \<open>
  The invariant of the server: every key has a collection that is not empty and whose indexes are
  exact, and the connections of the hooks agree.  The database that the server implements is a map
  from keys and identifiers to objects, read by \<open>lookup\<close>.
\<close>

section \<open>What the libraries promise\<close>

definition map_laws :: "('c, 'v) map_lib \<Rightarrow> bool" where
  "map_laws mp \<longleftrightarrow>
     (\<forall>c. finite (dom (mp_Get mp c))) \<and>
     mp_Get mp (mp_Empty mp) = Map.empty \<and>
     (\<forall>c k v. mp_Get mp (mp_Set mp c k v) = (mp_Get mp c)(k \<mapsto> v)) \<and>
     (\<forall>c k. mp_Get mp (mp_Delete mp c k) = (mp_Get mp c)(k := None)) \<and>
     (\<forall>c. mp_Keys mp c = sorted_list_of_set (dom (mp_Get mp c))) \<and>
     (\<forall>c. mp_Scan mp c = map (\<lambda>k. (k, the (mp_Get mp c k))) (mp_Keys mp c)) \<and>
     (\<forall>c p. mp_Ascend mp c p = filter (\<lambda>e. p \<le> fst e) (mp_Scan mp c))"

lemma map_lawsD:
  assumes "map_laws mp"
  shows "finite (dom (mp_Get mp c))" and "mp_Get mp (mp_Empty mp) = Map.empty"
    and "mp_Get mp (mp_Set mp c k v) = (mp_Get mp c)(k \<mapsto> v)"
    and "mp_Get mp (mp_Delete mp c k) = (mp_Get mp c)(k := None)"
    and "mp_Keys mp c = sorted_list_of_set (dom (mp_Get mp c))"
    and "mp_Scan mp c = map (\<lambda>k. (k, the (mp_Get mp c k))) (mp_Keys mp c)"
  using assms unfolding map_laws_def by simp_all

text \<open>A simple point keeps its coordinates.\<close>

definition geo_laws :: "('g, 'p) geojson_lib \<Rightarrow> bool" where
  "geo_laws gl \<longleftrightarrow> (\<forall>p. gl_type gl (gl_SimplePoint gl p) = TSimplePoint \<and> gl_Base gl (gl_SimplePoint gl p) = p)"

definition lib_laws where
  "lib_laws lb items ok \<longleftrightarrow>
     tree_laws (lb_tr lb) items \<and> map_laws (lb_mp lb) \<and> group_laws (lb_gr lb) ok \<and> geo_laws (lb_gl lb)"

section \<open>Objects\<close>

definition obj_made :: "('g, 'p) geojson_lib \<Rightarrow> ('g, 'p) Object \<Rightarrow> bool" where
  "obj_made gl x \<longleftrightarrow> (\<exists>ident geo ex fl. x = Object_New gl ident geo ex fl)"

text \<open>A geometry that the spatial index can find again: no bound of its rectangle is NaN.\<close>

definition geo_fine :: "('g, 'p) geojson_lib \<Rightarrow> 'g geo \<Rightarrow> bool" where
  "geo_fine gl geo \<longleftrightarrow>
     (let g = kept_geo gl geo in
      geo_Spatial gl g \<and> \<not> geo_Empty gl g \<longrightarrow> rect_ordered (rtreeRect (geo_Rect gl g)))"

lemma geo_fine_New:
  "(indexed gl (Object_New gl ident geo ex fl) \<longrightarrow> rect_ordered (fst (rtreeItem gl (Object_New gl ident geo ex fl))))
   \<longleftrightarrow> geo_fine gl geo"
  by (simp add: indexed_def geo_fine_def Object_IsSpatial_def Object_New_geo rtreeItem_def Object_Rect_def Let_def)

lemma geo_fine_string [simp]: "geo_fine gl (GString s)"
  by (simp add: geo_fine_def kept_geo_def)

lemma kept_geo_idem: "geo_laws gl \<Longrightarrow> kept_geo gl (kept_geo gl geo) = kept_geo gl geo"
  by (auto simp: geo_laws_def kept_geo_def split: geo.splits)

lemma ogeom_kept: "geo_laws gl \<Longrightarrow> obj_made gl x \<Longrightarrow> kept_geo gl (ogeom gl x) = ogeom gl x"
  by (auto simp: obj_made_def Object_New_geo kept_geo_idem)

section \<open>Collections\<close>

definition col_ok where
  "col_ok lb items col \<longleftrightarrow>
     coll_ok (lb_tr lb) items (lb_gl lb) col \<and> (\<forall>x \<in> ran (bm_Get (lb_tr lb) (co_objs col)). obj_made (lb_gl lb) x)"

abbreviation stored where
  "stored lb col \<equiv> bm_Get (lb_tr lb) (co_objs col)"

lemma col_ok_New: "lib_laws lb items ok \<Longrightarrow> col_ok lb items (Collection_New (lb_tr lb))"
  using coll_ok_New by (fastforce simp: col_ok_def lib_laws_def bm_laws Collection_New_def [THEN arg_cong [where f = co_objs]])

lemma stored_New: "lib_laws lb items ok \<Longrightarrow> stored lb (Collection_New (lb_tr lb)) = Map.empty"
  by (auto simp: lib_laws_def Collection_New_def bm_laws)

lemma Count_zero: "lib_laws lb items ok \<Longrightarrow> col_ok lb items col \<Longrightarrow> Count col = 0 \<longleftrightarrow> stored lb col = Map.empty"
  using coll_ok_Count bm_laws(1) by (fastforce simp: lib_laws_def col_ok_def)

lemma Count_pos: "lib_laws lb items ok \<Longrightarrow> col_ok lb items col \<Longrightarrow> 0 < Count col \<longleftrightarrow> stored lb col \<noteq> Map.empty"
  using Count_zero [of lb items ok col] coll_ok_Count [of "lb_tr lb" items "lb_gl lb" col]
  by (force simp: lib_laws_def col_ok_def)

lemma col_ok_Delete:
  assumes "lib_laws lb items ok" and "col_ok lb items col"
    and "Collection_Delete (lb_tr lb) (lb_gl lb) i col = (old, col')"
  shows "old = stored lb col i" and "stored lb col' = (stored lb col)(i := None)" and "col_ok lb items col'"
proof -
  have laws: "tree_laws (lb_tr lb) items" "coll_ok (lb_tr lb) items (lb_gl lb) col"
    using assms(1,2) by (simp_all add: lib_laws_def col_ok_def)
  note del = coll_ok_Delete [OF laws, of i, unfolded assms(3) fst_conv snd_conv]
  show "old = stored lb col i" "stored lb col' = (stored lb col)(i := None)" by (fact del)+
  then show "col_ok lb items col'"
    using del(2) assms(2) by (auto simp: col_ok_def ran_def split: if_splits)
qed

lemma col_ok_Set:
  assumes "lib_laws lb items ok" and "col_ok lb items col" and "geo_fine (lb_gl lb) geo"
    and "Collection_Set (lb_tr lb) (lb_gl lb) (Object_New (lb_gl lb) i geo ex fl) col = (old, col')"
  shows "old = stored lb col i" and "stored lb col' = (stored lb col)(i \<mapsto> Object_New (lb_gl lb) i geo ex fl)"
    and "col_ok lb items col'" and "0 < Count col'"
proof -
  let ?x = "Object_New (lb_gl lb) i geo ex fl"
  have laws: "tree_laws (lb_tr lb) items" "coll_ok (lb_tr lb) items (lb_gl lb) col"
    using assms(1,2) by (simp_all add: lib_laws_def col_ok_def)
  note set = coll_ok_Set [OF laws, of ?x, unfolded geo_fine_New, OF assms(3), unfolded assms(4) fst_conv snd_conv]
  show "old = stored lb col i" and st: "stored lb col' = (stored lb col)(i \<mapsto> ?x)"
    using set by simp_all
  moreover have "obj_made (lb_gl lb) ?x" by (auto simp: obj_made_def)
  ultimately show ok: "col_ok lb items col'"
    using set(2) assms(2) by (auto simp: col_ok_def ran_def split: if_splits)
  show "0 < Count col'" unfolding Count_pos [OF assms(1) ok] st by (simp add: fun_eq_iff) blast
qed

lemma stored_geo_fine:
  assumes "lib_laws lb items ok" and "col_ok lb items col" and "stored lb col i = Some x"
  shows "geo_fine (lb_gl lb) (ogeom (lb_gl lb) x)"
proof -
  have x: "x \<in> ran (stored lb col)" using assms(3) by (auto simp: ran_def)
  then have "obj_made (lb_gl lb) x" "indexed (lb_gl lb) x \<longrightarrow> rect_ordered (fst (rtreeItem (lb_gl lb) x))"
    using assms(2) by (auto simp: col_ok_def coll_ok_def)
  moreover from this obtain ident geo ex fl where "x = Object_New (lb_gl lb) ident geo ex fl" by (auto simp: obj_made_def)
  ultimately show ?thesis
    using assms(1) ogeom_kept [of "lb_gl lb" x]
    by (simp add: geo_fine_New) (simp add: geo_fine_def Object_New_geo kept_geo_idem lib_laws_def)
qed

section \<open>The server\<close>

definition server_ok where
  "server_ok lb items ok s \<longleftrightarrow>
     (\<forall>k col. getCol lb k s = Some col \<longrightarrow> col_ok lb items col \<and> 0 < Count col) \<and>
     groups_ok (lb_gr lb) ok (sv_groups s)"

definition lookup where
  "lookup lb s k = (case getCol lb k s of None \<Rightarrow> Map.empty | Some col \<Rightarrow> stored lb col)"

lemma server_okD:
  "server_ok lb items ok s \<Longrightarrow> getCol lb k s = Some col \<Longrightarrow> col_ok lb items col"
  "server_ok lb items ok s \<Longrightarrow> getCol lb k s = Some col \<Longrightarrow> 0 < Count col"
  "server_ok lb items ok s \<Longrightarrow> groups_ok (lb_gr lb) ok (sv_groups s)"
  by (simp_all add: server_ok_def)

text \<open>A key exists exactly if it has an object.\<close>

lemma getCol_iff:
  "lib_laws lb items ok \<Longrightarrow> server_ok lb items ok s \<Longrightarrow> getCol lb k s = None \<longleftrightarrow> lookup lb s k = Map.empty"
  using Count_pos [of lb items ok] by (auto simp: lookup_def server_ok_def split: option.splits)

lemma getCol_simps:
  assumes "lib_laws lb items ok"
  shows "getCol lb k (putCol lb k' col s) = (if k = k' then Some col else getCol lb k s)"
    and "getCol lb k (delCol lb k' s) = (if k = k' then None else getCol lb k s)"
  using assms by (simp_all add: lib_laws_def getCol_def putCol_def delCol_def map_lawsD)

lemma getCol_frame [simp]:
  "getCol lb k (disconnectObject lb key ident s) = getCol lb k s"
  "getCol lb k (disconnectCollection lb key s) = getCol lb k s"
  "getCol lb k (s\<lparr>sv_tab := tab\<rparr>) = getCol lb k s"
  "getCol lb k (s\<lparr>sv_statsExpired := n\<rparr>) = getCol lb k s"
  "sv_groups (putCol lb key col s) = sv_groups s" "sv_groups (delCol lb key s) = sv_groups s"
  "sv_groups (dropIfEmpty lb key col s) = sv_groups s"
  by (simp_all add: getCol_def disconnectObject_def disconnectCollection_def putCol_def delCol_def dropIfEmpty_def)

lemma lookup_frame [simp]:
  "lookup lb (disconnectObject lb key ident s) = lookup lb s"
  "lookup lb (disconnectCollection lb key s) = lookup lb s"
  "lookup lb (s\<lparr>sv_tab := tab\<rparr>) = lookup lb s"
  "lookup lb (s\<lparr>sv_statsExpired := n\<rparr>) = lookup lb s"
  by (simp_all add: fun_eq_iff lookup_def)

lemma server_ok_frame:
  "server_ok lb items ok s \<Longrightarrow> server_ok lb items ok (s\<lparr>sv_tab := tab\<rparr>)"
  "server_ok lb items ok s \<Longrightarrow> server_ok lb items ok (s\<lparr>sv_statsExpired := n\<rparr>)"
  by (simp_all add: server_ok_def)

lemma server_ok_disconnect:
  assumes "lib_laws lb items ok" and "server_ok lb items ok s"
  shows "server_ok lb items ok (disconnectObject lb key ident s)"
    and "server_ok lb items ok (disconnectCollection lb key s)"
  using assms groupDisconnectObject_exact [of "lb_gr lb" ok "sv_groups s" key ident]
    groupDisconnectCollection_exact [of "lb_gr lb" ok "sv_groups s" key]
  by (simp_all add: server_ok_def lib_laws_def) (simp_all add: disconnectObject_def disconnectCollection_def)

lemma server_ok_delCol:
  assumes "lib_laws lb items ok" and "server_ok lb items ok s"
  shows "server_ok lb items ok (delCol lb key s)" and "lookup lb (delCol lb key s) = (lookup lb s)(key := Map.empty)"
  using assms by (auto simp: server_ok_def getCol_simps lookup_def fun_eq_iff)

lemma server_ok_putCol:
  assumes "lib_laws lb items ok" and "server_ok lb items ok s" and "col_ok lb items col" and "0 < Count col"
  shows "server_ok lb items ok (putCol lb key col s)"
  using assms by (auto simp: server_ok_def getCol_simps)

lemma lookup_putCol: "lib_laws lb items ok \<Longrightarrow> lookup lb (putCol lb key col s) = (lookup lb s)(key := stored lb col)"
  by (auto simp: getCol_simps lookup_def fun_eq_iff)

lemma server_ok_dropIfEmpty:
  assumes "lib_laws lb items ok" and "server_ok lb items ok s" and "col_ok lb items col"
  shows "server_ok lb items ok (dropIfEmpty lb key col (putCol lb key col s))"
    and "lookup lb (dropIfEmpty lb key col (putCol lb key col s)) = (lookup lb s)(key := stored lb col)"
proof -
  have pos: "Count col \<noteq> 0 \<Longrightarrow> 0 < Count col" using Count_zero [OF assms(1,3)] Count_pos [OF assms(1,3)] by simp
  show "server_ok lb items ok (dropIfEmpty lb key col (putCol lb key col s))"
    using assms pos by (auto simp: server_ok_def dropIfEmpty_def getCol_simps)
  show "lookup lb (dropIfEmpty lb key col (putCol lb key col s)) = (lookup lb s)(key := stored lb col)"
    using assms(1) Count_zero [OF assms(1,3)]
    by (auto simp: dropIfEmpty_def lookup_def getCol_simps fun_eq_iff)
qed

end
