(* ===== verification/Server_Refine.thy ===== *)
theory Server_Refine
  imports Server_Invariant Glob_Match
begin

text \<open>
  What each command does to the database, and that it keeps the invariant of the server.
\<close>

section \<open>\<^verbatim>\<open>DEL\<close>\<close>

lemma cmdDEL_effect:
  assumes "lib_laws lb items ok" and "server_ok lb items ok s" and "cmdDEL lb tm msg s = (r, s')"
  shows "server_ok lb items ok s'"
    and "\<And>e. r = Inl e \<Longrightarrow> lookup lb s' = lookup lb s"
    and "\<And>v d. r = Inr (v, d) \<Longrightarrow>
      lookup lb s' = (lookup lb s)(msg_Args msg ! 1 := (lookup lb s (msg_Args msg ! 1))(msg_Args msg ! 2 := None))
      \<and> d_obj d = lookup lb s (msg_Args msg ! 1) (msg_Args msg ! 2)
      \<and> d_updated d = (lookup lb s (msg_Args msg ! 1) (msg_Args msg ! 2) \<noteq> None)
      \<and> v = replyOK tm msg (boolInt (lookup lb s (msg_Args msg ! 1) (msg_Args msg ! 2) \<noteq> None))"
proof -
  have all: "server_ok lb items ok s' \<and> (case r of Inl e \<Rightarrow> lookup lb s' = lookup lb s
      | Inr (v, d) \<Rightarrow> lookup lb s' = (lookup lb s)(msg_Args msg ! 1 := (lookup lb s (msg_Args msg ! 1))(msg_Args msg ! 2 := None))
      \<and> d_obj d = lookup lb s (msg_Args msg ! 1) (msg_Args msg ! 2)
      \<and> d_updated d = (lookup lb s (msg_Args msg ! 1) (msg_Args msg ! 2) \<noteq> None)
      \<and> v = replyOK tm msg (boolInt (lookup lb s (msg_Args msg ! 1) (msg_Args msg ! 2) \<noteq> None)))"
  proof (cases "\<exists>c key ident opts. msg_Args msg = c # key # ident # opts")
    case False
    with assms(2,3) show ?thesis by (auto simp: cmdDEL_def split: list.splits)
  next
    case True
    then obtain c key ident opts where args: "msg_Args msg = c # key # ident # opts" by blast
    show ?thesis
    proof (cases "delArgs opts False")
      case (Inl e)
      with assms(2,3) args show ?thesis by (auto simp: cmdDEL_def)
    next
      case (Inr erron404)
      note disc = server_ok_disconnect(1) [OF assms(1)]
      show ?thesis
      proof (cases "getCol lb key s")
        case None
        then have "lookup lb s key = Map.empty" by (simp add: lookup_def)
        with None Inr assms(2,3) args disc [OF assms(2)] show ?thesis
          by (auto simp: cmdDEL_def noDetails_def Let_def fun_upd_idem split: if_splits)
      next
        case (Some col)
        then have st: "lookup lb s key = stored lb col" by (simp add: lookup_def)
        obtain old col' where del: "Collection_Delete (lb_tr lb) (lb_gl lb) ident col = (old, col')" by fastforce
        note d = col_ok_Delete [OF assms(1) server_okD(1) [OF assms(2) Some] del]
        show ?thesis
        proof (cases old)
          case old: None
          then have "stored lb col' = stored lb col" using d(1,2) by auto
          moreover from this have "0 < Count col'"
            using Count_pos [OF assms(1) d(3)] Count_pos [OF assms(1) server_okD(1) [OF assms(2) Some]]
              server_okD(2) [OF assms(2) Some] by simp
          moreover have same: "lookup lb (putCol lb key col' s) = lookup lb s"
            using calculation(1) st by (simp add: lookup_putCol [OF assms(1)] fun_upd_idem)
          ultimately show ?thesis
            using assms(2,3) args Inr Some del old d st server_ok_putCol [OF assms(1,2) d(3)] disc
            by (auto simp: cmdDEL_def noDetails_def same Let_def fun_upd_idem split: if_splits)
        next
          case old: (Some x)
          then show ?thesis
            using assms(2,3) args Inr Some del d st server_ok_dropIfEmpty [OF assms(1,2) d(3)]
              disc [OF server_ok_dropIfEmpty(1) [OF assms(1,2) d(3)], of key ident key]
            by (auto simp: cmdDEL_def noDetails_def Let_def)
        qed
      qed
    qed
  qed
  show "server_ok lb items ok s'" using all by blast
  show "\<And>e. r = Inl e \<Longrightarrow> lookup lb s' = lookup lb s" using all by simp
  show "\<And>v d. r = Inr (v, d) \<Longrightarrow>
      lookup lb s' = (lookup lb s)(msg_Args msg ! 1 := (lookup lb s (msg_Args msg ! 1))(msg_Args msg ! 2 := None))
      \<and> d_obj d = lookup lb s (msg_Args msg ! 1) (msg_Args msg ! 2)
      \<and> d_updated d = (lookup lb s (msg_Args msg ! 1) (msg_Args msg ! 2) \<noteq> None)
      \<and> v = replyOK tm msg (boolInt (lookup lb s (msg_Args msg ! 1) (msg_Args msg ! 2) \<noteq> None))"
    using all by simp
qed

text \<open>The form that the server itself sends.\<close>

lemma cmdDEL_own:
  assumes "lib_laws lb items ok" and "server_ok lb items ok s"
  shows "\<exists>v d s'. cmdDEL lb tm (ownMessage [c, key, ident]) s = (Inr (v, d), s') \<and> server_ok lb items ok s'
    \<and> lookup lb s' = (lookup lb s)(key := (lookup lb s key)(ident := None))"
proof -
  obtain r s' where run: "cmdDEL lb tm (ownMessage [c, key, ident]) s = (r, s')" by fastforce
  then have "r \<noteq> Inl e" for e
    by (auto simp: cmdDEL_def ownMessage_def Let_def split: option.splits prod.splits)
  then obtain v d where "r = Inr (v, d)" by (cases r) auto
  with run cmdDEL_effect(1,3) [OF assms run] show ?thesis by (simp add: ownMessage_def)
qed

section \<open>\<^verbatim>\<open>PDEL\<close>\<close>

lemma pdelStep_fold:
  assumes "lib_laws lb items ok"
  shows "col_ok lb items col \<Longrightarrow> server_ok lb items ok s \<Longrightarrow>
   \<exists>col' children s'. fold (pdelStep lb tm key) ids (col, ch, s) = (col', children, s')
     \<and> col_ok lb items col' \<and> server_ok lb items ok s' \<and> lookup lb s' = lookup lb s
     \<and> length children = length ch + length ids
     \<and> stored lb col' = (\<lambda>i. if i \<in> set ids then None else stored lb col i)"
proof (induction ids arbitrary: col ch s)
  case (Cons i ids)
  obtain old col1 where del: "Collection_Delete (lb_tr lb) (lb_gl lb) i col = (old, col1)" by fastforce
  note d = col_ok_Delete [OF assms Cons.prems(1) del]
  obtain ch1 where step: "pdelStep lb tm key i (col, ch, s) = (col1, ch1, disconnectObject lb key i s)" "length ch1 = length ch + 1"
    by (simp add: pdelStep_def del)
  obtain col' children s' where "fold (pdelStep lb tm key) ids (col1, ch1, disconnectObject lb key i s) = (col', children, s')"
    "col_ok lb items col'" "server_ok lb items ok s'" "lookup lb s' = lookup lb s" "length children = length ch1 + length ids"
    "stored lb col' = (\<lambda>j. if j \<in> set ids then None else stored lb col1 j)"
    using Cons.IH [OF d(3) server_ok_disconnect(1) [OF assms Cons.prems(2)], of ch1 key i] by auto
  with step d(2) show ?case by (auto simp: fun_eq_iff)
qed auto

lemma cmdPDEL_ok:
  assumes "lib_laws lb items ok" and "server_ok lb items ok s"
  shows "server_ok lb items ok (snd (cmdPDEL lb tm msg s))"
proof (cases "\<exists>c key pattern. msg_Args msg = [c, key, pattern]")
  case False
  with assms(2) show ?thesis by (auto simp: cmdPDEL_def split: list.splits)
next
  case True
  then obtain c key pattern where args: "msg_Args msg = [c, key, pattern]" by blast
  show ?thesis
  proof (cases "getCol lb key s")
    case None
    with assms(2) args show ?thesis by (simp add: cmdPDEL_def)
  next
    case (Some col)
    show ?thesis
    proof (cases "pdelIDs lb tm msg pattern col")
      case (Inl e)
      with assms(2) args Some show ?thesis by (simp add: cmdPDEL_def)
    next
      case (Inr sc)
      obtain col' children s' where f: "fold (pdelStep lb tm key) (sc_user sc) (col, [], s) = (col', children, s')"
        "col_ok lb items col'" "server_ok lb items ok s'"
        using pdelStep_fold [OF assms(1) server_okD(1) [OF assms(2) Some] assms(2), of tm key "sc_user sc" "[]"] by auto
      with Inr args Some server_ok_dropIfEmpty(1) [OF assms(1) f(3,2)] show ?thesis
        by (simp add: cmdPDEL_def Let_def)
    qed
  qed
qed

text \<open>The identifiers that a pattern selects: those it matches in the range that \<open>Parse\<close> computes.\<close>

definition selected :: "gostring \<Rightarrow> gostring \<Rightarrow> bool" where
  "selected pattern ident \<longleftrightarrow> globMatches pattern ident \<and> in_limits (Parse pattern False) ident"

lemma feed_filter:
  "feed (\<lambda>obj ids. (True, if P (oid obj) then ids @ [oid obj] else ids)) xs st
   = (True, st @ map oid (filter (\<lambda>x. P (oid x)) xs))"
  by (induction xs arbitrary: st) auto

lemma Parse_ascending: "glob_Desc (Parse pattern False) = False"
  by (simp add: Parse_def Let_def)

lemma pdelIDs_exact:
  assumes "lib_laws lb items ok" and "scan_laws (lb_tr lb)" and "col_ok lb items col"
    and "length (objects (lb_tr lb) col) < 2 ^ 64" and "msg_Deadline msg = None"
  shows "\<exists>sc. pdelIDs lb tm msg pattern col = Inr sc
    \<and> sc_user sc = map oid (filter (\<lambda>x. selected pattern (oid x)) (objects (lb_tr lb) col))"
proof -
  have laws: "tree_laws (lb_tr lb) items" "coll_ok (lb_tr lb) items (lb_gl lb) col"
    using assms(1,3) by (simp_all add: lib_laws_def col_ok_def)
  let ?g = "Parse pattern False" and ?iter = "\<lambda>obj ids. (True, if globMatches pattern (oid obj) then ids @ [oid obj] else ids)"
  show ?thesis
  proof (cases "glob_Limits ?g ! 0 = [] \<and> glob_Limits ?g ! 1 = []")
    case True
    then have "selected pattern i \<longleftrightarrow> globMatches pattern i" for i by (simp add: selected_def in_limits_def Let_def)
    with True Scan_feed [OF laws(1) assms(2) laws(2) assms(4), of "tm_clock tm" False None ?iter "[]"] assms(5)
    show ?thesis by (auto simp: pdelIDs_def Let_def feed_filter offset_of_def)
  next
    case False
    then have sel: "selected pattern i \<longleftrightarrow> (glob_Limits ?g ! 0 \<le> i \<and> i < glob_Limits ?g ! 1) \<and> globMatches pattern i" for i
      by (auto simp: selected_def in_limits_def Let_def Parse_ascending)
    obtain sc where sc: "pdelIDs lb tm msg pattern col = Inr sc"
      "(sc_keepon sc, sc_user sc) = feed ?iter
         (filter (\<lambda>x. glob_Limits ?g ! 0 \<le> oid x \<and> oid x < glob_Limits ?g ! 1) (objects (lb_tr lb) col)) []"
      using ScanRange_feed [OF laws(1) assms(2) laws(2) assms(4), of "tm_clock tm" "glob_Limits ?g ! 0" "glob_Limits ?g ! 1"
          False ?iter "[]"] assms(5) False by (auto simp: pdelIDs_def Let_def)
    then show ?thesis by (auto simp: feed_filter sel conj_commute)
  qed
qed

lemma cmdPDEL_effect:
  assumes "lib_laws lb items ok" and "scan_laws (lb_tr lb)" and "server_ok lb items ok s"
    and "msg_Args msg = [c, key, pattern]" and "msg_Deadline msg = None"
    and "\<And>col. getCol lb key s = Some col \<Longrightarrow> length (objects (lb_tr lb) col) < 2 ^ 64"
  shows "\<exists>d s'. cmdPDEL lb tm msg s =
      (Inr (replyOK tm msg (RInteger (int (card {i \<in> dom (lookup lb s key). selected pattern i}))), d), s')
    \<and> lookup lb s' = (lookup lb s)(key := (\<lambda>i. if selected pattern i then None else lookup lb s key i))
    \<and> d_updated d = (\<exists>i \<in> dom (lookup lb s key). selected pattern i)"
proof (cases "getCol lb key s")
  case None
  then have empty: "lookup lb s key = Map.empty" by (simp add: lookup_def)
  then have "(lookup lb s)(key := (\<lambda>i. if selected pattern i then None else lookup lb s key i)) = lookup lb s"
    by (intro fun_upd_idem ext) simp
  with empty None assms(4) show ?thesis by (simp add: cmdPDEL_def noDetails_def Let_def)
next
  case (Some col)
  then have st: "lookup lb s key = stored lb col" by (simp add: lookup_def)
  note ok = server_okD(1) [OF assms(3) Some]
  obtain sc where sc: "pdelIDs lb tm msg pattern col = Inr sc"
    "sc_user sc = map oid (filter (\<lambda>x. selected pattern (oid x)) (objects (lb_tr lb) col))"
    using pdelIDs_exact [OF assms(1,2) ok assms(6) [OF Some] assms(5)] by blast
  have laws: "tree_laws (lb_tr lb) items" "coll_ok (lb_tr lb) items (lb_gl lb) col"
    using assms(1) ok by (simp_all add: lib_laws_def col_ok_def)
  have "map oid (objects (lb_tr lb) col) = sorted_list_of_set (dom (stored lb col))"
    using objects_ids(1) [OF laws] by (simp add: keys_def)
  moreover have ids: "sc_user sc = filter (selected pattern) (map oid (objects (lb_tr lb) col))"
    unfolding sc(2) by (simp add: filter_map comp_def)
  ultimately have set_ids: "set (sc_user sc) = {i \<in> dom (stored lb col). selected pattern i}" "distinct (sc_user sc)"
    using bm_laws(1) [OF laws(1)] by auto
  obtain col' children s' where f: "fold (pdelStep lb tm key) (sc_user sc) (col, [], s) = (col', children, s')"
    "col_ok lb items col'" "server_ok lb items ok s'" "lookup lb s' = lookup lb s" "length children = length (sc_user sc)"
    "stored lb col' = (\<lambda>i. if i \<in> set (sc_user sc) then None else stored lb col i)"
    using pdelStep_fold [OF assms(1) ok assms(3), of tm key "sc_user sc" "[]"] by auto
  have "stored lb col' = (\<lambda>i. if selected pattern i then None else stored lb col i)"
    unfolding f(6) set_ids by (auto simp: fun_eq_iff)
  moreover have "length children = card {i \<in> dom (stored lb col). selected pattern i}"
    using f(5) distinct_card [OF set_ids(2)] set_ids(1) by simp
  moreover have "children = [] \<longleftrightarrow> \<not> (\<exists>i \<in> dom (stored lb col). selected pattern i)"
  proof -
    have "children = [] \<longleftrightarrow> sc_user sc = []" using arg_cong [OF f(5), of "\<lambda>n. n = 0"] by (simp only: length_0_conv)
    with set_ids(1) show ?thesis by (metis (no_types, lifting) empty_iff mem_Collect_eq set_empty2 subsetI subset_empty)
  qed
  ultimately show ?thesis
    using assms(4) Some sc(1) f(1) server_ok_dropIfEmpty(2) [OF assms(1) f(3,2), of key] f(4)
    unfolding st by (simp add: cmdPDEL_def noDetails_def Let_def)
qed

section \<open>\<^verbatim>\<open>DROP\<close>, \<^verbatim>\<open>RENAME\<close> and \<^verbatim>\<open>FLUSHDB\<close>\<close>

lemma cmdDROPop_effect:
  assumes "lib_laws lb items ok" and "server_ok lb items ok s" and "cmdDROPop lb key s = (col, s')"
  shows "server_ok lb items ok s'" and "lookup lb s' = (lookup lb s)(key := Map.empty)" and "col = getCol lb key s"
proof -
  have s': "s' = disconnectCollection lb key (if getCol lb key s \<noteq> None then delCol lb key s else s)" "col = getCol lb key s"
    using assms(3) by (auto simp: cmdDROPop_def Let_def)
  show "col = getCol lb key s" by (fact s'(2))
  show "server_ok lb items ok s'"
    unfolding s' using assms(2) server_ok_delCol(1) [OF assms(1,2)] by (intro server_ok_disconnect(2) [OF assms(1)]) auto
  show "lookup lb s' = (lookup lb s)(key := Map.empty)"
    unfolding s' using server_ok_delCol(2) [OF assms(1,2)]
    by (auto simp: fun_upd_idem lookup_def [of lb s key])
qed

lemma cmdDROP_effect:
  assumes "lib_laws lb items ok" and "server_ok lb items ok s" and "cmdDROP lb tm msg s = (r, s')"
  shows "server_ok lb items ok s'" and "\<And>e. r = Inl e \<Longrightarrow> s' = s"
    and "\<And>v d. r = Inr (v, d) \<Longrightarrow> lookup lb s' = (lookup lb s)(msg_Args msg ! 1 := Map.empty)
      \<and> d_updated d = (lookup lb s (msg_Args msg ! 1) \<noteq> Map.empty)"
proof -
  have "server_ok lb items ok s' \<and> (case r of Inl e \<Rightarrow> s' = s
      | Inr (v, d) \<Rightarrow> lookup lb s' = (lookup lb s)(msg_Args msg ! 1 := Map.empty)
      \<and> d_updated d = (lookup lb s (msg_Args msg ! 1) \<noteq> Map.empty))"
  proof (cases "\<exists>c key. msg_Args msg = [c, key]")
    case False
    with assms(2,3) show ?thesis by (auto simp: cmdDROP_def split: list.splits)
  next
    case True
    then obtain c key where args: "msg_Args msg = [c, key]" by blast
    obtain col s1 where drop: "cmdDROPop lb key s = (col, s1)" by fastforce
    note eff = cmdDROPop_effect [OF assms(1,2) drop]
    have "col \<noteq> None \<longleftrightarrow> lookup lb s key \<noteq> Map.empty" using eff(3) getCol_iff [OF assms(1,2)] by simp
    with args drop eff assms(3) show ?thesis by (auto simp: cmdDROP_def noDetails_def Let_def)
  qed
  then show "server_ok lb items ok s'" "\<And>e. r = Inl e \<Longrightarrow> s' = s"
    "\<And>v d. r = Inr (v, d) \<Longrightarrow> lookup lb s' = (lookup lb s)(msg_Args msg ! 1 := Map.empty)
      \<and> d_updated d = (lookup lb s (msg_Args msg ! 1) \<noteq> Map.empty)"
    by auto
qed

lemma move_effect:
  assumes "lib_laws lb items ok" and "server_ok lb items ok s" and "col_ok lb items col" and "0 < Count col"
  shows "server_ok lb items ok (putCol lb newKey col (delCol lb key s))"
    and "lookup lb (putCol lb newKey col (delCol lb key s)) = (lookup lb s)(key := Map.empty, newKey := stored lb col)"
  using server_ok_putCol [OF assms(1) server_ok_delCol(1) [OF assms(1,2)] assms(3,4)]
  by (simp_all add: lookup_putCol [OF assms(1)] server_ok_delCol(2) [OF assms(1,2)])

lemma cmdRENAME_effect:
  assumes "lib_laws lb items ok" and "server_ok lb items ok s" and "cmdRENAME lb tm msg s = (r, s')"
  shows "server_ok lb items ok s'" and "\<And>e. r = Inl e \<Longrightarrow> s' = s"
    and "\<And>v d. r = Inr (v, d) \<Longrightarrow>
      d_updated d = (ToLower (msg_Args msg ! 0) \<noteq> lit ''renamenx'' \<or> lookup lb s (msg_Args msg ! 2) = Map.empty)
      \<and> lookup lb s' =
        (if d_updated d then (lookup lb s)(msg_Args msg ! 1 := Map.empty, msg_Args msg ! 2 := lookup lb s (msg_Args msg ! 1))
         else lookup lb s)"
proof -
  have "server_ok lb items ok s' \<and> (case r of Inl e \<Rightarrow> s' = s | Inr (v, d) \<Rightarrow>
      d_updated d = (ToLower (msg_Args msg ! 0) \<noteq> lit ''renamenx'' \<or> lookup lb s (msg_Args msg ! 2) = Map.empty)
      \<and> lookup lb s' =
        (if d_updated d then (lookup lb s)(msg_Args msg ! 1 := Map.empty, msg_Args msg ! 2 := lookup lb s (msg_Args msg ! 1))
         else lookup lb s))"
  proof (cases "\<exists>c key newKey. msg_Args msg = [c, key, newKey]")
    case False
    with assms(2,3) show ?thesis by (auto simp: cmdRENAME_def split: list.splits)
  next
    case True
    then obtain c key newKey where args: "msg_Args msg = [c, key, newKey]" by blast
    show ?thesis
    proof (cases "getCol lb key s")
      case None
      with args assms(2,3) show ?thesis by (auto simp: cmdRENAME_def Let_def)
    next
      case (Some col)
      then have st: "lookup lb s key = stored lb col" by (simp add: lookup_def)
      note ok = server_okD(1,2) [OF assms(2) Some]
      note move = move_effect [OF assms(1) _ ok, of _ newKey key]
      note del = server_ok_delCol [OF assms(1,2), of newKey]
      have "getCol lb newKey s = None \<longleftrightarrow> lookup lb s newKey = Map.empty" by (rule getCol_iff [OF assms(1,2)])
      with args Some assms(2,3) move [OF assms(2)] move [OF del(1)] del(2) st show ?thesis
        by (auto simp: cmdRENAME_def noDetails_def Let_def fun_upd_twist split: if_splits option.splits simp del: lit_Cons)
    qed
  qed
  then show "server_ok lb items ok s'" "\<And>e. r = Inl e \<Longrightarrow> s' = s"
    "\<And>v d. r = Inr (v, d) \<Longrightarrow>
      d_updated d = (ToLower (msg_Args msg ! 0) \<noteq> lit ''renamenx'' \<or> lookup lb s (msg_Args msg ! 2) = Map.empty)
      \<and> lookup lb s' =
        (if d_updated d then (lookup lb s)(msg_Args msg ! 1 := Map.empty, msg_Args msg ! 2 := lookup lb s (msg_Args msg ! 1))
         else lookup lb s)"
    by auto
qed

lemma cmdFLUSHDB_effect:
  assumes "lib_laws lb items ok" and "server_ok lb items ok s" and "cmdFLUSHDB lb tm msg s = (r, s')"
  shows "server_ok lb items ok s'" and "\<And>e. r = Inl e \<Longrightarrow> s' = s"
    and "\<And>v d. r = Inr (v, d) \<Longrightarrow> lookup lb s' = (\<lambda>k. Map.empty)"
proof -
  have "sv_cols s' = mp_Empty (lb_mp lb) \<and> sv_groups s' = \<lparr>groupHooks = bt_Empty (lb_gr lb), groupObjects = bt_Empty (lb_gr lb)\<rparr>
      \<or> s' = s \<and> r = Inl ErrInvalidNumberOfArguments"
    using assms(3) by (auto simp: cmdFLUSHDB_def Let_def split: if_splits)
  moreover have "groups_ok (lb_gr lb) ok \<lparr>groupHooks = bt_Empty (lb_gr lb), groupObjects = bt_Empty (lb_gr lb)\<rparr>"
    using assms(1) btree_empty [of "lb_gr lb" ok] by (simp add: lib_laws_def groups_ok_def links_def)
  ultimately show "server_ok lb items ok s'" "\<And>v d. r = Inr (v, d) \<Longrightarrow> lookup lb s' = (\<lambda>k. Map.empty)"
    using assms(1,2) by (auto simp: server_ok_def lookup_def getCol_def lib_laws_def map_lawsD)
  show "\<And>e. r = Inl e \<Longrightarrow> s' = s" using assms(3) by (auto simp: cmdFLUSHDB_def Let_def split: if_splits)
qed

end
