(* ===== verification/Server_Commands.thy ===== *)
theory Server_Commands
  imports Server_Refine
begin

text \<open>
  What the commands that store objects and remove hooks do to the database, and that they keep the invariant of the
  server.
\<close>

section \<open>Storing an object\<close>

text \<open>The invariant, except for the collection under one key.\<close>

definition server_but where
  "server_but lb items ok key s \<longleftrightarrow>
     (\<forall>k col. k \<noteq> key \<longrightarrow> getCol lb k s = Some col \<longrightarrow> col_ok lb items col \<and> 0 < Count col) \<and>
     groups_ok (lb_gr lb) ok (sv_groups s)"

lemma server_but_ok: "server_ok lb items ok s \<Longrightarrow> server_but lb items ok key s"
  by (simp add: server_ok_def server_but_def)

lemma server_but_putCol:
  "lib_laws lb items ok \<Longrightarrow> server_but lb items ok key s \<Longrightarrow> server_but lb items ok key (putCol lb key col s)"
  by (simp add: server_but_def getCol_simps)

lemma server_ok_putBack:
  "lib_laws lb items ok \<Longrightarrow> server_but lb items ok key s \<Longrightarrow> col_ok lb items col \<Longrightarrow> 0 < Count col \<Longrightarrow>
   server_ok lb items ok (putCol lb key col s)"
  by (simp add: server_ok_def server_but_def getCol_simps)

lemma store_effect:
  assumes "lib_laws lb items ok" and "server_but lb items ok key s" and "col_ok lb items col" and "geo_fine (lb_gl lb) geo"
    and obj_def: "obj = Object_New (lb_gl lb) ident geo ex fl"
  shows "server_ok lb items ok (putCol lb key (snd (Collection_Set (lb_tr lb) (lb_gl lb) obj col)) s)"
    and "lookup lb (putCol lb key (snd (Collection_Set (lb_tr lb) (lb_gl lb) obj col)) s)
      = (lookup lb s)(key := (stored lb col)(ident \<mapsto> obj))"
    and "fst (Collection_Set (lb_tr lb) (lb_gl lb) obj col) = stored lb col ident"
proof -
  obtain old col' where set: "Collection_Set (lb_tr lb) (lb_gl lb) obj col = (old, col')" by fastforce
  note eff = col_ok_Set [OF assms(1,3,4) set [unfolded obj_def], folded obj_def]
  show "server_ok lb items ok (putCol lb key (snd (Collection_Set (lb_tr lb) (lb_gl lb) obj col)) s)"
    using server_ok_putBack [OF assms(1,2) eff(3,4)] by (simp add: set)
  show "lookup lb (putCol lb key (snd (Collection_Set (lb_tr lb) (lb_gl lb) obj col)) s)
      = (lookup lb s)(key := (stored lb col)(ident \<mapsto> obj))"
    by (simp add: set lookup_putCol [OF assms(1)] eff(2))
  show "fst (Collection_Set (lb_tr lb) (lb_gl lb) obj col) = stored lb col ident" using eff(1) by (simp add: set)
qed

text \<open>Storing an object of the collection again, with another expiration or other fields.\<close>

lemma restore_effect:
  assumes "lib_laws lb items ok" and "server_ok lb items ok s" and "getCol lb key s = Some col" and "stored lb col ident = Some x"
  defines "obj \<equiv> \<lambda>ex fl. Object_New (lb_gl lb) ident (ogeom (lb_gl lb) x) ex fl"
  shows "server_ok lb items ok (putCol lb key (snd (Collection_Set (lb_tr lb) (lb_gl lb) (obj ex fl) col)) (s\<lparr>sv_tab := tab\<rparr>))"
    and "server_ok lb items ok (putCol lb key (snd (Collection_Set (lb_tr lb) (lb_gl lb) (obj ex fl) col)) s)"
    and "lookup lb (putCol lb key (snd (Collection_Set (lb_tr lb) (lb_gl lb) (obj ex fl) col)) s)
      = (lookup lb s)(key := (lookup lb s key)(ident \<mapsto> obj ex fl))"
proof -
  note ok = server_okD(1) [OF assms(2,3)]
  note fine = stored_geo_fine [OF assms(1) ok assms(4)]
  have st: "lookup lb s key = stored lb col" using assms(3) by (simp add: lookup_def)
  show "server_ok lb items ok (putCol lb key (snd (Collection_Set (lb_tr lb) (lb_gl lb) (obj ex fl) col)) (s\<lparr>sv_tab := tab\<rparr>))"
    unfolding obj_def by (rule store_effect(1) [OF assms(1) server_but_ok [OF server_ok_frame(1) [OF assms(2)]] ok fine refl])
  show "server_ok lb items ok (putCol lb key (snd (Collection_Set (lb_tr lb) (lb_gl lb) (obj ex fl) col)) s)"
    unfolding obj_def by (rule store_effect(1) [OF assms(1) server_but_ok [OF assms(2)] ok fine refl])
  show "lookup lb (putCol lb key (snd (Collection_Set (lb_tr lb) (lb_gl lb) (obj ex fl) col)) s)
      = (lookup lb s)(key := (lookup lb s key)(ident \<mapsto> obj ex fl))"
    unfolding obj_def st by (rule store_effect(2) [OF assms(1) server_but_ok [OF assms(2)] ok fine refl])
qed

section \<open>\<^verbatim>\<open>EXPIRE\<close> and \<^verbatim>\<open>PERSIST\<close>\<close>

lemma cmdEXPIRE_effect:
  assumes "lib_laws lb items ok" and "server_ok lb items ok s" and "msg_Args msg = [c, key, ident, svalue]"
    and "ParseFloat svalue = (value, True)" and "lookup lb s key ident = Some x"
  shows "\<exists>d. cmdEXPIRE lb tm msg s = (Inr (replyOK tm msg (RInteger 1), d), snd (cmdEXPIRE lb tm msg s))"
    and "server_ok lb items ok (snd (cmdEXPIRE lb tm msg s))"
    and "lookup lb (snd (cmdEXPIRE lb tm msg s)) = (lookup lb s)(key := (lookup lb s key)(ident \<mapsto>
      Object_New (lb_gl lb) ident (ogeom (lb_gl lb) x) (expiresAt lb (tm_now tm) value) (Object_Fields x)))"
proof -
  obtain col where col: "getCol lb key s = Some col" "stored lb col ident = Some x"
    using assms(5) by (auto simp: lookup_def split: option.splits)
  note eff = restore_effect [OF assms(1,2) col, of "expiresAt lb (tm_now tm) value" "Object_Fields x"]
  have "cmdEXPIRE lb tm msg s = (Inr (replyOK tm msg (RInteger 1), noDetails\<lparr>d_key := key,
      d_obj := Some (Object_New (lb_gl lb) ident (ogeom (lb_gl lb) x) (expiresAt lb (tm_now tm) value) (Object_Fields x)),
      d_command := lit ''expire'', d_updated := True, d_timestamp := tm_stamp tm\<rparr>),
     putCol lb key (snd (Collection_Set (lb_tr lb) (lb_gl lb)
       (Object_New (lb_gl lb) ident (ogeom (lb_gl lb) x) (expiresAt lb (tm_now tm) value) (Object_Fields x)) col)) s)"
    using assms(3,4) col by (simp add: cmdEXPIRE_def Collection_Get_def Let_def del: lit_Cons)
  with eff show "\<exists>d. cmdEXPIRE lb tm msg s = (Inr (replyOK tm msg (RInteger 1), d), snd (cmdEXPIRE lb tm msg s))"
    "server_ok lb items ok (snd (cmdEXPIRE lb tm msg s))"
    "lookup lb (snd (cmdEXPIRE lb tm msg s)) = (lookup lb s)(key := (lookup lb s key)(ident \<mapsto>
      Object_New (lb_gl lb) ident (ogeom (lb_gl lb) x) (expiresAt lb (tm_now tm) value) (Object_Fields x)))"
    by simp_all
qed

lemma cmdEXPIRE_ok:
  assumes "lib_laws lb items ok" and "server_ok lb items ok s"
  shows "server_ok lb items ok (snd (cmdEXPIRE lb tm msg s))"
proof (cases "\<exists>c key ident svalue value x. msg_Args msg = [c, key, ident, svalue] \<and> ParseFloat svalue = (value, True)
    \<and> lookup lb s key ident = Some x")
  case True
  then show ?thesis using cmdEXPIRE_effect(2) [OF assms] by blast
next
  case False
  then have "snd (cmdEXPIRE lb tm msg s) = s"
    by (auto simp: cmdEXPIRE_def Collection_Get_def lookup_def Let_def
        split: list.splits option.splits prod.splits out_type.splits)
  with assms(2) show ?thesis by simp
qed

lemma cmdPERSIST_effect:
  assumes "lib_laws lb items ok" and "server_ok lb items ok s" and "msg_Args msg = [c, key, ident]"
    and "lookup lb s key ident = Some x"
  shows "server_ok lb items ok (snd (cmdPERSIST lb tm msg s))"
    and "lookup lb (snd (cmdPERSIST lb tm msg s)) = (if oexpires x = 0 then lookup lb s
      else (lookup lb s)(key := (lookup lb s key)(ident \<mapsto>
        Object_New (lb_gl lb) ident (ogeom (lb_gl lb) x) 0 (Object_Fields x))))"
proof -
  obtain col where col: "getCol lb key s = Some col" "stored lb col ident = Some x"
    using assms(4) by (auto simp: lookup_def split: option.splits)
  note eff = restore_effect [OF assms(1,2) col, of 0 "Object_Fields x"]
  have "snd (cmdPERSIST lb tm msg s) = (if oexpires x = 0 then s else putCol lb key (snd (Collection_Set (lb_tr lb) (lb_gl lb)
      (Object_New (lb_gl lb) ident (ogeom (lb_gl lb) x) 0 (Object_Fields x)) col)) s)"
    using assms(3) col by (simp add: cmdPERSIST_def Collection_Get_def Let_def del: lit_Cons)
  with assms(2) eff show "server_ok lb items ok (snd (cmdPERSIST lb tm msg s))"
    "lookup lb (snd (cmdPERSIST lb tm msg s)) = (if oexpires x = 0 then lookup lb s
      else (lookup lb s)(key := (lookup lb s key)(ident \<mapsto>
        Object_New (lb_gl lb) ident (ogeom (lb_gl lb) x) 0 (Object_Fields x))))"
    by simp_all
qed

lemma cmdPERSIST_ok:
  assumes "lib_laws lb items ok" and "server_ok lb items ok s"
  shows "server_ok lb items ok (snd (cmdPERSIST lb tm msg s))"
proof (cases "\<exists>c key ident x. msg_Args msg = [c, key, ident] \<and> lookup lb s key ident = Some x")
  case True
  then show ?thesis using cmdPERSIST_effect(1) [OF assms] by blast
next
  case False
  then have "snd (cmdPERSIST lb tm msg s) = s"
    by (auto simp: cmdPERSIST_def Collection_Get_def lookup_def Let_def split: list.splits option.splits)
  with assms(2) show ?thesis by simp
qed

section \<open>\<^verbatim>\<open>SET\<close>\<close>

text \<open>Whether the options forbid to store.\<close>

definition excluded :: "'g set_args \<Rightarrow> 'o option \<Rightarrow> bool" where
  "excluded a old = (case old of None \<Rightarrow> sa_xx a | Some x \<Rightarrow> sa_nx a)"

definition oldFields :: "('g, 'p) Object option \<Rightarrow> List" where
  "oldFields old = (case old of Some x \<Rightarrow> Object_Fields x | None \<Rightarrow> None)"

lemma setInto_effect:
  assumes "lib_laws lb items ok" and "server_but lb items ok key s" and "col_ok lb items col"
    and "geo_fine (lb_gl lb) oobj" and "\<not> excluded a (stored lb col ident)"
    and "applyFields lb (oldFields (stored lb col ident)) (sa_fields a) (sv_tab s) = Inr (fl, tab)"
  shows "server_ok lb items ok (snd (setInto lb tm msg key ident a oobj col s))"
    and "lookup lb (snd (setInto lb tm msg key ident a oobj col s)) =
      (lookup lb s)(key := (stored lb col)(ident \<mapsto> Object_New (lb_gl lb) ident oobj (sa_ex a) fl))"
    and "sv_tab (snd (setInto lb tm msg key ident a oobj col s)) = tab"
proof -
  have but: "server_but lb items ok key (s\<lparr>sv_tab := tab\<rparr>)" using assms(2) by (simp add: server_but_def)
  note eff = store_effect [OF assms(1) but assms(3,4) refl, of ident "sa_ex a" fl]
  have "snd (setInto lb tm msg key ident a oobj col s) = putCol lb key (snd (Collection_Set (lb_tr lb) (lb_gl lb)
      (Object_New (lb_gl lb) ident oobj (sa_ex a) fl) col)) (s\<lparr>sv_tab := tab\<rparr>)"
    using assms(5,6) by (auto simp: setInto_def Collection_Get_def excluded_def oldFields_def Let_def case_prod_beta
        simp del: lit_Cons cong: if_cong)
  with eff show "server_ok lb items ok (snd (setInto lb tm msg key ident a oobj col s))"
    "lookup lb (snd (setInto lb tm msg key ident a oobj col s)) =
      (lookup lb s)(key := (stored lb col)(ident \<mapsto> Object_New (lb_gl lb) ident oobj (sa_ex a) fl))"
    "sv_tab (snd (setInto lb tm msg key ident a oobj col s)) = tab"
    by (simp_all add: putCol_def)
qed

lemma setInto_excluded:
  "excluded a (stored lb col ident) \<Longrightarrow> setInto lb tm msg key ident a oobj col s = (setNada msg (sa_nx a), s)"
  by (auto simp: setInto_def Collection_Get_def excluded_def)

lemma setInto_panic:
  "\<not> excluded a (stored lb col ident) \<Longrightarrow> applyFields lb (oldFields (stored lb col ident)) (sa_fields a) (sv_tab s) = Inl e \<Longrightarrow>
   setInto lb tm msg key ident a oobj col s = (Inl (PanicField e), s)"
  by (auto simp: setInto_def Collection_Get_def excluded_def oldFields_def Let_def)

lemma cmdSET_effect:
  assumes "lib_laws lb items ok" and "server_ok lb items ok s" and "\<not> outOfMemory s"
    and "msg_Args msg = c # key # ident # opts"
    and "setArgs lb (tm_now tm) (msg_Args msg) 3 noSetArgs = Inr a" and "sa_oobj a = Some oobj"
    and "geo_fine (lb_gl lb) oobj"
  shows "excluded a (lookup lb s key ident) \<Longrightarrow> cmdSET lb tm msg s = (setNada msg (sa_nx a), s)"
    and "\<not> excluded a (lookup lb s key ident) \<Longrightarrow>
      applyFields lb (oldFields (lookup lb s key ident)) (sa_fields a) (sv_tab s) = Inr (fl, tab) \<Longrightarrow>
      server_ok lb items ok (snd (cmdSET lb tm msg s))
      \<and> lookup lb (snd (cmdSET lb tm msg s)) =
        (lookup lb s)(key := (lookup lb s key)(ident \<mapsto> Object_New (lb_gl lb) ident oobj (sa_ex a) fl))
      \<and> sv_tab (snd (cmdSET lb tm msg s)) = tab"
    and "\<not> excluded a (lookup lb s key ident) \<Longrightarrow>
      applyFields lb (oldFields (lookup lb s key ident)) (sa_fields a) (sv_tab s) = Inl e \<Longrightarrow>
      fst (cmdSET lb tm msg s) = Inl (PanicField e)"
proof -
  let ?new = "Collection_New (lb_tr lb)"
  note new = col_ok_New [OF assms(1)] stored_New [OF assms(1)]
  have cols: "lookup lb s key = (case getCol lb key s of None \<Rightarrow> Map.empty | Some col \<Rightarrow> stored lb col)"
    by (simp add: lookup_def)
  have run: "cmdSET lb tm msg s = (case getCol lb key s of
      None \<Rightarrow> if sa_xx a then (setNada msg (sa_nx a), s)
              else setInto lb tm msg key ident a oobj ?new (putCol lb key ?new s)
    | Some col \<Rightarrow> setInto lb tm msg key ident a oobj col s)"
    using assms(3-6) by (simp add: cmdSET_def)
  show "cmdSET lb tm msg s = (setNada msg (sa_nx a), s)" if "excluded a (lookup lb s key ident)"
    using that run cols by (auto simp: setInto_excluded excluded_def split: option.splits)
  show "server_ok lb items ok (snd (cmdSET lb tm msg s)) \<and> lookup lb (snd (cmdSET lb tm msg s)) =
        (lookup lb s)(key := (lookup lb s key)(ident \<mapsto> Object_New (lb_gl lb) ident oobj (sa_ex a) fl))
      \<and> sv_tab (snd (cmdSET lb tm msg s)) = tab"
    if "\<not> excluded a (lookup lb s key ident)"
      "applyFields lb (oldFields (lookup lb s key ident)) (sa_fields a) (sv_tab s) = Inr (fl, tab)"
  proof (cases "getCol lb key s")
    case None
    have sv: "sv_tab (putCol lb key ?new s) = sv_tab s" by (simp add: putCol_def)
    have "\<not> sa_xx a" using that(1) None cols by (simp add: excluded_def)
    moreover have "\<not> excluded a (stored lb ?new ident)" using that(1) None cols new(2) by simp
    ultimately show ?thesis
      using that(2) None cols run new(2)
        setInto_effect [OF assms(1) server_but_putCol [OF assms(1) server_but_ok [OF assms(2), of key], of ?new] new(1) assms(7),
          where a = a and ident = ident and fl = fl and tab = tab and tm = tm and msg = msg]
      by (simp add: sv lookup_putCol [OF assms(1)])
  next
    case (Some col)
    with that cols run setInto_effect [OF assms(1) server_but_ok [OF assms(2), of key] server_okD(1) [OF assms(2) Some] assms(7),
        where a = a and ident = ident and fl = fl and tab = tab and tm = tm and msg = msg]
    show ?thesis by simp
  qed
  show "fst (cmdSET lb tm msg s) = Inl (PanicField e)"
    if "\<not> excluded a (lookup lb s key ident)"
      "applyFields lb (oldFields (lookup lb s key ident)) (sa_fields a) (sv_tab s) = Inl e"
  proof (cases "getCol lb key s")
    case None
    have sv: "sv_tab (putCol lb key ?new s) = sv_tab s" by (simp add: putCol_def)
    from None that cols new(2) have "\<not> sa_xx a" "\<not> excluded a (stored lb ?new ident)"
      "applyFields lb (oldFields (stored lb ?new ident)) (sa_fields a) (sv_tab (putCol lb key ?new s)) = Inl e"
      by (simp_all add: excluded_def sv)
    with None run show ?thesis by (simp add: setInto_panic)
  qed (use that cols run in \<open>simp add: setInto_panic\<close>)
qed

text \<open>No \<^verbatim>\<open>SET\<close> with these arguments asks for a geometry that the spatial index cannot find again.\<close>

definition args_fine where
  "args_fine lb tm args \<longleftrightarrow>
     (\<forall>a oobj. setArgs lb (tm_now tm) args 3 noSetArgs = Inr a \<longrightarrow> sa_oobj a = Some oobj \<longrightarrow> geo_fine (lb_gl lb) oobj)"

definition no_panic :: "cmd_error + 'a \<Rightarrow> bool" where
  "no_panic r \<longleftrightarrow> (\<forall>e. r \<noteq> Inl (PanicField e))"

lemma cmdSET_ok:
  assumes "lib_laws lb items ok" and "server_ok lb items ok s" and "args_fine lb tm (msg_Args msg)"
    and "no_panic (fst (cmdSET lb tm msg s))"
  shows "server_ok lb items ok (snd (cmdSET lb tm msg s))"
proof (cases "\<not> outOfMemory s \<and> (\<exists>c key ident opts a oobj. msg_Args msg = c # key # ident # opts
    \<and> setArgs lb (tm_now tm) (msg_Args msg) 3 noSetArgs = Inr a \<and> sa_oobj a = Some oobj)")
  case False
  then have "snd (cmdSET lb tm msg s) = s"
    by (auto simp: cmdSET_def split: list.splits sum.splits option.splits)
  with assms(2) show ?thesis by simp
next
  case True
  then obtain c key ident opts a oobj where run: "\<not> outOfMemory s" "msg_Args msg = c # key # ident # opts"
      "setArgs lb (tm_now tm) (msg_Args msg) 3 noSetArgs = Inr a" "sa_oobj a = Some oobj" by blast
  moreover have "geo_fine (lb_gl lb) oobj" using assms(3) run(3,4) by (simp add: args_fine_def)
  ultimately have eff: "excluded a (lookup lb s key ident) \<Longrightarrow> ?thesis"
    "\<not> excluded a (lookup lb s key ident) \<Longrightarrow>
      applyFields lb (oldFields (lookup lb s key ident)) (sa_fields a) (sv_tab s) = Inr (fl, tab) \<Longrightarrow> ?thesis"
    "\<not> excluded a (lookup lb s key ident) \<Longrightarrow>
      applyFields lb (oldFields (lookup lb s key ident)) (sa_fields a) (sv_tab s) = Inl e \<Longrightarrow> ?thesis" for fl tab e
    using cmdSET_effect [OF assms(1,2), of msg c key ident opts tm a oobj] assms(2,4) by (auto simp: no_panic_def)
  show ?thesis
    using eff by (cases "applyFields lb (oldFields (lookup lb s key ident)) (sa_fields a) (sv_tab s)") auto
qed

section \<open>\<^verbatim>\<open>FSET\<close>, \<^verbatim>\<open>JSET\<close> and \<^verbatim>\<open>JDEL\<close>\<close>

lemma cmdFSET_ok:
  assumes "lib_laws lb items ok" and "server_ok lb items ok s"
  shows "server_ok lb items ok (snd (cmdFSET lb tm msg s))"
proof -
  let ?key = "msg_Args msg ! 1" and ?ident = "msg_Args msg ! 2"
  have "snd (cmdFSET lb tm msg s) = s \<or> (\<exists>col x fl tab. getCol lb ?key s = Some col \<and> stored lb col ?ident = Some x
    \<and> snd (cmdFSET lb tm msg s) = putCol lb ?key (snd (Collection_Set (lb_tr lb) (lb_gl lb)
        (Object_New (lb_gl lb) ?ident (ogeom (lb_gl lb) x) (oexpires x) fl) col)) (s\<lparr>sv_tab := tab\<rparr>))"
    unfolding cmdFSET_def Collection_Get_def Let_def by (auto split: sum.splits option.splits prod.splits)
  then show ?thesis using assms(2) restore_effect(1) [OF assms] by auto
qed

lemma jsonStore_ok:
  assumes "lib_laws lb items ok" and "server_but lb items ok key s" and "col_ok lb items col"
  shows "server_ok lb items ok (snd (jsonStore lb tm msg key ident json fl col res s))"
proof -
  have "snd (jsonStore lb tm msg key ident json fl col res s) = putCol lb key (snd (Collection_Set (lb_tr lb) (lb_gl lb)
      (Object_New (lb_gl lb) ident (GString json) 0 fl) col)) s"
    by (simp add: jsonStore_def Let_def split: out_type.splits)
  then show ?thesis using store_effect(1) [OF assms geo_fine_string refl, of ident json 0 fl] by simp
qed

text \<open>The messages that \<^verbatim>\<open>JSET\<close> and \<^verbatim>\<open>JDEL\<close> turn into a \<^verbatim>\<open>SET\<close>.\<close>

definition msg_fine where
  "msg_fine lb tm msg \<longleftrightarrow> args_fine lb tm (msg_Args msg)
     \<and> (\<forall>json. args_fine lb tm [lit ''SET'', msg_Args msg ! 1, msg_Args msg ! 2, lit ''OBJECT'', json])"

lemma jsonAsSET_ok:
  assumes "lib_laws lb items ok" and "server_ok lb items ok s"
    and "args_fine lb tm [lit ''SET'', key, ident, lit ''OBJECT'', json]"
    and "no_panic (fst (jsonAsSET lb tm msg key ident json s))"
  shows "server_ok lb items ok (snd (jsonAsSET lb tm msg key ident json s))"
  using assms(3,4) unfolding jsonAsSET_def by (intro cmdSET_ok [OF assms(1,2)]) (simp_all del: lit_Cons)

lemma cmdJset_ok:
  assumes "lib_laws lb items ok" and "server_ok lb items ok s" and "msg_fine lb tm msg"
    and "no_panic (fst (cmdJset sj lb tm msg s))"
  shows "server_ok lb items ok (snd (cmdJset sj lb tm msg s))"
proof -
  let ?key = "msg_Args msg ! 1" and ?ident = "msg_Args msg ! 2"
  let ?found = "getCol lb ?key s"
  define col where "col = (case ?found of Some c \<Rightarrow> c | None \<Rightarrow> Collection_New (lb_tr lb))"
  define s1 where "s1 = (if ?found = None then putCol lb ?key col s else s)"
  have ok: "col_ok lb items col" "server_but lb items ok ?key s1"
    using col_ok_New [OF assms(1)] server_okD(1) [OF assms(2)]
    by (auto simp: col_def s1_def server_but_putCol [OF assms(1)] server_but_ok [OF assms(2)] split: option.splits)
  obtain geoobj json fl where of: "jsonOf lb ?ident col = (geoobj, json, fl)" by (metis prod_cases3)
  have "snd (cmdJset sj lb tm msg s) = s
    \<or> (\<exists>json. cmdJset sj lb tm msg s = jsonAsSET lb tm msg ?key ?ident json s)
    \<or> (\<exists>json fl res. cmdJset sj lb tm msg s = jsonStore lb tm msg ?key ?ident json fl col res s1)"
    unfolding cmdJset_def Let_def col_def [symmetric] s1_def [symmetric] of
    by (simp split: sum.splits del: lit_Cons) blast
  then consider "snd (cmdJset sj lb tm msg s) = s"
    | json where "cmdJset sj lb tm msg s = jsonAsSET lb tm msg ?key ?ident json s"
    | json fl res where "cmdJset sj lb tm msg s = jsonStore lb tm msg ?key ?ident json fl col res s1" by blast
  then show ?thesis
  proof cases
    case 2
    with jsonAsSET_ok [OF assms(1,2)] assms(3,4) show ?thesis unfolding msg_fine_def by simp
  qed (use assms(2) jsonStore_ok [OF assms(1) ok(2,1)] in simp_all)
qed

lemma cmdJdel_ok:
  assumes "lib_laws lb items ok" and "server_ok lb items ok s" and "msg_fine lb tm msg"
    and "no_panic (fst (cmdJdel sj lb tm msg s))"
  shows "server_ok lb items ok (snd (cmdJdel sj lb tm msg s))"
proof -
  let ?key = "msg_Args msg ! 1" and ?ident = "msg_Args msg ! 2"
  have "snd (cmdJdel sj lb tm msg s) = s
    \<or> (\<exists>json. cmdJdel sj lb tm msg s = jsonAsSET lb tm msg ?key ?ident json s)
    \<or> (\<exists>col json fl res. getCol lb ?key s = Some col
         \<and> cmdJdel sj lb tm msg s = jsonStore lb tm msg ?key ?ident json fl col res s)"
    unfolding cmdJdel_def
    by (auto split: list.splits option.splits sum.splits prod.splits out_type.splits simp del: lit_Cons)
  then show ?thesis
    using assms jsonStore_ok [OF assms(1) server_but_ok [OF assms(2)] server_okD(1) [OF assms(2)]] jsonAsSET_ok [OF assms(1,2)]
    by (auto simp: msg_fine_def)
qed

section \<open>Hooks\<close>

lemma cmdDELHOOKop_ok:
  assumes "lib_laws lb items ok" and "server_ok lb items ok s"
  shows "server_ok lb items ok (snd (cmdDELHOOKop lb name channel s))"
    and "lookup lb (snd (cmdDELHOOKop lb name channel s)) = lookup lb s"
proof -
  have cols: "sv_cols (snd (cmdDELHOOKop lb name channel s)) = sv_cols s"
    by (auto simp: cmdDELHOOKop_def Hook_Close_def Let_def split: option.splits)
  then show "lookup lb (snd (cmdDELHOOKop lb name channel s)) = lookup lb s"
    by (auto simp: lookup_def getCol_def)
  have "sv_groups (snd (cmdDELHOOKop lb name channel s)) \<in> {sv_groups s} \<union> range (\<lambda>n. groupDisconnectHook (lb_gr lb) n (sv_groups s))"
    by (auto simp: cmdDELHOOKop_def Hook_Close_def Let_def split: option.splits)
  moreover have "groups_ok (lb_gr lb) ok (groupDisconnectHook (lb_gr lb) n (sv_groups s))" for n
    using groupDisconnectHook_exact [of "lb_gr lb" ok "sv_groups s" n] assms by (simp add: lib_laws_def server_ok_def)
  ultimately have "groups_ok (lb_gr lb) ok (sv_groups (snd (cmdDELHOOKop lb name channel s)))"
    using server_okD(3) [OF assms(2)] by auto
  then show "server_ok lb items ok (snd (cmdDELHOOKop lb name channel s))"
    using assms(2) cols by (simp add: server_ok_def getCol_def)
qed

lemma cmdDelHook_ok:
  assumes "lib_laws lb items ok" and "server_ok lb items ok s"
  shows "server_ok lb items ok (snd (cmdDelHook lb tm msg s))"
  using cmdDELHOOKop_ok(1) [OF assms] assms(2)
  by (auto simp: cmdDelHook_def Let_def case_prod_beta split: list.splits out_type.splits)

lemma cmdPDelHook_ok:
  assumes "lib_laws lb items ok" and "server_ok lb items ok s"
  shows "server_ok lb items ok (snd (cmdPDelHook lb tm msg s))"
proof -
  have "server_ok lb items ok t \<Longrightarrow> server_ok lb items ok (fold (\<lambda>hook s. snd (cmdDELHOOKop lb (h_Name hook) b s)) hooks t)" for b hooks t
    by (induction hooks arbitrary: t) (simp_all add: cmdDELHOOKop_ok(1) [OF assms(1)])
  with assms(2) show ?thesis
    by (auto simp: cmdPDelHook_def Let_def case_prod_beta split: list.splits out_type.splits)
qed

end
