(* ===== verification/Server_Dispatch.thy ===== *)
theory Server_Dispatch
  imports Server_Set
begin

text \<open>
  From a message to a command (\<^verbatim>\<open>internal/legacy/server/server.go\<close>): which lock a command takes, which commands are
  refused on a follower or a read-only server, which go to the log file, and the dispatcher.
\<close>

datatype lock = NoLock | ReadLock | WriteLock

definition writeCommands :: "gostring list" where
  "writeCommands = map lit
     [''set'', ''del'', ''drop'', ''fset'', ''flushdb'', ''setchan'', ''pdelchan'', ''delchan'', ''sethook'', ''pdelhook'', ''delhook'',
      ''expire'', ''persist'', ''jset'', ''pdel'', ''rename'', ''renamenx'']"

definition scriptCommands :: "gostring list" where
  "scriptCommands = map lit [''eval'', ''evalsha'']"

definition readCommands :: "gostring list" where
  "readCommands = map lit
     [''get'', ''keys'', ''scan'', ''nearby'', ''within'', ''intersects'', ''hooks'', ''chans'', ''search'', ''ttl'', ''bounds'', ''server'',
      ''info'', ''type'', ''jget'', ''evalro'', ''evalrosha'', ''role'', ''fget'', ''exists'', ''fexists'']"

definition systemCommands :: "gostring list" where
  "systemCommands = map lit [''follow'', ''slaveof'', ''replconf'', ''readonly'', ''config'', ''shutdown'', ''client'']"

definition unlockedCommands :: "gostring list" where
  "unlockedCommands = map lit
     [''healthz'', ''output'', ''echo'', ''massinsert'', ''evalna'', ''evalnasha'', ''subscribe'', ''psubscribe'', ''publish'', ''monitor'']"

definition isWrite :: "gostring \<Rightarrow> bool" where
  "isWrite cmd \<longleftrightarrow> cmd \<in> set writeCommands"

definition lockOf :: "gostring \<Rightarrow> lock" where
  "lockOf cmd =
     (if isWrite cmd \<or> cmd \<in> set scriptCommands \<or> cmd \<in> set systemCommands then WriteLock
      else if cmd \<in> set unlockedCommands then NoLock
      else ReadLock)"

record Config =
  cf_followHost :: gostring
  cf_readOnly :: bool
  cf_caughtUp :: bool

text \<open>The answer to a command that is not even started.\<close>

definition refused :: "Config \<Rightarrow> Message \<Rightarrow> gostring \<Rightarrow> gostring option" where
  "refused cf msg cmd =
     (if isWrite cmd \<or> cmd \<in> set scriptCommands
      then (if cf_followHost cf \<noteq> [] then Some (lit ''not the leader'')
            else if cf_readOnly cf then Some (lit ''read only'')
            else if isWrite cmd \<and> msg_Deadline msg \<noteq> None then Some (lit ''timeout not supported for '' @ [39] @ cmd @ [39])
            else None)
      else if cmd \<in> set readCommands \<or> cmd = lit ''healthz''
      then (if cf_followHost cf \<noteq> [] \<and> \<not> cf_caughtUp cf then Some (lit ''catching up to leader'') else None)
      else None)"

text \<open>A query as a command: no details, and the same state.\<close>

definition asCommand :: "cmd_error + resp_value \<Rightarrow> 's \<Rightarrow> (cmd_error + (resp_value \<times> 'o details)) \<times> 's" where
  "asCommand r s = (bindE r (\<lambda>v. Inr (v, noDetails)), s)"

text \<open>The dispatcher, for the commands that are modelled; \<open>None\<close> stands for the others.\<close>

definition command where
  "command sj lb tm msg s =
     (let cmd = ToLower (hd (msg_Args msg)) in
      if cmd = lit ''set'' then Some (cmdSET lb tm msg s)
      else if cmd = lit ''fset'' then Some (cmdFSET lb tm msg s)
      else if cmd = lit ''del'' then Some (cmdDEL lb tm msg s)
      else if cmd = lit ''pdel'' then Some (cmdPDEL lb tm msg s)
      else if cmd = lit ''drop'' then Some (cmdDROP lb tm msg s)
      else if cmd = lit ''flushdb'' then Some (cmdFLUSHDB lb tm msg s)
      else if cmd = lit ''rename'' \<or> cmd = lit ''renamenx'' then Some (cmdRENAME lb tm msg s)
      else if cmd = lit ''delhook'' \<or> cmd = lit ''delchan'' then Some (cmdDelHook lb tm msg s)
      else if cmd = lit ''pdelhook'' \<or> cmd = lit ''pdelchan'' then Some (cmdPDelHook lb tm msg s)
      else if cmd = lit ''expire'' then Some (cmdEXPIRE lb tm msg s)
      else if cmd = lit ''persist'' then Some (cmdPERSIST lb tm msg s)
      else if cmd = lit ''ttl'' then Some (asCommand (cmdTTL lb tm msg s) s)
      else if cmd = lit ''bounds'' then Some (asCommand (cmdBOUNDS lb tm msg s) s)
      else if cmd = lit ''get'' then Some (asCommand (cmdGET lb tm msg s) s)
      else if cmd = lit ''fget'' then Some (asCommand (cmdFGET lb tm msg s) s)
      else if cmd = lit ''jget'' then Some (asCommand (cmdJget sj lb tm msg s) s)
      else if cmd = lit ''jset'' then Some (cmdJset sj lb tm msg s)
      else if cmd = lit ''jdel'' then Some (cmdJdel sj lb tm msg s)
      else if cmd = lit ''type'' then Some (asCommand (cmdTYPE lb tm msg s) s)
      else if cmd = lit ''keys'' then Some (asCommand (cmdKEYS lb tm msg s) s)
      else if cmd = lit ''exists'' then Some (asCommand (cmdEXISTS lb tm msg s) s)
      else if cmd = lit ''fexists'' then Some (asCommand (cmdFEXISTS lb tm msg s) s)
      else None)"

text \<open>
  What a client gets, what goes to the log file, and the state afterwards. A panic of the command ends the process
  before the deadline is looked at.
\<close>

datatype answer = Refused gostring | Failed cmd_error | Answered resp_value

fun panicked :: "cmd_error + 'a \<Rightarrow> bool" where
  "panicked (Inl e) \<longleftrightarrow> (case e of PanicNil \<Rightarrow> True | PanicIndex \<Rightarrow> True | PanicField _ \<Rightarrow> True | Diverges \<Rightarrow> True | _ \<Rightarrow> False)"
| "panicked (Inr _) \<longleftrightarrow> False"

definition handleInputCommand where
  "handleInputCommand sj lb cf tm msg s =
     (let cmd = ToLower (hd (msg_Args msg)) in
      case refused cf msg cmd of
        Some why \<Rightarrow> Some (Refused why, [], s)
      | None \<Rightarrow>
          (case command sj lb tm msg s of
             None \<Rightarrow> None
           | Some (r, s') \<Rightarrow>
               if \<not> panicked r \<and> Deadline_Check (tm_end tm) (msg_Deadline msg) = Inl DeadlineHit
               then Some (Failed ErrTimeout, [], s')
               else
                 (case r of
                    Inl e \<Rightarrow> Some (Failed e, [], s')
                  | Inr (v, d) \<Rightarrow> Some (Answered v, if isWrite cmd then [(msg_Args msg, d)] else [], s'))))"

end
