(* ===== verification/Server_Reach.thy ===== *)
theory Server_Reach
  imports Server_Commands Server_Dispatch
begin

text \<open>
  The states that a server reaches by commands and by the expiration in the background, and what the
  expiration removes.
\<close>

section \<open>Every command keeps the invariant\<close>

lemma asCommand_snd [simp]: "snd (asCommand r s) = s"
  by (simp add: asCommand_def)

lemma command_cases:
  assumes "command sj lb tm msg s = Some (r, s')"
  shows "s' = s \<or> (r, s') \<in> {cmdSET lb tm msg s, cmdFSET lb tm msg s, cmdDEL lb tm msg s, cmdPDEL lb tm msg s,
    cmdDROP lb tm msg s, cmdFLUSHDB lb tm msg s, cmdRENAME lb tm msg s, cmdDelHook lb tm msg s, cmdPDelHook lb tm msg s,
    cmdEXPIRE lb tm msg s, cmdPERSIST lb tm msg s, cmdJset sj lb tm msg s, cmdJdel sj lb tm msg s}"
  using assms unfolding command_def Let_def asCommand_def by (simp split: if_splits del: lit_Cons)

lemma command_ok:
  assumes "lib_laws lb items ok" and "server_ok lb items ok s" and "msg_fine lb tm msg"
    and "command sj lb tm msg s = Some (r, s')" and "no_panic r"
  shows "server_ok lb items ok s'"
proof -
  note inv = cmdSET_ok [OF assms(1,2)] cmdFSET_ok [OF assms(1,2)] cmdDEL_effect(1) [OF assms(1,2)] cmdPDEL_ok [OF assms(1,2)]
    cmdDROP_effect(1) [OF assms(1,2)] cmdFLUSHDB_effect(1) [OF assms(1,2)] cmdRENAME_effect(1) [OF assms(1,2)]
    cmdDelHook_ok [OF assms(1,2)] cmdPDelHook_ok [OF assms(1,2)] cmdEXPIRE_ok [OF assms(1,2)] cmdPERSIST_ok [OF assms(1,2)]
    cmdJset_ok [OF assms(1,2,3)] cmdJdel_ok [OF assms(1,2,3)]
  have fine: "args_fine lb tm (msg_Args msg)" using assms(3) by (simp add: msg_fine_def)
  have keep: "server_ok lb items ok s'" if "(r, s') = c" "no_panic (fst c) \<Longrightarrow> server_ok lb items ok (snd c)" for c
    using that assms(5) by (cases c) simp
  from command_cases [OF assms(4)] show ?thesis
    using assms(2) fine
    by (elim disjE insertE emptyE) (simp_all add: inv keep, (metis inv(3,5-7))+)
qed

section \<open>Expiration in the background\<close>

lemma runOwn_fold:
  assumes "lib_laws lb items ok"
  shows "server_ok lb items ok s \<Longrightarrow> \<forall>m \<in> set msgs. \<exists>k i. m = [lit ''del'', k, i] \<Longrightarrow>
    \<exists>logged' s'. foldE (runOwn (cmdDEL lb) tm) msgs (logged, s) = Inr (logged', s') \<and> server_ok lb items ok s'
      \<and> map fst logged' = map fst logged @ msgs
      \<and> lookup lb s' = (\<lambda>k i. if [lit ''del'', k, i] \<in> set msgs then None else lookup lb s k i)"
proof (induction msgs arbitrary: logged s)
  case (Cons m msgs)
  then obtain k i where m: "m = [lit ''del'', k, i]" by auto
  obtain v d s1 where run: "cmdDEL lb tm (ownMessage m) s = (Inr (v, d), s1)" "server_ok lb items ok s1"
      "lookup lb s1 = (lookup lb s)(k := (lookup lb s k)(i := None))"
    unfolding m using cmdDEL_own [OF assms Cons.prems(1)] by blast
  obtain logged' s' where rest: "foldE (runOwn (cmdDEL lb) tm) msgs (logged @ [(m, d)], s1) = Inr (logged', s')"
      "server_ok lb items ok s'" "map fst logged' = map fst (logged @ [(m, d)]) @ msgs"
      "lookup lb s' = (\<lambda>k i. if [lit ''del'', k, i] \<in> set msgs then None else lookup lb s1 k i)"
    using Cons.IH [OF run(2), of "logged @ [(m, d)]"] Cons.prems(2) by auto
  have "runOwn (cmdDEL lb) tm m (logged, s) = Inr (logged @ [(m, d)], s1)" by (simp add: runOwn_def run(1))
  then have "foldE (runOwn (cmdDEL lb) tm) (m # msgs) (logged, s) = Inr (logged', s')" using rest(1) by simp
  moreover have "lookup lb s' = (\<lambda>k i. if [lit ''del'', k, i] \<in> set (m # msgs) then None else lookup lb s k i)"
    unfolding rest(4) run(3) m by (auto simp: fun_eq_iff simp del: lit_Cons)
  ultimately show ?case using rest(2,3) by (intro exI [of _ logged'] exI [of _ s']) simp
qed auto

definition expired :: "64 word \<Rightarrow> ('g, 'p) Object \<Rightarrow> bool" where
  "expired nano x \<longleftrightarrow> oexpires x \<noteq> 0 \<and> oexpires x \<le>s nano"

lemma ScanExpires_run:
  "ScanExpires tr (\<lambda>obj msgs. if P obj then (False, msgs) else (True, msgs @ [f obj])) st c
   = Inr (st @ map f (takeWhile (\<lambda>x. \<not> P x) (bg_Scan tr (co_expires c))))"
proof -
  have "walk (\<lambda>obj s. Inr (if P obj then (False, s) else (True, s @ [f obj]))) xs st
      = Inr (st @ map f (takeWhile (\<lambda>x. \<not> P x) xs))" for xs st
    by (induction xs arbitrary: st) auto
  then show ?thesis by (simp add: ScanExpires_def)
qed

lemma takeWhile_expired:
  assumes "sorted_wrt byExpires xs"
  shows "takeWhile (\<lambda>x. \<not> nano <s oexpires x) xs = filter (\<lambda>x. \<not> nano <s oexpires x) xs"
  using assms
proof (induction xs)
  case (Cons x xs)
  show ?case
  proof (cases "nano <s oexpires x")
    case True
    have "nano <s oexpires y" if "byExpires x y" for y
      using that True by (auto simp: byExpires_def word_sless_alt split: if_splits)
    then have "filter (\<lambda>x. \<not> nano <s oexpires x) xs = []" using Cons.prems by (auto simp: filter_empty_conv)
    with True show ?thesis by simp
  qed (use Cons in simp)
qed simp

text \<open>The queue of expirations of every collection is in order, as the library documents.\<close>

definition expires_sorted where
  "expires_sorted lb s \<longleftrightarrow>
     (\<forall>k col. getCol lb k s = Some col \<longrightarrow> sorted_wrt byExpires (bg_Scan (lb_tr lb) (co_expires col)))"

lemma foldE_concat: "foldE (\<lambda>x acc. Inr (acc @ f x)) xs acc = Inr (acc @ concat (map f xs))"
  by (induction xs arbitrary: acc) auto

lemma expiredArgs_exact:
  assumes "lib_laws lb items ok" and "server_ok lb items ok s" and "expires_sorted lb s"
  shows "\<exists>msgs. expiredArgs lb nano s = Inr msgs
    \<and> set msgs = {[lit ''del'', k, i] | k i x. lookup lb s k i = Some x \<and> expired nano x}"
proof -
  let ?cols = "mp_Scan (lb_mp lb) (sv_cols s)"
  let ?old = "\<lambda>col. filter (\<lambda>x. \<not> nano <s oexpires x) (bg_Scan (lb_tr lb) (co_expires col))"
  let ?f = "\<lambda>(k, col). map (\<lambda>x. [lit ''del'', k, oid x]) (takeWhile (\<lambda>x. \<not> nano <s oexpires x) (bg_Scan (lb_tr lb) (co_expires col)))"
  have cols: "(k, col) \<in> set ?cols \<longleftrightarrow> getCol lb k s = Some col" for k col
    using assms(1) map_lawsD(1,5,6) [of "lb_mp lb"] by (auto simp: lib_laws_def getCol_def)
  have "expiredArgs lb nano s = Inr (concat (map ?f ?cols))"
  proof -
    have "(\<lambda>(key, col) msgs. ScanExpires (lb_tr lb) (\<lambda>obj msgs. if nano <s oexpires obj then (False, msgs)
        else (True, msgs @ [[lit ''del'', key, oid obj]])) msgs col) = (\<lambda>x acc. Inr (acc @ ?f x))"
      by (simp add: fun_eq_iff ScanExpires_run del: lit_Cons)
    then show ?thesis unfolding expiredArgs_def by (simp only: foldE_concat append_Nil)
  qed
  moreover have sets: "set (?f (k, col)) = {[lit ''del'', k, i] | i x. stored lb col i = Some x \<and> expired nano x}"
    if "getCol lb k s = Some col" for k col
  proof -
    have ok: "coll_ok (lb_tr lb) items (lb_gl lb) col" using server_okD(1) [OF assms(2) that] by (simp add: col_ok_def)
    then have q: "set (bg_Scan (lb_tr lb) (co_expires col)) = {x \<in> ran (stored lb col). oexpires x \<noteq> 0}"
      by (simp add: coll_ok_def coll_inv_def)
    have keyed: "x \<in> ran (stored lb col) \<longleftrightarrow> stored lb col (oid x) = Some x" "stored lb col i = Some x \<Longrightarrow> oid x = i" for x i
      using ok by (auto simp: coll_ok_def ran_def)
    have "takeWhile (\<lambda>x. \<not> nano <s oexpires x) (bg_Scan (lb_tr lb) (co_expires col)) = ?old col"
      using assms(3) that by (intro takeWhile_expired) (simp add: expires_sorted_def)
    moreover have "\<not> nano <s oexpires x \<longleftrightarrow> oexpires x \<le>s nano" for x :: "('d, 'e) Object"
      by (auto simp: word_sless_alt word_sle_eq)
    ultimately have "set (?f (k, col)) = (\<lambda>x. [lit ''del'', k, oid x]) ` {x. stored lb col (oid x) = Some x \<and> expired nano x}"
      using q by (auto simp: expired_def keyed(1) simp del: lit_Cons)
    also have "\<dots> = {[lit ''del'', k, i] | i x. stored lb col i = Some x \<and> expired nano x}"
    proof (intro set_eqI iffI)
      fix m assume "m \<in> {[lit ''del'', k, i] | i x. stored lb col i = Some x \<and> expired nano x}"
      then obtain i x where *: "m = [lit ''del'', k, i]" "stored lb col i = Some x" "expired nano x" by blast
      then show "m \<in> (\<lambda>x. [lit ''del'', k, oid x]) ` {x. stored lb col (oid x) = Some x \<and> expired nano x}"
        using keyed(2) [OF *(2)] by (intro image_eqI [of _ _ x]) simp_all
    qed blast
    finally show ?thesis .
  qed
  moreover have "m \<in> set (concat (map ?f ?cols)) \<longleftrightarrow>
      m \<in> {[lit ''del'', k, i] | k i x. lookup lb s k i = Some x \<and> expired nano x}" for m
  proof -
    have look: "lookup lb s k i = Some x \<longleftrightarrow> (\<exists>col. getCol lb k s = Some col \<and> stored lb col i = Some x)" for k i x
      by (simp add: lookup_def split: option.splits)
    have "m \<in> set (concat (map ?f ?cols)) \<longleftrightarrow> (\<exists>e \<in> set ?cols. m \<in> set (?f e))" by simp
    also have "\<dots> \<longleftrightarrow> (\<exists>k col. (k, col) \<in> set ?cols \<and> m \<in> set (?f (k, col)))"
      by (simp only: Bex_def split_paired_Ex)
    also have "\<dots> \<longleftrightarrow> (\<exists>k col. getCol lb k s = Some col \<and> m \<in> {[lit ''del'', k, i] | i x. stored lb col i = Some x \<and> expired nano x})"
      unfolding cols using sets by blast
    also have "\<dots> \<longleftrightarrow> m \<in> {[lit ''del'', k, i] | k i x. lookup lb s k i = Some x \<and> expired nano x}"
      unfolding look by blast
    finally show ?thesis .
  qed
  ultimately show ?thesis by blast
qed

lemma backgroundExpireObjects_effect:
  assumes "lib_laws lb items ok" and "server_ok lb items ok s" and "expires_sorted lb s"
  shows "\<exists>logged s'. backgroundExpireObjects lb tm nano s = Inr (logged, s') \<and> server_ok lb items ok s'
    \<and> lookup lb s' = (\<lambda>k i. case lookup lb s k i of None \<Rightarrow> None | Some x \<Rightarrow> if expired nano x then None else Some x)
    \<and> set (map fst logged) = {[lit ''del'', k, i] | k i x. lookup lb s k i = Some x \<and> expired nano x}"
proof -
  obtain msgs where msgs: "expiredArgs lb nano s = Inr msgs"
      "set msgs = {[lit ''del'', k, i] | k i x. lookup lb s k i = Some x \<and> expired nano x}"
    using expiredArgs_exact [OF assms] by blast
  let ?s = "s\<lparr>sv_statsExpired := sv_statsExpired s + int (length msgs)\<rparr>"
  have form: "\<forall>m \<in> set msgs. \<exists>k i. m = [lit ''del'', k, i]" unfolding msgs(2) by blast
  obtain logged s' where run: "foldE (runOwn (cmdDEL lb) tm) msgs ([], ?s) = Inr (logged, s')" "server_ok lb items ok s'"
      "map fst logged = msgs" "lookup lb s' = (\<lambda>k i. if [lit ''del'', k, i] \<in> set msgs then None else lookup lb s k i)"
    using runOwn_fold [OF assms(1) server_ok_frame(2) [OF assms(2), of "sv_statsExpired s + int (length msgs)"] form,
        where tm = tm and logged = "[]", unfolded lookup_frame list.map append_Nil] by blast
  have "lookup lb s' = (\<lambda>k i. case lookup lb s k i of None \<Rightarrow> None | Some x \<Rightarrow> if expired nano x then None else Some x)"
    unfolding run(4) msgs(2) by (auto simp: fun_eq_iff split: option.splits simp del: lit_Cons)
  moreover have "backgroundExpireObjects lb tm nano s = Inr (logged, s')"
    using run(1) msgs(1) by (simp add: backgroundExpireObjects_def)
  moreover have "set (map fst logged) = {[lit ''del'', k, i] | k i x. lookup lb s k i = Some x \<and> expired nano x}"
    by (simp only: run(3) msgs(2))
  ultimately show ?thesis using run(2) by blast
qed

end
