(* ===== verification/Server_Log.thy ===== *)
theory Server_Log
  imports Server_Dispatch "HOL-Library.Sublist"
begin

text \<open>
  The log file of the server (\<^verbatim>\<open>internal/legacy/server/aof.go\<close>): what is appended to it and how it is loaded.  The package \<^verbatim>\<open>redcon\<close>, which
  writes and reads commands as bytes, is not part of the sources: the record \<open>redcon_lib\<close> holds what the server calls.
\<close>

section \<open>Writing\<close>

text \<open>\<open>ReadNextCommand\<close> returns whether there is a complete command, its arguments and what is left of the data.\<close>

record redcon_lib =
  rc_AppendArray :: "byte list \<Rightarrow> nat \<Rightarrow> byte list"
  rc_AppendBulkString :: "byte list \<Rightarrow> gostring \<Rightarrow> byte list"
  rc_ReadNextCommand :: "byte list \<Rightarrow> gostring + (bool \<times> gostring list \<times> byte list)"

record aof =
  aof_file :: "byte list option"
  aof_buf :: "byte list"
  aof_sz :: int
  aof_shrinking :: bool
  aof_shrinklog :: "gostring list list"

definition appendCommand :: "redcon_lib \<Rightarrow> byte list \<Rightarrow> gostring list \<Rightarrow> byte list" where
  "appendCommand rc buf args = fold (\<lambda>arg buf. rc_AppendBulkString rc buf arg) args (rc_AppendArray rc buf (length args))"

text \<open>
  \<open>writeAOF\<close> up to the size of the file; what it then queues for webhooks and live fences does not touch the log.
\<close>

definition writeAOF :: "redcon_lib \<Rightarrow> gostring list \<Rightarrow> 'o details option \<Rightarrow> aof \<Rightarrow> aof" where
  "writeAOF rc args d a =
     (if (case d of None \<Rightarrow> False | Some d \<Rightarrow> \<not> d_updated d) then a
      else
        let a1 = (if aof_shrinking a then a\<lparr>aof_shrinklog := aof_shrinklog a @ [args]\<rparr> else a) in
        case aof_file a1 of
          None \<Rightarrow> a1
        | Some _ \<Rightarrow>
            let n = length (aof_buf a1); buf = appendCommand rc (aof_buf a1) args
            in a1\<lparr>aof_buf := buf, aof_sz := aof_sz a1 + (int (length buf) - int n)\<rparr>)"

text \<open>The file never refuses the write, which would end the process.\<close>

definition flushAOF :: "aof \<Rightarrow> aof" where
  "flushAOF a =
     (if aof_buf a = [] then a
      else a\<lparr>aof_file := map_option (\<lambda>f. f @ aof_buf a) (aof_file a), aof_buf := []\<rparr>)"

section \<open>Loading\<close>

datatype load_error = LoadRead gostring | LoadCommand cmd_error | NotModelled

definition commandErrIsFatal :: "cmd_error \<Rightarrow> bool" where
  "commandErrIsFatal err \<longleftrightarrow> \<not> (err = ErrKeyNotFound \<or> err = ErrIDNotFound)"

text \<open>
  The commands in the data read so far. \<open>run\<close> is the dispatcher at the time of the command with the given number; the value \<open>None\<close> stands
  for a loop that does not end.
\<close>

partial_function (option) loadCommands ::
  "redcon_lib \<Rightarrow> (nat \<Rightarrow> Message \<Rightarrow> 's \<Rightarrow> ((cmd_error + 'v) \<times> 's) option) \<Rightarrow> byte list \<Rightarrow> nat \<Rightarrow> 's
     \<Rightarrow> (load_error + (byte list \<times> nat \<times> 's)) option" where
  "loadCommands rc run data n s =
     (if data \<noteq> [] \<and> hd data = 0 then loadCommands rc run (tl data) n s
      else case rc_ReadNextCommand rc data of
        Inl e \<Rightarrow> Some (Inl (LoadRead e))
      | Inr (complete, args, rest) \<Rightarrow>
          if \<not> complete then Some (Inr (rest, n, s))
          else if args = [] then loadCommands rc run rest n s
          else case run n (ownMessage args) s of
            None \<Rightarrow> Some (Inl NotModelled)
          | Some (r, s') \<Rightarrow>
              (case r of
                 Inl e \<Rightarrow>
                   if commandErrIsFatal e then Some (Inl (LoadCommand e)) else loadCommands rc run rest (n + 1) s'
               | Inr v \<Rightarrow> loadCommands rc run rest (n + 1) s'))"

declare loadCommands.simps [code]

text \<open>The packets are what the reads of the file return, one after the other, until its end.\<close>

fun loadPackets where
  "loadPackets rc run [] buf sz n s = Some (Inr (buf, sz, n, s))"
| "loadPackets rc run (p # ps) buf sz n s =
     (let data = (if buf \<noteq> [] then buf @ p else p) in
      case loadCommands rc run data n s of
        None \<Rightarrow> None
      | Some (Inl e) \<Rightarrow> Some (Inl e)
      | Some (Inr (rest, n', s')) \<Rightarrow> loadPackets rc run ps rest (sz + int (length p)) n' s')"

definition loadAOF where
  "loadAOF rc run packets a s =
     (case loadPackets rc run packets [] (aof_sz a) 0 s of
        None \<Rightarrow> None
      | Some (Inl e) \<Rightarrow> Some (Inl e)
      | Some (Inr (buf, sz, n, s')) \<Rightarrow>
          if buf \<noteq> []
          then let sz' = sz - int (length buf)
               in Some (Inr (a\<lparr>aof_sz := sz', aof_file := map_option (take (nat sz')) (aof_file a)\<rparr>, n, s'))
          else Some (Inr (a\<lparr>aof_sz := sz\<rparr>, n, s')))"

section \<open>What the package promises\<close>

text \<open>
  A command is appended behind what is there and starts with a byte that is not zero; it is read back together with what follows it;
  and a part of a command is not complete and is left as it is.
\<close>

definition encoded :: "redcon_lib \<Rightarrow> gostring list \<Rightarrow> byte list" where
  "encoded rc args = appendCommand rc [] args"

definition redcon_laws :: "redcon_lib \<Rightarrow> bool" where
  "redcon_laws rc \<longleftrightarrow>
     (\<forall>buf n. rc_AppendArray rc buf n = buf @ rc_AppendArray rc [] n) \<and>
     (\<forall>buf arg. rc_AppendBulkString rc buf arg = buf @ rc_AppendBulkString rc [] arg) \<and>
     (\<forall>n. rc_AppendArray rc [] n \<noteq> [] \<and> hd (rc_AppendArray rc [] n) \<noteq> 0) \<and>
     (\<forall>args rest. args \<noteq> [] \<longrightarrow> rc_ReadNextCommand rc (encoded rc args @ rest) = Inr (True, args, rest)) \<and>
     (\<forall>args part. args \<noteq> [] \<and> strict_prefix part (encoded rc args) \<longrightarrow> rc_ReadNextCommand rc part = Inr (False, [], part))"

lemma redcon_lawsD:
  assumes "redcon_laws rc"
  shows "rc_AppendArray rc buf n = buf @ rc_AppendArray rc [] n"
    and "rc_AppendBulkString rc buf arg = buf @ rc_AppendBulkString rc [] arg"
    and "rc_AppendArray rc [] n \<noteq> []" and "hd (rc_AppendArray rc [] n) \<noteq> 0"
    and "args \<noteq> [] \<Longrightarrow> rc_ReadNextCommand rc (encoded rc args @ rest) = Inr (True, args, rest)"
    and "args \<noteq> [] \<Longrightarrow> strict_prefix part (encoded rc args) \<Longrightarrow> rc_ReadNextCommand rc part = Inr (False, [], part)"
proof -
  note laws = assms [unfolded redcon_laws_def]
  show "rc_AppendArray rc buf n = buf @ rc_AppendArray rc [] n" by (rule laws [THEN conjunct1, rule_format])
  show "rc_AppendBulkString rc buf arg = buf @ rc_AppendBulkString rc [] arg"
    by (rule laws [THEN conjunct2, THEN conjunct1, rule_format])
  note laws = laws [THEN conjunct2, THEN conjunct2]
  show "rc_AppendArray rc [] n \<noteq> []" "hd (rc_AppendArray rc [] n) \<noteq> 0" using laws [THEN conjunct1] by simp_all
  show "args \<noteq> [] \<Longrightarrow> rc_ReadNextCommand rc (encoded rc args @ rest) = Inr (True, args, rest)"
    by (rule laws [THEN conjunct2, THEN conjunct1, rule_format])
  show "args \<noteq> [] \<Longrightarrow> strict_prefix part (encoded rc args) \<Longrightarrow> rc_ReadNextCommand rc part = Inr (False, [], part)"
    by (rule laws [THEN conjunct2, THEN conjunct2, rule_format]) simp
qed

lemma appendCommand_append:
  assumes "redcon_laws rc"
  shows "appendCommand rc buf args = buf @ encoded rc args"
proof -
  note laws = redcon_lawsD(1,2) [OF assms]
  have "fold (\<lambda>arg buf. rc_AppendBulkString rc buf arg) args (b @ c)
      = b @ fold (\<lambda>arg buf. rc_AppendBulkString rc buf arg) args c" for b c
  proof (induction args arbitrary: c)
    case (Cons a args)
    have "rc_AppendBulkString rc (b @ c) a = b @ rc_AppendBulkString rc c a"
      by (simp only: laws(2) [of "b @ c"] laws(2) [of c] append_assoc)
    then show ?case by (simp only: fold_simps Cons)
  qed simp
  then show ?thesis by (simp only: appendCommand_def encoded_def laws(1) [of buf])
qed

lemma encoded_start:
  assumes "redcon_laws rc"
  shows "encoded rc args \<noteq> []" and "hd (encoded rc args) \<noteq> 0"
proof -
  have "fold (\<lambda>arg buf. rc_AppendBulkString rc buf arg) args c \<noteq> []
      \<and> hd (fold (\<lambda>arg buf. rc_AppendBulkString rc buf arg) args c) = hd c" if "c \<noteq> []" for c
    using that
  proof (induction args arbitrary: c)
    case (Cons a args)
    from Cons redcon_lawsD(2) [OF assms, of c a] show ?case by simp
  qed simp
  with redcon_lawsD(3,4) [OF assms, of "length args"] show "encoded rc args \<noteq> []" "hd (encoded rc args) \<noteq> 0"
    by (simp_all add: encoded_def appendCommand_def)
qed

section \<open>Loading what was written\<close>

text \<open>The commands one after the other, without files and packets.\<close>

fun replay ::
  "(nat \<Rightarrow> Message \<Rightarrow> 's \<Rightarrow> ((cmd_error + 'v) \<times> 's) option) \<Rightarrow> nat \<Rightarrow> gostring list list \<Rightarrow> 's \<Rightarrow> load_error + 's" where
  "replay run n [] s = Inr s"
| "replay run n (args # log) s =
     (case run n (ownMessage args) s of
        None \<Rightarrow> Inl NotModelled
      | Some (Inl e, s') \<Rightarrow> if commandErrIsFatal e then Inl (LoadCommand e) else replay run (n + 1) log s'
      | Some (Inr v, s') \<Rightarrow> replay run (n + 1) log s')"

text \<open>\<open>data\<close> is the start of the bytes of the commands: \<open>k\<close> of them are complete and \<open>rest\<close> is left over.\<close>

definition cutting where
  "cutting rc log data k rest \<longleftrightarrow>
     k \<le> length log \<and> data = concat (map (encoded rc) (take k log)) @ rest
     \<and> (if k = length log then rest = [] else strict_prefix rest (encoded rc (log ! k)))"

lemma loadCommands_incomplete:
  assumes "redcon_laws rc" and "args \<noteq> []" and "strict_prefix data (encoded rc args)"
  shows "loadCommands rc run data n s = Some (Inr (data, n, s))"
proof -
  have "\<not> (data \<noteq> [] \<and> hd data = 0)"
    using assms(3) encoded_start(2) [OF assms(1), of args] by (auto simp: strict_prefix_def prefix_def)
  with redcon_lawsD(6) [OF assms] show ?thesis by (subst loadCommands.simps) auto
qed

lemma loadCommands_complete:
  assumes "redcon_laws rc" and "args \<noteq> []"
  shows "loadCommands rc run (encoded rc args @ data) n s =
    (case run n (ownMessage args) s of
       None \<Rightarrow> Some (Inl NotModelled)
     | Some (Inl e, s') \<Rightarrow> if commandErrIsFatal e then Some (Inl (LoadCommand e)) else loadCommands rc run data (n + 1) s'
     | Some (Inr v, s') \<Rightarrow> loadCommands rc run data (n + 1) s')"
proof -
  note start = encoded_start [OF assms(1), of args] and read = redcon_lawsD(5) [OF assms, of data]
  show ?thesis
  proof (cases "run n (ownMessage args) s")
    case (Some p)
    then show ?thesis using start read assms(2) by (cases "fst p"; cases p) (simp_all add: loadCommands.simps [of rc run "encoded rc args @ data"])
  qed (use start read assms(2) in \<open>simp add: loadCommands.simps [of rc run "encoded rc args @ data"]\<close>)
qed

lemma cut_exists:
  "prefix data (concat (map (encoded rc) log)) \<Longrightarrow> \<exists>k rest. cutting rc log data k rest"
proof (induction log arbitrary: data)
  case Nil
  then show ?case by (intro exI [of _ 0] exI [of _ "[]"]) (simp add: cutting_def)
next
  case (Cons args log)
  have "prefix (encoded rc args) data \<or> strict_prefix data (encoded rc args)"
    using Cons.prems prefix_same_cases [of data "concat (map (encoded rc) (args # log))" "encoded rc args"]
    by (auto simp: strict_prefix_def)
  then consider "strict_prefix data (encoded rc args)" | data' where "data = encoded rc args @ data'"
    by (auto simp: prefix_def)
  then show ?case
  proof cases
    case 1
    then show ?thesis by (intro exI [of _ 0] exI [of _ data]) (simp add: cutting_def)
  next
    case 2
    then obtain k rest where "cutting rc log data' k rest" using Cons.IH [of data'] Cons.prems by auto
    then show ?thesis by (intro exI [of _ "Suc k"] exI [of _ rest]) (simp add: 2 cutting_def)
  qed
qed

lemma loadCommands_replay:
  assumes "redcon_laws rc" and "cutting rc log data k rest" and "[] \<notin> set log"
  shows "loadCommands rc run data n s =
    Some (case replay run n (take k log) s of Inl e \<Rightarrow> Inl e | Inr s' \<Rightarrow> Inr (rest, n + k, s'))"
  using assms(2,3)
proof (induction k arbitrary: log data n s)
  case 0
  have "strict_prefix [] (encoded rc [[]])" using encoded_start(1) [OF assms(1), of "[[]]"] by (auto simp: strict_prefix_def)
  with 0 loadCommands_incomplete [OF assms(1), of "[[]]" "[]" run n s] loadCommands_incomplete [OF assms(1), of "log ! 0" data run n s]
  show ?case by (cases log) (auto simp: cutting_def)
next
  case (Suc k)
  then obtain args log' where log: "log = args # log'" by (cases log) (auto simp: cutting_def)
  define data' where "data' = concat (map (encoded rc) (take k log')) @ rest"
  have "cutting rc log' data' k rest" and data: "data = encoded rc args @ data'"
    using Suc.prems(1) by (auto simp: cutting_def log data'_def)
  then have IH: "loadCommands rc run data' m t =
      Some (case replay run m (take k log') t of Inl e \<Rightarrow> Inl e | Inr s' \<Rightarrow> Inr (rest, m + k, s'))" for m t
    using Suc.IH Suc.prems(2) log by simp
  have "args \<noteq> []" using Suc.prems(2) log by auto
  then have step: "loadCommands rc run data n s = (case run n (ownMessage args) s of
       None \<Rightarrow> Some (Inl NotModelled)
     | Some (Inl e, s') \<Rightarrow> if commandErrIsFatal e then Some (Inl (LoadCommand e)) else loadCommands rc run data' (n + 1) s'
     | Some (Inr v, s') \<Rightarrow> loadCommands rc run data' (n + 1) s')"
    unfolding data by (rule loadCommands_complete [OF assms(1)])
  show ?case
  proof (cases "run n (ownMessage args) s")
    case (Some p)
    then show ?thesis by (cases "fst p"; cases p) (simp_all add: step log IH cong: sum.case_cong)
  qed (simp add: step log)
qed

lemma replay_append:
  "replay run n (xs @ ys) s = (case replay run n xs s of Inl e \<Rightarrow> Inl e | Inr s' \<Rightarrow> replay run (n + length xs) ys s')"
proof (induction xs arbitrary: n s)
  case (Cons args xs)
  show ?case
  proof (cases "run n (ownMessage args) s")
    case (Some p)
    then show ?thesis by (cases "fst p"; cases p) (simp_all add: Cons cong: sum.case_cong)
  qed simp
qed simp

text \<open>A buffer that holds no complete command.\<close>

lemma concat_take_drop: "concat (map f log) = concat (map f (take k log)) @ concat (map f (drop k log))"
  by (metis append_take_drop_id concat_append map_append)

lemma cutting_more:
  assumes "cutting rc log data k rest" and "prefix (data @ extra) (concat (map (encoded rc) log))"
  shows "prefix (rest @ extra) (concat (map (encoded rc) (drop k log)))"
  using assms concat_take_drop [of "encoded rc" log k] by (simp add: cutting_def)

lemma cutting_trans:
  assumes "cutting rc log data k rest" and "cutting rc (drop k log) (rest @ extra) j rest'"
  shows "cutting rc log (data @ extra) (k + j) rest'"
proof -
  have "take (k + j) log = take k log @ take j (drop k log)" by (rule take_add)
  moreover have "k \<le> length log" "k + j \<le> length log" "k + j = length log \<longleftrightarrow> j = length (drop k log)"
    using assms by (auto simp: cutting_def)
  moreover from this(1) have "j \<noteq> length (drop k log) \<Longrightarrow> strict_prefix rest' (encoded rc (log ! (k + j)))"
    using assms(2) by (simp add: cutting_def)
  ultimately show ?thesis using assms unfolding cutting_def by simp
qed

lemma cutting_rest: "cutting rc log data k rest \<Longrightarrow> cutting rc (drop k log) rest 0 rest"
  by (auto simp: cutting_def split: if_splits)

lemma loadPackets_replay:
  assumes "redcon_laws rc" and "cutting rc log buf 0 buf"
    and "prefix (buf @ concat packets) (concat (map (encoded rc) log))" and "[] \<notin> set log"
  shows "\<exists>k rest. cutting rc log (buf @ concat packets) k rest \<and> loadPackets rc run packets buf sz n s =
    Some (case replay run n (take k log) s of
      Inl e \<Rightarrow> Inl e | Inr s' \<Rightarrow> Inr (rest, sz + int (length (concat packets)), n + k, s'))"
  using assms(2-)
proof (induction packets arbitrary: log buf sz n s)
  case Nil
  then show ?case by (intro exI [of _ 0] exI [of _ buf]) simp
next
  case (Cons p ps)
  have "(if buf \<noteq> [] then buf @ p else p) = buf @ p" by simp
  then have step: "loadPackets rc run (p # ps) buf sz n s = (case loadCommands rc run (buf @ p) n s of
        None \<Rightarrow> None
      | Some (Inl e) \<Rightarrow> Some (Inl e)
      | Some (Inr (rest, n', s')) \<Rightarrow> loadPackets rc run ps rest (sz + int (length p)) n' s')"
    by (simp only: loadPackets.simps Let_def)
  have pre: "prefix ((buf @ p) @ concat ps) (concat (map (encoded rc) log))" using Cons.prems(2) by simp
  obtain j rest1 where cut1: "cutting rc log (buf @ p) j rest1" using cut_exists [OF append_prefixD [OF pre]] by blast
  have "[] \<notin> set (drop j log)" using Cons.prems(3) set_drop_subset by fastforce
  note IH = Cons.IH [OF cutting_rest [OF cut1] cutting_more [OF cut1 pre] this, where n = "n + j" and sz = "sz + int (length p)",
      unfolded add.assoc of_nat_add [symmetric] length_append [symmetric] concat.simps(2) [of p ps, symmetric]]
  note load = loadCommands_replay [OF assms(1) cut1 Cons.prems(3), of run n s]
  show ?case
  proof (cases "replay run n (take j log) s")
    case (Inl e)
    obtain k rest where "cutting rc (drop j log) (rest1 @ concat ps) k rest" using IH by blast
    moreover have "replay run n (take (j + k) log) s = Inl e" by (simp add: take_add replay_append Inl)
    ultimately show ?thesis
      using cutting_trans [OF cut1, of "concat ps" k rest] load Inl unfolding step by (intro exI [of _ "j + k"] exI [of _ rest]) simp
  next
    case (Inr s1)
    obtain k rest where rest: "cutting rc (drop j log) (rest1 @ concat ps) k rest"
        "loadPackets rc run ps rest1 (sz + int (length p)) (n + j) s1 = Some (case replay run (n + j) (take k (drop j log)) s1 of
          Inl e \<Rightarrow> Inl e | Inr s' \<Rightarrow> Inr (rest, sz + int (length (concat (p # ps))), n + (j + k), s'))"
      using IH by blast
    have "replay run n (take (j + k) log) s = replay run (n + j) (take k (drop j log)) s1"
      using cut1 by (simp add: take_add replay_append Inr cutting_def min_def)
    with rest cutting_trans [OF cut1 rest(1)] load Inr show ?thesis
      unfolding step by (intro exI [of _ "j + k"] exI [of _ rest]) simp
  qed
qed

text \<open>
  The file is the start of what was written. Loading it runs the commands that are complete, and truncates the file behind the last one.
\<close>

lemma loadAOF_replay:
  assumes "redcon_laws rc" and "prefix (concat packets) (concat (map (encoded rc) log))" and "[] \<notin> set log"
    and "aof_file a = Some (concat packets)" and "aof_sz a = 0"
  shows "\<exists>k. k \<le> length log \<and> (concat packets = concat (map (encoded rc) log) \<longrightarrow> k = length log) \<and> loadAOF rc run packets a s =
    Some (case replay run 0 (take k log) s of
      Inl e \<Rightarrow> Inl e
    | Inr s' \<Rightarrow> let bytes = concat (map (encoded rc) (take k log))
               in Inr (a\<lparr>aof_file := Some bytes, aof_sz := int (length bytes)\<rparr>, k, s'))"
proof -
  have "cutting rc log [] 0 []" using encoded_start(1) [OF assms(1), of "log ! 0"] by (auto simp: cutting_def strict_prefix_def)
  then obtain k rest where cut1: "cutting rc log (concat packets) k rest" and load: "loadPackets rc run packets [] 0 0 s =
    Some (case replay run 0 (take k log) s of
      Inl e \<Rightarrow> Inl e | Inr s' \<Rightarrow> Inr (rest, int (length (concat packets)), k, s'))"
    using loadPackets_replay [OF assms(1) _ _ assms(3), of "[]" packets run 0 0 s, unfolded append_Nil add_0] assms(2) by blast
  have bytes: "concat packets = concat (map (encoded rc) (take k log)) @ rest" and k: "k \<le> length log"
    using cut1 by (simp_all add: cutting_def)
  have full: "k = length log" if "concat packets = concat (map (encoded rc) log)"
  proof (rule ccontr)
    assume "k \<noteq> length log"
    then have "strict_prefix rest (encoded rc (log ! k))" "drop k log = log ! k # drop (Suc k) log"
      using cut1 k by (auto simp: cutting_def Cons_nth_drop_Suc)
    moreover have "rest = concat (map (encoded rc) (drop k log))"
      using that bytes concat_take_drop [of "encoded rc" log k] by simp
    ultimately show False by (auto simp: strict_prefix_def prefix_def)
  qed
  have "loadAOF rc run packets a s = Some (case replay run 0 (take k log) s of
      Inl e \<Rightarrow> Inl e
    | Inr s' \<Rightarrow> let bytes = concat (map (encoded rc) (take k log))
               in Inr (a\<lparr>aof_file := Some bytes, aof_sz := int (length bytes)\<rparr>, k, s'))"
  proof (cases "replay run 0 (take k log) s")
    case (Inr s')
    define X where "X = concat (map (encoded rc) (take k log))"
    have "concat packets = X @ rest" using bytes by (simp add: X_def)
    with Inr load assms(4,5) show ?thesis unfolding X_def [symmetric] by (cases a) (simp add: loadAOF_def Let_def)
  qed (use load assms(5) in \<open>simp add: loadAOF_def\<close>)
  with full k show ?thesis by (intro exI [of _ k] conjI impI)
qed

end
