(* ===== verification/Server_Replay.thy ===== *)
theory Server_Replay
  imports Server_Reach Server_Log
begin

text \<open>
  A command of the log, run again: two servers with the same contents, one of which runs a command of a client while the other runs what that command
  left in the log, at another time, have the same contents afterwards.  Expirations are not part of the contents: the log
  holds durations, which count from the time of the replay.
\<close>

section \<open>The same contents\<close>

definition shown where
  "shown lb x = (ogeom (lb_gl lb) x, Object_Fields x)"

definition contents where
  "contents lb s k i = map_option (shown lb) (lookup lb s k i)"

definition same where
  "same lb items ok s s' \<longleftrightarrow>
     server_ok lb items ok s \<and> server_ok lb items ok s' \<and> \<not> outOfMemory s' \<and>
     contents lb s = contents lb s' \<and> sv_hooks s = sv_hooks s' \<and> sv_tab s = sv_tab s'"

text \<open>What no command on objects touches.\<close>

definition kept where
  "kept s t \<longleftrightarrow> sv_hooks t = sv_hooks s \<and> sv_maxMemory t = sv_maxMemory s \<and> sv_outOfMemory t = sv_outOfMemory s"

definition updated :: "cmd_error + ('v \<times> 'o details) \<Rightarrow> bool" where
  "updated r = (case r of Inl e \<Rightarrow> False | Inr (v, d) \<Rightarrow> d_updated d)"

text \<open>The second server is where it should be after the command \<open>cmd\<close> with the result \<open>r\<close> left the first one in \<open>t\<close>.\<close>

definition replays where
  "replays lb items ok cmd args r t s' \<longleftrightarrow>
     (if updated r then (\<forall>tm. \<exists>v d t'. cmd tm (ownMessage args) s' = (Inr (v, d), t') \<and> same lb items ok t t')
      else same lb items ok t s')"

lemma contents_eq: "lookup lb s = lookup lb t \<Longrightarrow> contents lb s = contents lb t"
  by (simp add: contents_def fun_eq_iff)

lemma contents_upd:
  "lookup lb t = (lookup lb s)(k := (lookup lb s k)(i := x)) \<Longrightarrow>
   contents lb t = (contents lb s)(k := (contents lb s k)(i := map_option (shown lb) x))"
  by (simp add: contents_def fun_eq_iff)

lemma contents_key:
  "lookup lb t = (lookup lb s)(k := m) \<Longrightarrow> contents lb t = (contents lb s)(k := (\<lambda>i. map_option (shown lb) (m i)))"
  by (simp add: contents_def fun_eq_iff)

lemma sameD:
  assumes "same lb items ok s s'"
  shows "server_ok lb items ok s" and "server_ok lb items ok s'" and "contents lb s = contents lb s'"
    and "sv_hooks s = sv_hooks s'" and "sv_tab s = sv_tab s'" and "\<not> outOfMemory s'"
  using assms by (simp_all add: same_def)

lemma same_lookup:
  assumes "same lb items ok s s'"
  shows "lookup lb s k i = None \<longleftrightarrow> lookup lb s' k i = None"
    and "lookup lb s k i = Some x \<Longrightarrow> \<exists>x'. lookup lb s' k i = Some x' \<and> shown lb x' = shown lb x"
    and "lookup lb s k = Map.empty \<longleftrightarrow> lookup lb s' k = Map.empty"
proof -
  have eq: "map_option (shown lb) (lookup lb s k i) = map_option (shown lb) (lookup lb s' k i)" for k i
    using sameD(3) [OF assms] by (simp add: contents_def fun_eq_iff)
  show none: "lookup lb s k i = None \<longleftrightarrow> lookup lb s' k i = None" for k i
    using eq [of k i] by (cases "lookup lb s k i"; cases "lookup lb s' k i") simp_all
  show "lookup lb s k i = Some x \<Longrightarrow> \<exists>x'. lookup lb s' k i = Some x' \<and> shown lb x' = shown lb x"
    using eq [of k i] by (cases "lookup lb s' k i") simp_all
  show "lookup lb s k = Map.empty \<longleftrightarrow> lookup lb s' k = Map.empty" using none by (simp add: fun_eq_iff)
qed

lemma same_dom: "same lb items ok s s' \<Longrightarrow> dom (lookup lb s k) = dom (lookup lb s' k)"
  using same_lookup(1) [of lb items ok s s' k] by (simp add: dom_def)

lemma same_getCol:
  assumes "lib_laws lb items ok" and "same lb items ok s s'"
  shows "getCol lb k s = None \<longleftrightarrow> getCol lb k s' = None"
  using same_lookup(3) [OF assms(2), of k] getCol_iff [OF assms(1) sameD(1) [OF assms(2)], of k]
    getCol_iff [OF assms(1) sameD(2) [OF assms(2)], of k] by simp

lemma kept_memory: "kept s t \<Longrightarrow> outOfMemory t = outOfMemory s"
  by (simp add: kept_def outOfMemory_def)

text \<open>The first server moves without a trace, or both move alike.\<close>

lemma same_left:
  assumes "same lb items ok s s'" and "server_ok lb items ok t" and "contents lb t = contents lb s" and "kept s t" and "sv_tab t = sv_tab s"
  shows "same lb items ok t s'"
  using assms by (simp add: same_def kept_def)

lemma same_both:
  assumes "same lb items ok s s'" and "server_ok lb items ok t" and "server_ok lb items ok t'"
    and "contents lb t = contents lb t'" and "kept s t" and "kept s' t'" and "sv_tab t = sv_tab t'"
  shows "same lb items ok t t'"
  using assms kept_memory [OF assms(6)] by (simp add: same_def kept_def)

lemma replaysI:
  assumes "same lb items ok s s'" and "server_ok lb items ok t" and "kept s t"
    and "\<not> updated r \<Longrightarrow> contents lb t = contents lb s \<and> sv_tab t = sv_tab s"
    and "\<And>tm'. updated r \<Longrightarrow> \<exists>v d t'. cmd tm' (ownMessage args) s' = (Inr (v, d), t') \<and> server_ok lb items ok t'
      \<and> contents lb t = contents lb t' \<and> kept s' t' \<and> sv_tab t = sv_tab t'"
  shows "replays lb items ok cmd args r t s'"
proof (cases "updated r")
  case True
  have "\<exists>v d t'. cmd tm' (ownMessage args) s' = (Inr (v, d), t') \<and> same lb items ok t t'" for tm'
    using assms(5) [OF True, of tm'] same_both [OF assms(1,2) _ _ assms(3)] by blast
  with True show ?thesis by (simp add: replays_def)
qed (use assms(4) same_left [OF assms(1,2) _ assms(3)] in \<open>simp add: replays_def\<close>)

lemma updated_simps [simp]: "updated (Inl e) = False" "updated (Inr (v, d)) = d_updated d"
  by (simp_all add: updated_def)

lemma not_updated_bindE [simp]: "\<not> d_updated d \<Longrightarrow> \<not> updated (bindE x (\<lambda>res. Inr (res, d)))"
  by (cases x) simp_all

lemma kept_simps [simp]:
  "kept s (putCol lb k col t) = kept s t" "kept s (delCol lb k t) = kept s t" "kept s (dropIfEmpty lb k col t) = kept s t"
  "kept s1 (disconnectObject lb1 k i t1) = kept s1 t1" "kept s2 (disconnectCollection lb2 k t2) = kept s2 t2"
  "kept s3 (t3\<lparr>sv_tab := tab\<rparr>) = kept s3 t3" "kept s s"
  by (simp_all add: kept_def putCol_def delCol_def dropIfEmpty_def disconnectObject_def disconnectCollection_def)

lemma tab_simps [simp]:
  "sv_tab (putCol lb k col t) = sv_tab t" "sv_tab (delCol lb k t) = sv_tab t" "sv_tab (dropIfEmpty lb k col t) = sv_tab t"
  "sv_tab (disconnectObject lb1 k i t1) = sv_tab t1" "sv_tab (disconnectCollection lb2 k t2) = sv_tab t2"
  by (simp_all add: putCol_def delCol_def dropIfEmpty_def disconnectObject_def disconnectCollection_def)

lemma not_updated_cases:
  assumes "\<not> updated r" and "\<And>e. r = Inl e \<Longrightarrow> P" and "\<And>v d. r = Inr (v, d) \<Longrightarrow> \<not> d_updated d \<Longrightarrow> P"
  shows P
  using assms by (cases r) auto

section \<open>\<^verbatim>\<open>DEL\<close>, \<^verbatim>\<open>PDEL\<close>, \<^verbatim>\<open>DROP\<close>, \<^verbatim>\<open>RENAME\<close>\<close>

lemma cmdDEL_kept:
  assumes "cmdDEL lb tm msg s = (r, t)"
  shows "kept s t" and "sv_tab t = sv_tab s"
  using assms by (auto simp: cmdDEL_def Let_def split: list.splits sum.splits option.splits prod.splits if_splits)

lemma cmdDEL_again:
  assumes "lib_laws lb items ok" and "server_ok lb items ok s'" and "cmdDEL lb tm msg s = (Inr (v, d), t)"
    and "lookup lb s' (msg_Args msg ! 1) (msg_Args msg ! 2) \<noteq> None"
  shows "\<exists>v d t'. cmdDEL lb tm' (ownMessage (msg_Args msg)) s' = (Inr (v, d), t')"
proof -
  obtain c key ident opts e where args: "msg_Args msg = c # key # ident # opts" "delArgs opts False = Inr e"
    using assms(3) by (auto simp: cmdDEL_def split: list.splits sum.splits)
  obtain col x where col: "getCol lb key s' = Some col" "stored lb col ident = Some x"
    using assms(4) by (auto simp: args(1) lookup_def split: option.splits)
  obtain old col' where del: "Collection_Delete (lb_tr lb) (lb_gl lb) ident col = (old, col')" by fastforce
  have "old = Some x" using col_ok_Delete(1) [OF assms(1) server_okD(1) [OF assms(2) col(1)] del] col(2) by simp
  with args col del show ?thesis by (simp add: cmdDEL_def ownMessage_def Let_def)
qed

lemma cmdDEL_replays:
  assumes "lib_laws lb items ok" and "same lb items ok s s'" and "cmdDEL lb tm msg s = (r, t)"
  shows "replays lb items ok (cmdDEL lb) (msg_Args msg) r t s'"
proof -
  let ?k = "msg_Args msg ! 1" and ?i = "msg_Args msg ! 2"
  note ok = sameD(1,2) [OF assms(2)] and eff = cmdDEL_effect [OF assms(1) sameD(1) [OF assms(2)] assms(3)]
  show ?thesis
  proof (rule replaysI [OF assms(2) eff(1) cmdDEL_kept(1) [OF assms(3)]])
    assume "\<not> updated r"
    then have "lookup lb t = lookup lb s" by (rule not_updated_cases) (simp_all add: eff(2,3) fun_upd_idem)
    with cmdDEL_kept(2) [OF assms(3)] show "contents lb t = contents lb s \<and> sv_tab t = sv_tab s" by (intro conjI contents_eq)
  next
    fix tm'
    assume "updated r"
    then obtain v d where r: "r = Inr (v, d)" "d_updated d" by (cases r) auto
    note eff3 = eff(3) [OF r(1)]
    then have "lookup lb s' ?k ?i \<noteq> None" using r(2) same_lookup(1) [OF assms(2), of ?k ?i] by auto
    then obtain v' d' t' where run: "cmdDEL lb tm' (ownMessage (msg_Args msg)) s' = (Inr (v', d'), t')"
      using cmdDEL_again [OF assms(1) ok(2) assms(3) [unfolded r(1)]] by blast
    note eff' = cmdDEL_effect(1,3) [OF assms(1) ok(2) run]
    have "contents lb t = contents lb t'"
      using contents_upd [of lb t s ?k ?i None] contents_upd [of lb t' s' ?k ?i None] eff3 eff'(2) sameD(3) [OF assms(2)]
      by (simp add: ownMessage_def)
    with run eff'(1) cmdDEL_kept [OF assms(3)] cmdDEL_kept [OF run] sameD(5) [OF assms(2)]
    show "\<exists>v d t'. cmdDEL lb tm' (ownMessage (msg_Args msg)) s' = (Inr (v, d), t') \<and> server_ok lb items ok t'
      \<and> contents lb t = contents lb t' \<and> kept s' t' \<and> sv_tab t = sv_tab t'" by auto
  qed
qed

lemma pdelStep_kept: "kept s0 s \<Longrightarrow> kept s0 (snd (snd (fold (pdelStep lb tm key) ids (col, ch, s))))
    \<and> sv_tab (snd (snd (fold (pdelStep lb tm key) ids (col, ch, s)))) = sv_tab s"
proof (induction ids arbitrary: col ch s)
  case (Cons i ids)
  obtain old col' where "Collection_Delete (lb_tr lb) (lb_gl lb) i col = (old, col')" by fastforce
  then obtain ch' where "pdelStep lb tm key i (col, ch, s) = (col', ch', disconnectObject lb key i s)"
    by (simp add: pdelStep_def)
  with Cons.IH [of "disconnectObject lb key i s" col' ch'] Cons.prems show ?case by simp
qed simp

lemma cmdPDEL_kept:
  assumes "cmdPDEL lb tm msg s = (r, t)"
  shows "kept s t" and "sv_tab t = sv_tab s"
proof -
  have "kept s t \<and> sv_tab t = sv_tab s"
    using assms pdelStep_kept [of s s lb tm "msg_Args msg ! 1"]
    by (auto simp: cmdPDEL_def Let_def case_prod_beta split: list.splits sum.splits option.splits)
  then show "kept s t" "sv_tab t = sv_tab s" by simp_all
qed

text \<open>A server without a collection of \<open>2\<^sup>6\<^sup>4\<close> objects.\<close>

definition fits_memory where
  "fits_memory lb s \<longleftrightarrow> (\<forall>key col. getCol lb key s = Some col \<longrightarrow> length (objects (lb_tr lb) col) < 2 ^ 64)"

lemma length_objects:
  assumes "lib_laws lb items ok" and "server_ok lb items ok s" and "getCol lb key s = Some col"
  shows "length (objects (lb_tr lb) col) = card (dom (lookup lb s key))"
proof -
  have laws: "tree_laws (lb_tr lb) items" "coll_ok (lb_tr lb) items (lb_gl lb) col"
    using assms(1) server_okD(1) [OF assms(2,3)] by (simp_all add: lib_laws_def col_ok_def)
  have "map oid (objects (lb_tr lb) col) = sorted_list_of_set (dom (stored lb col))"
    using objects_ids(1) [OF laws] by (simp add: keys_def)
  from arg_cong [OF this, of length] have "length (objects (lb_tr lb) col) = card (dom (stored lb col))" by simp
  with assms(3) show ?thesis by (simp add: lookup_def)
qed

lemma same_fits:
  assumes "lib_laws lb items ok" and "same lb items ok s s'" and "fits_memory lb s"
  shows "fits_memory lb s'"
  unfolding fits_memory_def
proof (intro allI impI)
  fix key col'
  assume col': "getCol lb key s' = Some col'"
  then obtain col where col: "getCol lb key s = Some col" using same_getCol [OF assms(1,2), of key] by auto
  have "length (objects (lb_tr lb) col') = length (objects (lb_tr lb) col)"
    using length_objects [OF assms(1) sameD(2) [OF assms(2)] col'] length_objects [OF assms(1) sameD(1) [OF assms(2)] col]
      same_dom [OF assms(2), of key] by simp
  moreover have "length (objects (lb_tr lb) col) < 2 ^ 64" using assms(3) col unfolding fits_memory_def by blast
  ultimately show "length (objects (lb_tr lb) col') < 2 ^ 64" by (simp only:)
qed

lemma cmdPDEL_replays:
  assumes "lib_laws lb items ok" and "scan_laws (lb_tr lb)" and "same lb items ok s s'" and "cmdPDEL lb tm msg s = (r, t)"
    and "msg_Deadline msg = None" and "fits_memory lb s"
  shows "replays lb items ok (cmdPDEL lb) (msg_Args msg) r t s'"
proof (cases "\<exists>c key pattern. msg_Args msg = [c, key, pattern]")
  case False
  then have "r = Inl ErrInvalidNumberOfArguments" "t = s" using assms(4) by (auto simp: cmdPDEL_def split: list.splits)
  with assms(3) show ?thesis by (simp add: replays_def)
next
  case True
  then obtain c key pattern where args: "msg_Args msg = [c, key, pattern]" by blast
  have fits': "fits_memory lb s'" by (rule same_fits [OF assms(1,3,6)])
  note eff = cmdPDEL_effect [OF assms(1,2)]
  obtain v d where r: "r = Inr (v, d)"
    "lookup lb t = (lookup lb s)(key := (\<lambda>i. if selected pattern i then None else lookup lb s key i))"
    "d_updated d = (\<exists>i \<in> dom (lookup lb s key). selected pattern i)"
    using eff [OF sameD(1) [OF assms(3)] args assms(5), of tm] assms(4,6) by (auto simp: fits_memory_def)
  have t: "server_ok lb items ok t" using cmdPDEL_ok [OF assms(1) sameD(1) [OF assms(3)], of tm msg] assms(4) by simp
  show ?thesis
  proof (rule replaysI [OF assms(3) t cmdPDEL_kept(1) [OF assms(4)]])
    assume "\<not> updated r"
    then have "\<forall>i. selected pattern i \<longrightarrow> lookup lb s key i = None" using r(1,3) by auto
    then have "(\<lambda>i. if selected pattern i then None else lookup lb s key i) = lookup lb s key" by auto
    then have "lookup lb t = lookup lb s" by (simp only: r(2) fun_upd_triv)
    with cmdPDEL_kept(2) [OF assms(4)] show "contents lb t = contents lb s \<and> sv_tab t = sv_tab s" by (intro conjI contents_eq)
  next
    fix tm'
    obtain v' d' t' where run: "cmdPDEL lb tm' (ownMessage (msg_Args msg)) s' = (Inr (v', d'), t')"
      "lookup lb t' = (lookup lb s')(key := (\<lambda>i. if selected pattern i then None else lookup lb s' key i))"
      using eff [OF sameD(2) [OF assms(3)], of "ownMessage (msg_Args msg)" c key pattern tm'] fits' args
      by (auto simp: fits_memory_def ownMessage_def)
    have "server_ok lb items ok t'"
      using cmdPDEL_ok [OF assms(1) sameD(2) [OF assms(3)], of tm' "ownMessage (msg_Args msg)"] run(1) by simp
    moreover have "contents lb t = contents lb t'"
      using sameD(3) [OF assms(3)] by (auto simp: contents_def fun_eq_iff r(2) run(2))
    ultimately show "\<exists>v d t'. cmdPDEL lb tm' (ownMessage (msg_Args msg)) s' = (Inr (v, d), t') \<and> server_ok lb items ok t'
      \<and> contents lb t = contents lb t' \<and> kept s' t' \<and> sv_tab t = sv_tab t'"
      using run(1) cmdPDEL_kept [OF assms(4)] cmdPDEL_kept [OF run(1)] sameD(5) [OF assms(3)] by auto
  qed
qed

lemma cmdDROP_kept:
  assumes "cmdDROP lb tm msg s = (r, t)"
  shows "kept s t" and "sv_tab t = sv_tab s"
  using assms by (auto simp: cmdDROP_def cmdDROPop_def Let_def split: list.splits)

lemma cmdDROP_replays:
  assumes "lib_laws lb items ok" and "same lb items ok s s'" and "cmdDROP lb tm msg s = (r, t)"
  shows "replays lb items ok (cmdDROP lb) (msg_Args msg) r t s'"
proof -
  let ?k = "msg_Args msg ! 1"
  note ok = sameD(1,2) [OF assms(2)] and eff = cmdDROP_effect [OF assms(1) sameD(1) [OF assms(2)] assms(3)]
  show ?thesis
  proof (rule replaysI [OF assms(2) eff(1) cmdDROP_kept(1) [OF assms(3)]])
    assume "\<not> updated r"
    then have "lookup lb t = lookup lb s" by (rule not_updated_cases) (simp_all add: eff(2,3) fun_upd_idem)
    with cmdDROP_kept(2) [OF assms(3)] show "contents lb t = contents lb s \<and> sv_tab t = sv_tab s" by (intro conjI contents_eq)
  next
    fix tm'
    assume "updated r"
    then obtain v d where r: "r = Inr (v, d)" "d_updated d" by (cases r) auto
    then have "\<exists>c key. msg_Args msg = [c, key]" using assms(3) by (auto simp: cmdDROP_def split: list.splits)
    then obtain v' d' t' where run: "cmdDROP lb tm' (ownMessage (msg_Args msg)) s' = (Inr (v', d'), t')"
      by (cases "cmdDROPop lb (msg_Args msg ! 1) s'") (auto simp: cmdDROP_def ownMessage_def Let_def)
    note eff' = cmdDROP_effect(1,3) [OF assms(1) ok(2) run]
    have "contents lb t = contents lb t'"
      using contents_key [of lb t s ?k] contents_key [of lb t' s' ?k] eff(3) [OF r(1)] eff'(2) sameD(3) [OF assms(2)]
      by (simp add: ownMessage_def)
    with run eff'(1) cmdDROP_kept [OF assms(3)] cmdDROP_kept [OF run] sameD(5) [OF assms(2)]
    show "\<exists>v d t'. cmdDROP lb tm' (ownMessage (msg_Args msg)) s' = (Inr (v, d), t') \<and> server_ok lb items ok t'
      \<and> contents lb t = contents lb t' \<and> kept s' t' \<and> sv_tab t = sv_tab t'" by auto
  qed
qed

lemma cmdRENAME_kept:
  assumes "cmdRENAME lb tm msg s = (r, t)"
  shows "kept s t" and "sv_tab t = sv_tab s"
  using assms by (auto simp: cmdRENAME_def Let_def split: list.splits option.splits if_splits)

lemma cmdRENAME_again:
  assumes "lib_laws lb items ok" and "same lb items ok s s'" and "cmdRENAME lb tm msg s = (Inr (v, d), t)"
  shows "\<exists>v d t'. cmdRENAME lb tm' (ownMessage (msg_Args msg)) s' = (Inr (v, d), t')"
proof -
  obtain c key newKey where args: "msg_Args msg = [c, key, newKey]"
    using assms(3) by (auto simp: cmdRENAME_def split: list.splits)
  obtain col where "getCol lb key s = Some col" using assms(3) args by (auto simp: cmdRENAME_def Let_def split: option.splits)
  then obtain col' where "getCol lb key s' = Some col'" using same_getCol [OF assms(1,2), of key] by auto
  with assms(3) args sameD(4) [OF assms(2)] show ?thesis
    by (auto simp: cmdRENAME_def ownMessage_def Let_def case_prod_beta split: option.splits if_splits)
qed

lemma cmdRENAME_replays:
  assumes "lib_laws lb items ok" and "same lb items ok s s'" and "cmdRENAME lb tm msg s = (r, t)"
  shows "replays lb items ok (cmdRENAME lb) (msg_Args msg) r t s'"
proof -
  let ?k = "msg_Args msg ! 1" and ?k' = "msg_Args msg ! 2"
  note ok = sameD(1,2) [OF assms(2)] and eff = cmdRENAME_effect [OF assms(1) sameD(1) [OF assms(2)] assms(3)]
  show ?thesis
  proof (rule replaysI [OF assms(2) eff(1) cmdRENAME_kept(1) [OF assms(3)]])
    assume "\<not> updated r"
    then have "lookup lb t = lookup lb s" by (rule not_updated_cases) (simp_all add: eff(2,3))
    with cmdRENAME_kept(2) [OF assms(3)] show "contents lb t = contents lb s \<and> sv_tab t = sv_tab s" by (intro conjI contents_eq)
  next
    fix tm'
    assume "updated r"
    then obtain v d where r: "r = Inr (v, d)" "d_updated d" by (cases r) auto
    obtain v' d' t' where run: "cmdRENAME lb tm' (ownMessage (msg_Args msg)) s' = (Inr (v', d'), t')"
      using cmdRENAME_again [OF assms(1,2) assms(3) [unfolded r(1)]] by blast
    note eff' = cmdRENAME_effect(1,3) [OF assms(1) ok(2) run]
    have "lookup lb t = (lookup lb s)(?k := Map.empty, ?k' := lookup lb s ?k)"
      "lookup lb t' = (lookup lb s')(?k := Map.empty, ?k' := lookup lb s' ?k)"
      using eff(3) [OF r(1)] eff'(2) r(2) same_lookup(3) [OF assms(2), of ?k'] by (auto simp: ownMessage_def)
    then have "contents lb t = contents lb t'" using sameD(3) [OF assms(2)] by (auto simp: contents_def fun_eq_iff)
    with run eff'(1) cmdRENAME_kept [OF assms(3)] cmdRENAME_kept [OF run] sameD(5) [OF assms(2)]
    show "\<exists>v d t'. cmdRENAME lb tm' (ownMessage (msg_Args msg)) s' = (Inr (v, d), t') \<and> server_ok lb items ok t'
      \<and> contents lb t = contents lb t' \<and> kept s' t' \<and> sv_tab t = sv_tab t'" by auto
  qed
qed

section \<open>\<^verbatim>\<open>EXPIRE\<close> and \<^verbatim>\<open>PERSIST\<close>\<close>

text \<open>An object that is stored again with another expiration shows the same.\<close>

lemma lookup_kept_geo:
  assumes "lib_laws lb items ok" and "server_ok lb items ok s" and "lookup lb s k i = Some x"
  shows "kept_geo (lb_gl lb) (ogeom (lb_gl lb) x) = ogeom (lb_gl lb) x"
proof -
  obtain col where col: "getCol lb k s = Some col" "stored lb col i = Some x"
    using assms(3) by (auto simp: lookup_def split: option.splits)
  then have "obj_made (lb_gl lb) x" using server_okD(1) [OF assms(2) col(1)] by (auto simp: col_ok_def ran_def)
  with assms(1) show ?thesis by (simp add: ogeom_kept lib_laws_def)
qed

lemma shown_New: "shown lb (Object_New (lb_gl lb) ident geo ex fl) = (kept_geo (lb_gl lb) geo, fl)"
  by (simp add: shown_def Object_New_geo)

lemma contents_restored:
  assumes "lib_laws lb items ok" and "server_ok lb items ok s" and "lookup lb s k i = Some x"
    and "lookup lb t = (lookup lb s)(k := (lookup lb s k)(i \<mapsto> Object_New (lb_gl lb) i (ogeom (lb_gl lb) x) ex (Object_Fields x)))"
  shows "contents lb t = contents lb s"
  using assms(3) contents_upd [OF assms(4)]
  by (simp add: fun_upd_idem shown_New lookup_kept_geo [OF assms(1-3)]) (simp add: contents_def shown_def fun_eq_iff)

lemma cmdEXPIRE_kept:
  assumes "cmdEXPIRE lb tm msg s = (r, t)"
  shows "kept s t" and "sv_tab t = sv_tab s"
  using assms by (auto simp: cmdEXPIRE_def Let_def split: list.splits option.splits prod.splits if_splits out_type.splits)

lemma cmdEXPIRE_contents:
  assumes "lib_laws lb items ok" and "server_ok lb items ok s" and "cmdEXPIRE lb tm msg s = (r, t)"
  shows "contents lb t = contents lb s"
    and "updated r \<Longrightarrow> \<exists>c key ident svalue value x. msg_Args msg = [c, key, ident, svalue]
      \<and> ParseFloat svalue = (value, True) \<and> lookup lb s key ident = Some x"
proof -
  let ?P = "\<lambda>key ident x. \<exists>c svalue value. msg_Args msg = [c, key, ident, svalue] \<and> ParseFloat svalue = (value, True)
    \<and> lookup lb s key ident = Some x"
  have idle: "t = s \<and> \<not> updated r" if "\<nexists>key ident x. ?P key ident x"
    using assms(3) that
    by (auto simp: cmdEXPIRE_def Collection_Get_def lookup_def noDetails_def Let_def
        split: list.splits option.splits prod.splits out_type.splits if_splits)
  show "contents lb t = contents lb s"
  proof (cases "\<exists>key ident x. ?P key ident x")
    case True
    then obtain c key ident svalue val x where *: "msg_Args msg = [c, key, ident, svalue]" "ParseFloat svalue = (val, True)"
        "lookup lb s key ident = Some x" by blast
    from cmdEXPIRE_effect(3) [OF assms(1,2) *, of tm] assms(3) show ?thesis
      by (auto intro: contents_restored [OF assms(1,2) *(3)])
  qed (use idle in simp)
  show "\<exists>c key ident svalue value x. msg_Args msg = [c, key, ident, svalue]
      \<and> ParseFloat svalue = (value, True) \<and> lookup lb s key ident = Some x" if "updated r"
    using idle that by blast
qed

lemma cmdEXPIRE_replays:
  assumes "lib_laws lb items ok" and "same lb items ok s s'" and "cmdEXPIRE lb tm msg s = (r, t)"
  shows "replays lb items ok (cmdEXPIRE lb) (msg_Args msg) r t s'"
proof -
  note ok = sameD(1,2) [OF assms(2)]
  have t: "server_ok lb items ok t" using cmdEXPIRE_ok [OF assms(1) ok(1), of tm msg] assms(3) by simp
  note con = cmdEXPIRE_contents [OF assms(1) ok(1) assms(3)]
  show ?thesis
  proof (rule replaysI [OF assms(2) t cmdEXPIRE_kept(1) [OF assms(3)]])
    show "contents lb t = contents lb s \<and> sv_tab t = sv_tab s" using con(1) cmdEXPIRE_kept(2) [OF assms(3)] by simp
  next
    fix tm'
    assume "updated r"
    then obtain c key ident svalue val x where *: "msg_Args msg = [c, key, ident, svalue]" "ParseFloat svalue = (val, True)"
        "lookup lb s key ident = Some x" using con(2) by blast
    obtain x' where x': "lookup lb s' key ident = Some x'" using same_lookup(2) [OF assms(2) *(3)] by blast
    let ?m = "ownMessage (msg_Args msg)"
    have "msg_Args ?m = [c, key, ident, svalue]" using *(1) by (simp add: ownMessage_def)
    then obtain d' t' where run: "cmdEXPIRE lb tm' ?m s' = (Inr (replyOK tm' ?m (RInteger 1), d'), t')"
      using cmdEXPIRE_effect(1) [OF assms(1) ok(2) _ *(2) x'] by blast
    have "server_ok lb items ok t'" using cmdEXPIRE_ok [OF assms(1) ok(2), of tm' ?m] run by simp
    with run con(1) cmdEXPIRE_contents(1) [OF assms(1) ok(2) run] cmdEXPIRE_kept [OF assms(3)] cmdEXPIRE_kept [OF run]
      sameD(3,5) [OF assms(2)]
    show "\<exists>v d t'. cmdEXPIRE lb tm' ?m s' = (Inr (v, d), t') \<and> server_ok lb items ok t'
      \<and> contents lb t = contents lb t' \<and> kept s' t' \<and> sv_tab t = sv_tab t'" by auto
  qed
qed

lemma cmdPERSIST_kept:
  assumes "cmdPERSIST lb tm msg s = (r, t)"
  shows "kept s t" and "sv_tab t = sv_tab s"
  using assms by (auto simp: cmdPERSIST_def Let_def split: list.splits option.splits if_splits)

lemma cmdPERSIST_contents:
  assumes "lib_laws lb items ok" and "server_ok lb items ok s" and "cmdPERSIST lb tm msg s = (r, t)"
  shows "contents lb t = contents lb s"
    and "updated r \<Longrightarrow> \<exists>c key ident x. msg_Args msg = [c, key, ident] \<and> lookup lb s key ident = Some x"
proof -
  let ?P = "\<lambda>c key ident x. msg_Args msg = [c, key, ident] \<and> lookup lb s key ident = Some x"
  have idle: "t = s \<and> \<not> updated r" if "\<nexists>c key ident x. ?P c key ident x"
    using assms(3) that
    by (auto simp: cmdPERSIST_def Collection_Get_def lookup_def noDetails_def Let_def split: list.splits option.splits if_splits)
  show "contents lb t = contents lb s"
  proof (cases "\<exists>c key ident x. ?P c key ident x")
    case True
    then obtain c key ident x where *: "msg_Args msg = [c, key, ident]" "lookup lb s key ident = Some x" by blast
    from cmdPERSIST_effect(2) [OF assms(1,2) *, of tm] assms(3) show ?thesis
      by (auto intro: contents_restored [OF assms(1,2) *(2)] contents_eq split: if_splits)
  qed (use idle in simp)
  show "\<exists>c key ident x. msg_Args msg = [c, key, ident] \<and> lookup lb s key ident = Some x" if "updated r"
    using idle that by blast
qed

lemma cmdPERSIST_replays:
  assumes "lib_laws lb items ok" and "same lb items ok s s'" and "cmdPERSIST lb tm msg s = (r, t)"
  shows "replays lb items ok (cmdPERSIST lb) (msg_Args msg) r t s'"
proof -
  note ok = sameD(1,2) [OF assms(2)]
  have t: "server_ok lb items ok t" using cmdPERSIST_ok [OF assms(1) ok(1), of tm msg] assms(3) by simp
  note con = cmdPERSIST_contents [OF assms(1) ok(1) assms(3)]
  show ?thesis
  proof (rule replaysI [OF assms(2) t cmdPERSIST_kept(1) [OF assms(3)]])
    show "contents lb t = contents lb s \<and> sv_tab t = sv_tab s" using con(1) cmdPERSIST_kept(2) [OF assms(3)] by simp
  next
    fix tm'
    assume "updated r"
    then obtain c key ident x where *: "msg_Args msg = [c, key, ident]" "lookup lb s key ident = Some x" using con(2) by blast
    obtain x' where "lookup lb s' key ident = Some x'" using same_lookup(2) [OF assms(2) *(2)] by blast
    then obtain col' where "getCol lb key s' = Some col'" "Collection_Get (lb_tr lb) ident col' = Some x'"
      by (auto simp: lookup_def Collection_Get_def split: option.splits)
    then obtain v' d' t' where run: "cmdPERSIST lb tm' (ownMessage (msg_Args msg)) s' = (Inr (v', d'), t')"
      using *(1) by (simp add: cmdPERSIST_def ownMessage_def Let_def)
    have "server_ok lb items ok t'" using cmdPERSIST_ok [OF assms(1) ok(2), of tm' "ownMessage (msg_Args msg)"] run by simp
    with run con(1) cmdPERSIST_contents(1) [OF assms(1) ok(2) run] cmdPERSIST_kept [OF assms(3)] cmdPERSIST_kept [OF run]
      sameD(3,5) [OF assms(2)]
    show "\<exists>v d t'. cmdPERSIST lb tm' (ownMessage (msg_Args msg)) s' = (Inr (v, d), t') \<and> server_ok lb items ok t'
      \<and> contents lb t = contents lb t' \<and> kept s' t' \<and> sv_tab t = sv_tab t'" by auto
  qed
qed


section \<open>Hooks and \<^verbatim>\<open>FLUSHDB\<close>\<close>

text \<open>What the removal of hooks leaves alone.\<close>

definition unhooked where
  "unhooked s t \<longleftrightarrow> sv_tab t = sv_tab s \<and> sv_maxMemory t = sv_maxMemory s \<and> sv_outOfMemory t = sv_outOfMemory s"

lemma unhooked_trans: "unhooked s t \<Longrightarrow> unhooked t u \<Longrightarrow> unhooked s u"
  by (simp add: unhooked_def)

lemma unhooked_fold: "(\<And>x s. unhooked s (f x s)) \<Longrightarrow> unhooked s (fold f xs s)"
  by (induction xs arbitrary: s) (simp add: unhooked_def, metis fold_simps(2) unhooked_trans)

lemma cmdDELHOOKop_unhooked: "unhooked s (snd (cmdDELHOOKop lb name channel s))"
  by (simp add: unhooked_def cmdDELHOOKop_def Hook_Close_def Let_def split: option.split)

lemma cmdDROPop_unhooked: "unhooked s (snd (cmdDROPop lb key s))"
  by (simp add: unhooked_def cmdDROPop_def delCol_def disconnectCollection_def Let_def)

lemma same_unhooked:
  assumes "same lb items ok s s'" and "server_ok lb items ok t" and "server_ok lb items ok t'" and "contents lb t = contents lb t'"
    and "sv_hooks t = sv_hooks t'" and "unhooked s t" and "unhooked s' t'"
  shows "same lb items ok t t'"
  using assms by (simp add: same_def unhooked_def outOfMemory_def)

lemma cmdDELHOOKop_same:
  assumes "lib_laws lb items ok" and "same lb items ok s s'"
  shows "fst (cmdDELHOOKop lb name channel s') = fst (cmdDELHOOKop lb name channel s)"
    and "same lb items ok (snd (cmdDELHOOKop lb name channel s)) (snd (cmdDELHOOKop lb name channel s'))"
    and "\<not> fst (cmdDELHOOKop lb name channel s) \<Longrightarrow> snd (cmdDELHOOKop lb name channel s) = s"
proof -
  note hooks = sameD(4) [OF assms(2)] and ok = sameD(1,2) [OF assms(2)]
  show "fst (cmdDELHOOKop lb name channel s') = fst (cmdDELHOOKop lb name channel s)"
    using hooks by (simp add: cmdDELHOOKop_def Let_def split: option.split)
  have "sv_hooks (snd (cmdDELHOOKop lb name channel s)) = sv_hooks (snd (cmdDELHOOKop lb name channel s'))"
    using hooks by (simp add: cmdDELHOOKop_def Hook_Close_def Let_def split: option.split)
  then show "same lb items ok (snd (cmdDELHOOKop lb name channel s)) (snd (cmdDELHOOKop lb name channel s'))"
    using cmdDELHOOKop_ok [OF assms(1) ok(1)] cmdDELHOOKop_ok [OF assms(1) ok(2)] sameD(3) [OF assms(2)]
    by (intro same_unhooked [OF assms(2)]) (simp_all add: cmdDELHOOKop_unhooked contents_def fun_eq_iff)
  show "snd (cmdDELHOOKop lb name channel s) = s" if "\<not> fst (cmdDELHOOKop lb name channel s)"
    using that by (auto simp: cmdDELHOOKop_def Let_def split: option.splits if_splits)
qed

lemma cmdDelHook_replays:
  assumes "lib_laws lb items ok" and "same lb items ok s s'" and "cmdDelHook lb tm msg s = (r, t)"
  shows "replays lb items ok (cmdDelHook lb) (msg_Args msg) r t s'"
proof (cases "\<exists>c name. msg_Args msg = [c, name] \<and> name \<noteq> []")
  case False
  then have "(\<exists>e. r = Inl e) \<and> t = s" using assms(3)
    by (cases "msg_Args msg" rule: list.exhaust; cases "tl (msg_Args msg)")
       (auto simp: cmdDelHook_def Let_def split: if_splits out_type.splits)
  with assms(2) show ?thesis by (auto simp: replays_def)
next
  case True
  then obtain c name where args: "msg_Args msg = [c, name]" "name \<noteq> []" by blast
  define ch where "ch = (ToLower c = lit ''delchan'')"
  note del = cmdDELHOOKop_same [OF assms(1,2), of name ch]
  obtain v d where r: "r = Inr (v, d)" "d_updated d = fst (cmdDELHOOKop lb name ch s)" "t = snd (cmdDELHOOKop lb name ch s)"
    using assms(3) args
    by (auto simp: cmdDelHook_def ch_def noDetails_def Let_def case_prod_beta split: out_type.splits simp del: lit_Cons)
  have run: "\<exists>v d. cmdDelHook lb tm' (ownMessage (msg_Args msg)) s' = (Inr (v, d), snd (cmdDELHOOKop lb name ch s'))" for tm'
    using args by (simp add: cmdDelHook_def ownMessage_def ch_def Let_def case_prod_beta del: lit_Cons)
  show ?thesis
  proof (cases "d_updated d")
    case True
    then show ?thesis using run del(2) r unfolding replays_def updated_simps by (auto, metis)
  qed (use del(3) r assms(2) in \<open>simp add: replays_def\<close>)
qed

lemma fold_DELHOOKop_same:
  assumes "lib_laws lb items ok"
  shows "same lb items ok s s' \<Longrightarrow> same lb items ok (fold (\<lambda>hook s. snd (cmdDELHOOKop lb (h_Name hook) ch s)) hooks s)
    (fold (\<lambda>hook s. snd (cmdDELHOOKop lb (h_Name hook) ch s)) hooks s')"
  by (induction hooks arbitrary: s s') (simp_all add: cmdDELHOOKop_same(2) [OF assms])

lemma cmdPDelHook_replays:
  assumes "lib_laws lb items ok" and "same lb items ok s s'" and "cmdPDelHook lb tm msg s = (r, t)"
  shows "replays lb items ok (cmdPDelHook lb) (msg_Args msg) r t s'"
proof (cases "\<exists>c pattern. msg_Args msg = [c, pattern] \<and> pattern \<noteq> []")
  case False
  then have "(\<exists>e. r = Inl e) \<and> t = s" using assms(3)
    by (cases "msg_Args msg" rule: list.exhaust; cases "tl (msg_Args msg)")
       (auto simp: cmdPDelHook_def Let_def split: if_splits out_type.splits)
  with assms(2) show ?thesis by (auto simp: replays_def)
next
  case True
  then obtain c pattern where args: "msg_Args msg = [c, pattern]" "pattern \<noteq> []" by blast
  define ch where "ch = (ToLower c = lit ''pdelchan'')"
  define hooks where "hooks = filter (\<lambda>hook. h_channel hook = ch) (forEachHookByPattern lb pattern ch s)"
  have hooks': "hooks = filter (\<lambda>hook. h_channel hook = ch) (forEachHookByPattern lb pattern ch s')"
    using sameD(4) [OF assms(2)] by (simp add: hooks_def forEachHookByPattern_def)
  note del = fold_DELHOOKop_same [OF assms(1,2), of ch hooks]
  obtain v d where r: "r = Inr (v, d)" "d_updated d = (hooks \<noteq> [])"
      "t = fold (\<lambda>hook s. snd (cmdDELHOOKop lb (h_Name hook) ch s)) hooks s"
    using assms(3) args
    by (auto simp: cmdPDelHook_def ch_def hooks_def noDetails_def Let_def case_prod_beta split: out_type.splits simp del: lit_Cons)
  have run: "\<exists>v d. cmdPDelHook lb tm' (ownMessage (msg_Args msg)) s'
      = (Inr (v, d), fold (\<lambda>hook s. snd (cmdDELHOOKop lb (h_Name hook) ch s)) hooks s')" for tm'
    using args by (simp add: cmdPDelHook_def ownMessage_def ch_def hooks' Let_def case_prod_beta del: lit_Cons)
  show ?thesis
  proof (cases "hooks = []")
    case False
    then show ?thesis using run del r unfolding replays_def updated_simps by (auto, metis)
  qed (use r assms(2) in \<open>simp add: replays_def\<close>)
qed

lemma cmdFLUSHDB_run:
  assumes "length (msg_Args msg) = 1"
  shows "\<exists>v d t. cmdFLUSHDB lb tm msg s = (Inr (v, d), t) \<and> d_updated d \<and> unhooked s t \<and> sv_hooks t = bt_Empty (lb_hk lb)"
proof -
  define s1 where "s1 = fold (\<lambda>key s. snd (cmdDROPop lb key s)) (mp_Keys (lb_mp lb) (sv_cols s)) s"
  define s2 where "s2 = fold (\<lambda>name s. snd (cmdDELHOOKop lb name True s)) (hookNames lb True s1) s1"
  define s3 where "s3 = fold (\<lambda>name s. snd (cmdDELHOOKop lb name False s)) (hookNames lb False s2) s2"
  have "unhooked s s1" "unhooked s1 s2" "unhooked s2 s3"
    unfolding s1_def s2_def s3_def by (intro unhooked_fold cmdDROPop_unhooked cmdDELHOOKop_unhooked)+
  then have "unhooked s s3" by (blast intro: unhooked_trans)
  with assms show ?thesis
    unfolding cmdFLUSHDB_def s1_def [symmetric] Let_def s2_def [symmetric] s3_def [symmetric]
    by (simp add: unhooked_def noDetails_def)
qed

lemma cmdFLUSHDB_replays:
  assumes "lib_laws lb items ok" and "same lb items ok s s'" and "cmdFLUSHDB lb tm msg s = (r, t)"
  shows "replays lb items ok (cmdFLUSHDB lb) (msg_Args msg) r t s'"
proof (cases "length (msg_Args msg) = 1")
  case False
  then have "(\<exists>e. r = Inl e) \<and> t = s" using assms(3) by (auto simp: cmdFLUSHDB_def)
  with assms(2) show ?thesis by (auto simp: replays_def)
next
  case True
  note ok = sameD(1,2) [OF assms(2)]
  obtain v d where r: "r = Inr (v, d)" "d_updated d" "unhooked s t" "sv_hooks t = bt_Empty (lb_hk lb)"
    using cmdFLUSHDB_run [OF True, of lb tm s] assms(3) by auto
  have "\<exists>v d t'. cmdFLUSHDB lb tm' (ownMessage (msg_Args msg)) s' = (Inr (v, d), t') \<and> same lb items ok t t'" for tm'
  proof -
    obtain v' d' t' where run: "cmdFLUSHDB lb tm' (ownMessage (msg_Args msg)) s' = (Inr (v', d'), t')" "unhooked s' t'"
        "sv_hooks t' = bt_Empty (lb_hk lb)"
      using cmdFLUSHDB_run [of "ownMessage (msg_Args msg)" lb tm' s'] True by (auto simp: ownMessage_def)
    note eff = cmdFLUSHDB_effect(1,3) [OF assms(1) ok(1) assms(3)] and eff' = cmdFLUSHDB_effect(1,3) [OF assms(1) ok(2) run(1)]
    have "lookup lb t = lookup lb t'" using eff(2) [OF r(1)] eff'(2) by simp
    with run same_unhooked [OF assms(2) eff(1) eff'(1) contents_eq] r(3,4) show ?thesis by simp
  qed
  with r(1,2) show ?thesis by (simp add: replays_def)
qed


section \<open>Answers\<close>

text \<open>Whether the answer can be built depends neither on the form of the output nor on the expiration of the object.\<close>

lemma scanLoop_success:
  assumes "\<And>f st. fst (iter f st)" and "\<And>f st. fst (iter' f st)"
  shows "scanLoop ss b iter st i = Inr x \<Longrightarrow> \<exists>y. scanLoop ss b iter' st' i = Inr y"
proof (induction "length b - i" arbitrary: i st st' rule: less_induct)
  case less
  show ?case
  proof (cases "readEntry ss b i")
    case (Inl e)
    with less.prems show ?thesis by (simp add: scanLoop.simps [of ss b iter])
  next
    case (Inr entry)
    show ?thesis
    proof (cases entry)
      case (Some en)
      obtain fname kind data j where en: "en = (fname, kind, data, j)" by (cases en)
      have "length b - j < length b - i" using readEntry_progress [of ss b i] Inr Some en by fastforce
      from less.hyps [OF this, of "snd (iter (bfield fname kind data) st)" "snd (iter' (bfield fname kind data) st')"]
        less.prems Inr Some en assms show ?thesis
        by (simp add: scanLoop.simps [of ss b _ _ i])
    qed (use Inr in \<open>simp add: scanLoop.simps [of ss b iter']\<close>)
  qed
qed

lemma List_Scan_success:
  assumes "\<And>f st. fst (iter f st)" and "\<And>f st. fst (iter' f st)" and "List_Scan ss fl iter st = Inr x"
  shows "\<exists>y. List_Scan ss fl iter' st' = Inr y"
  using assms(3) scanLoop_success [of iter iter', OF assms(1,2)]
  by (cases "ptob fl") (auto simp: List_Scan_def)

lemma fields_success:
  assumes "fieldsJSON lb ss fl = Inr x"
  shows "\<exists>y. fieldsRESP ss fl = Inr y"
proof -
  obtain n where n: "lenE (List_Len fl) = Inr n" using assms by (cases "lenE (List_Len fl)") (simp_all add: fieldsJSON_def)
  show ?thesis
  proof (cases "0 < n")
    case True
    define iter where "iter = (\<lambda>(f :: Field) (buf, i). (True, buf @ (if 0 < (i :: nat) then lit '','' else []) @ jsonString (fd_name f) @ lit '':''
      @ Value_JSON (lb_gj lb) (fd_value f), i + 1))"
    obtain p where p: "List_Scan ss fl iter ([], 0) = Inr p"
      using assms n True unfolding fieldsJSON_def iter_def [symmetric]
      by (cases "List_Scan ss fl iter ([], 0)") (simp_all add: fieldE_def)
    obtain y where "List_Scan ss fl (\<lambda>f fvals. (True, fvals @ [RString (fd_name f), RString (v_data (fd_value f))])) [] = Inr y"
      using List_Scan_success [OF _ _ p, of "\<lambda>f fvals. (True, fvals @ [RString (fd_name f), RString (v_data (fd_value f))])" "[]"]
      by (auto simp: iter_def split: prod.splits)
    with n True show ?thesis by (simp add: fieldsRESP_def fieldE_def)
  qed (use n in \<open>simp add: fieldsRESP_def\<close>)
qed

lemma object_success:
  "objectJSON lb geo kind precision = Inr x \<Longrightarrow> \<exists>y. objectRESP lb obj geo kind precision = Inr y"
  "objectRESP lb obj geo kind precision = Inr y \<Longrightarrow> \<exists>z. objectRESP lb obj' geo kind precision = Inr z"
  by (cases kind; auto simp: objectJSON_def objectRESP_def appendJSONSimplePoint_def Let_def split: option.splits prod.splits)+

lemma response_again:
  assumes "buildObjectResponse lb tm ss msg obj kind precision withf = Inr v" and "shown lb obj = shown lb obj'"
  shows "\<exists>v'. buildObjectResponse lb tm' ss (ownMessage args) obj' kind precision withf = Inr v'"
proof -
  have eq: "ogeom (lb_gl lb) obj' = ogeom (lb_gl lb) obj" "Object_Fields obj' = Object_Fields obj"
    using assms(2) by (simp_all add: shown_def)
  have "(\<exists>y. objectRESP lb obj (ogeom (lb_gl lb) obj) kind precision = Inr y) \<and> (withf \<longrightarrow> (\<exists>y. fieldsRESP ss (Object_Fields obj) = Inr y))"
    using assms(1) object_success(1) [of lb "ogeom (lb_gl lb) obj" kind precision _ obj] fields_success [of lb ss "Object_Fields obj"]
    by (auto simp: buildObjectResponse_def Let_def bindE_def split: sum.splits if_splits)
  with object_success(2) [of lb obj "ogeom (lb_gl lb) obj" kind precision _ obj'] show ?thesis
    by (auto simp: buildObjectResponse_def eq Let_def ownMessage_def)
qed

lemma response_error:
  assumes "buildObjectResponse lb tm ss msg obj kind precision withf = Inl e"
  shows "panicked (Inl e)"
  using assms
  by (auto simp: buildObjectResponse_def objectJSON_def objectRESP_def appendJSONSimplePoint_def fieldsJSON_def fieldsRESP_def
      fieldE_def lenE_def Let_def bindE_def split: sum.splits if_splits okind.splits option.splits prod.splits)

section \<open>\<^verbatim>\<open>SET\<close>\<close>

text \<open>The time of the command only goes into the expiration.\<close>

lemma setPoint_time:
  "setPoint lb args i a = Inr (i', a') \<Longrightarrow> setPoint lb args i (a\<lparr>sa_ex := e\<rparr>) = Inr (i', a'\<lparr>sa_ex := e\<rparr>)"
  by (auto simp: setPoint_def Let_def bindE_def split: if_splits sum.splits)

lemma setBounds_time:
  "setBounds lb args i a = Inr (i', a') \<Longrightarrow> setBounds lb args i (a\<lparr>sa_ex := e\<rparr>) = Inr (i', a'\<lparr>sa_ex := e\<rparr>)"
  by (auto simp: setBounds_def bindE_def split: if_splits sum.splits)

lemma withArg_time:
  assumes "withArg args i f = Inr (i', a')" and "\<And>x a'. f x = Inr a' \<Longrightarrow> \<exists>ex. f' x = Inr (a'\<lparr>sa_ex := ex\<rparr>)"
  shows "\<exists>ex. withArg args i f' = Inr (i', a'\<lparr>sa_ex := ex\<rparr>)"
  using assms by (fastforce simp: withArg_def bindE_def split: if_splits sum.splits)

text \<open>The branches of \<open>setArg\<close>, one by one.\<close>

lemma if_time:
  assumes "(if c then x else y) = Inr (i', a')"
    and "c \<Longrightarrow> x = Inr (i', a') \<Longrightarrow> \<exists>ex. x' = Inr (i', a'\<lparr>sa_ex := ex\<rparr>)"
    and "\<not> c \<Longrightarrow> y = Inr (i', a') \<Longrightarrow> \<exists>ex. y' = Inr (i', a'\<lparr>sa_ex := ex\<rparr>)"
  shows "\<exists>ex. (if c then x' else y') = Inr (i', a'\<lparr>sa_ex := ex\<rparr>)"
  using assms by (cases c) auto

lemma setArg_time:
  assumes "setArg lb now args i a = Inr (i', a')"
  shows "\<exists>ex. setArg lb now' args i (a\<lparr>sa_ex := e\<rparr>) = Inr (i', a'\<lparr>sa_ex := ex\<rparr>)"
  using assms unfolding setArg_def Let_def
  by (elim if_time) (auto simp: bindE_def split: sum.splits prod.splits if_splits
     dest: setPoint_time setBounds_time elim!: withArg_time simp del: lit_Cons,
    (rule exI, rule refl | rule exI [of _ e], simp)+)

lemma setArgs_time:
  "setArgs lb now args i a = Inr b \<Longrightarrow> \<exists>ex. setArgs lb now' args i (a\<lparr>sa_ex := e\<rparr>) = Inr (b\<lparr>sa_ex := ex\<rparr>)"
proof (induction "length args - i" arbitrary: i a e rule: less_induct)
  case less
  show ?case
  proof (cases "length args \<le> i")
    case False
    then obtain i' a' where step: "setArg lb now args i a = Inr (i', a')" "setArgs lb now args (i' + 1) a' = Inr b"
      using less.prems by (subst (asm) setArgs.simps) (auto split: sum.splits)
    obtain ex where "setArg lb now' args i (a\<lparr>sa_ex := e\<rparr>) = Inr (i', a'\<lparr>sa_ex := ex\<rparr>)" using setArg_time [OF step(1)] by blast
    moreover have "length args - (i' + 1) < length args - i" using setArg_progress [OF step(1)] False by simp
    ultimately show ?thesis using less.hyps [OF _ step(2)] False by (subst setArgs.simps) simp
  next
    case True
    with less.prems have "b = a" by (simp add: setArgs.simps [of lb _ args i])
    with True show ?thesis by (intro exI [of _ e]) (simp add: setArgs.simps [of lb _ args i])
  qed
qed

text \<open>A \<^verbatim>\<open>SET\<close> that stores: its result, and its effect.\<close>

lemma cmdSET_stores:
  assumes "lib_laws lb items ok" and "server_ok lb items ok s" and "\<not> outOfMemory s"
    and "msg_Args msg = c # key # ident # opts"
    and "setArgs lb (tm_now tm) (msg_Args msg) 3 noSetArgs = Inr a" and "sa_oobj a = Some oobj" and "geo_fine (lb_gl lb) oobj"
    and "\<not> excluded a (lookup lb s key ident)"
    and "applyFields lb (oldFields (lookup lb s key ident)) (sa_fields a) (sv_tab s) = Inr (fl, tab)"
  shows "\<exists>d. d_updated d \<and> fst (cmdSET lb tm msg s) = bindE (if sa_ret a
      then buildObjectResponse lb tm (strs tab) msg (Object_New (lb_gl lb) ident oobj (sa_ex a) fl)
             (ro_kind (sa_opts a)) (ro_precision (sa_opts a)) (ro_withfields (sa_opts a))
      else Inr (replyOK tm msg (RSimpleString (lit ''OK'')))) (\<lambda>res. Inr (res, d))"
    and "kept s (snd (cmdSET lb tm msg s))"
proof -
  have into: "(\<exists>d. d_updated d \<and> fst (setInto lb tm msg key ident a oobj col t) = bindE (if sa_ret a
      then buildObjectResponse lb tm (strs tab) msg (Object_New (lb_gl lb) ident oobj (sa_ex a) fl)
             (ro_kind (sa_opts a)) (ro_precision (sa_opts a)) (ro_withfields (sa_opts a))
      else Inr (replyOK tm msg (RSimpleString (lit ''OK'')))) (\<lambda>res. Inr (res, d))) \<and> kept s (snd (setInto lb tm msg key ident a oobj col t))"
    if "\<not> excluded a (stored lb col ident)" "kept s t"
      "applyFields lb (oldFields (stored lb col ident)) (sa_fields a) (sv_tab t) = Inr (fl, tab)" for col t
    using that
    by (cases "Collection_Set (lb_tr lb) (lb_gl lb) (Object_New (lb_gl lb) ident oobj (sa_ex a) fl) col")
       (auto simp: setInto_def Collection_Get_def excluded_def oldFields_def noDetails_def Let_def split: option.splits simp del: lit_Cons,
        (rule exI, rule conjI [rotated], rule refl, simp)+)
  have "kept s (putCol lb key (Collection_New (lb_tr lb)) s)" by simp
  then show "\<exists>d. d_updated d \<and> fst (cmdSET lb tm msg s) = bindE (if sa_ret a
      then buildObjectResponse lb tm (strs tab) msg (Object_New (lb_gl lb) ident oobj (sa_ex a) fl)
             (ro_kind (sa_opts a)) (ro_precision (sa_opts a)) (ro_withfields (sa_opts a))
      else Inr (replyOK tm msg (RSimpleString (lit ''OK'')))) (\<lambda>res. Inr (res, d))"
    "kept s (snd (cmdSET lb tm msg s))"
    using assms(3-6,8,9) into [of "Collection_New (lb_tr lb)" "putCol lb key (Collection_New (lb_tr lb)) s"]
      into [of _ s] stored_New [OF assms(1)]
    by (auto simp: cmdSET_def lookup_def excluded_def split: option.splits if_splits simp del: lit_Cons)
qed

lemma cmdSET_idle:
  assumes "lib_laws lb items ok" and "server_ok lb items ok s" and "cmdSET lb tm msg s = (r, t)" and "args_fine lb tm (msg_Args msg)"
    and "\<not> panicked r"
  obtains "t = s" "\<not> updated r"
  | c key ident opts a oobj fl tab where "\<not> outOfMemory s" "msg_Args msg = c # key # ident # opts"
    "setArgs lb (tm_now tm) (msg_Args msg) 3 noSetArgs = Inr a" "sa_oobj a = Some oobj" "geo_fine (lb_gl lb) oobj"
    "\<not> excluded a (lookup lb s key ident)"
    "applyFields lb (oldFields (lookup lb s key ident)) (sa_fields a) (sv_tab s) = Inr (fl, tab)"
proof (cases "outOfMemory s \<or> (\<nexists>c key ident opts a oobj. msg_Args msg = c # key # ident # opts
    \<and> setArgs lb (tm_now tm) (msg_Args msg) 3 noSetArgs = Inr a \<and> sa_oobj a = Some oobj)")
  case True
  then have "t = s \<and> \<not> updated r" using assms(3)
    by (auto simp: cmdSET_def split: list.splits sum.splits option.splits if_splits)
  then show thesis using that(1) by blast
next
  case False
  then obtain c key ident opts a oobj where *: "\<not> outOfMemory s" "msg_Args msg = c # key # ident # opts"
      "setArgs lb (tm_now tm) (msg_Args msg) 3 noSetArgs = Inr a" "sa_oobj a = Some oobj" by blast
  then have fine: "geo_fine (lb_gl lb) oobj" using assms(4) by (simp add: args_fine_def)
  note eff = cmdSET_effect [OF assms(1,2) * fine]
  show thesis
  proof (cases "excluded a (lookup lb s key ident)")
    case True
    then have "t = s \<and> \<not> updated r" using eff(1) assms(3) by (auto simp: setNada_def noDetails_def split: if_splits)
    then show thesis using that(1) by blast
  next
    case False
    with eff(3) assms(3,5) obtain p where "applyFields lb (oldFields (lookup lb s key ident)) (sa_fields a) (sv_tab s) = Inr p"
      by (cases "applyFields lb (oldFields (lookup lb s key ident)) (sa_fields a) (sv_tab s)") auto
    then show thesis using that(2) [OF * fine False] by (cases p) simp
  qed
qed


lemma same_excluded: "same lb items ok s s' \<Longrightarrow> excluded a (lookup lb s' k i) = excluded a (lookup lb s k i)"
  using same_lookup(1) [of lb items ok s s' k i] by (cases "lookup lb s k i"; cases "lookup lb s' k i") (simp_all add: excluded_def)

lemma same_oldFields: "same lb items ok s s' \<Longrightarrow> oldFields (lookup lb s' k i) = oldFields (lookup lb s k i)"
  using same_lookup(1,2) [of lb items ok s s' k i]
  by (cases "lookup lb s k i"; cases "lookup lb s' k i") (auto simp: oldFields_def shown_def)

lemma excluded_time [simp]: "excluded (a\<lparr>sa_ex := e\<rparr>) old = excluded a old"
  by (simp add: excluded_def split: option.split)

lemma noSetArgs_time: "noSetArgs\<lparr>sa_ex := 0\<rparr> = noSetArgs"
  by (simp add: noSetArgs_def)

lemma cmdSET_replays:
  assumes "lib_laws lb items ok" and "same lb items ok s s'" and "cmdSET lb tm msg s = (r, t)" and "args_fine lb tm (msg_Args msg)"
    and "\<not> panicked r"
  shows "replays lb items ok (cmdSET lb) (msg_Args msg) r t s'"
proof (rule cmdSET_idle [OF assms(1) sameD(1) [OF assms(2)] assms(3-5)])
  assume "t = s" "\<not> updated r"
  with assms(2) show ?thesis by (simp add: replays_def)
next
  fix c key ident opts a oobj fl tab
  assume *: "\<not> outOfMemory s" "msg_Args msg = c # key # ident # opts"
    "setArgs lb (tm_now tm) (msg_Args msg) 3 noSetArgs = Inr a" "sa_oobj a = Some oobj" "geo_fine (lb_gl lb) oobj"
    "\<not> excluded a (lookup lb s key ident)"
    "applyFields lb (oldFields (lookup lb s key ident)) (sa_fields a) (sv_tab s) = Inr (fl, tab)"
  note ok = sameD(1,2) [OF assms(2)]
  let ?obj = "\<lambda>ex. Object_New (lb_gl lb) ident oobj ex fl"
  note eff = cmdSET_effect(2) [OF assms(1) ok(1) *] and run = cmdSET_stores [OF assms(1) ok(1) *]
  let ?resp = "\<lambda>tm msg ex. if sa_ret a
      then buildObjectResponse lb tm (strs tab) msg (?obj ex) (ro_kind (sa_opts a)) (ro_precision (sa_opts a)) (ro_withfields (sa_opts a))
      else Inr (replyOK tm msg (RSimpleString (lit ''OK'')))"
  obtain d where d: "d_updated d" "r = bindE (?resp tm msg (sa_ex a)) (\<lambda>res. Inr (res, d))"
    using run(1) assms(3) by (auto simp del: lit_Cons)
  have resp: "\<exists>res. ?resp tm msg (sa_ex a) = Inr res"
    using d(2) assms(5) response_error [of lb tm "strs tab" msg "?obj (sa_ex a)"]
    by (cases "?resp tm msg (sa_ex a)") (auto split: if_splits simp del: lit_Cons)
  have t: "server_ok lb items ok t" "kept s t" "sv_tab t = tab"
      "lookup lb t = (lookup lb s)(key := (lookup lb s key)(ident \<mapsto> ?obj (sa_ex a)))"
    using eff run(2) assms(3) by simp_all
  show ?thesis
  proof (rule replaysI [OF assms(2) t(1,2)])
    assume "\<not> updated r"
    with d resp show "contents lb t = contents lb s \<and> sv_tab t = sv_tab s" by (auto simp del: lit_Cons)
  next
    fix tm' :: Times
    let ?m = "ownMessage (msg_Args msg)"
    obtain ex where a': "setArgs lb (tm_now tm') (msg_Args ?m) 3 noSetArgs = Inr (a\<lparr>sa_ex := ex\<rparr>)"
      using setArgs_time [OF *(3), of "tm_now tm'" 0, unfolded noSetArgs_time] by (auto simp: ownMessage_def)
    have **: "\<not> outOfMemory s'" "msg_Args ?m = c # key # ident # opts" "sa_oobj (a\<lparr>sa_ex := ex\<rparr>) = Some oobj"
        "\<not> excluded (a\<lparr>sa_ex := ex\<rparr>) (lookup lb s' key ident)"
        "applyFields lb (oldFields (lookup lb s' key ident)) (sa_fields (a\<lparr>sa_ex := ex\<rparr>)) (sv_tab s') = Inr (fl, tab)"
      using * sameD(5,6) [OF assms(2)]
      by (simp_all add: same_excluded [OF assms(2)] same_oldFields [OF assms(2)] ownMessage_def)
    note eff' = cmdSET_effect(2) [OF assms(1) ok(2) **(1,2) a' **(3) *(5) **(4,5)]
      and run' = cmdSET_stores [OF assms(1) ok(2) **(1,2) a' **(3) *(5) **(4,5)]
    obtain t' where t': "t' = snd (cmdSET lb tm' ?m s')" by blast
    obtain res' where "?resp tm' ?m ex = Inr res'"
      using resp response_again [of lb tm "strs tab" msg "?obj (sa_ex a)" "ro_kind (sa_opts a)" "ro_precision (sa_opts a)"
          "ro_withfields (sa_opts a)" _ "?obj ex" tm' "msg_Args msg"]
      by (auto simp: shown_New split: if_splits simp del: lit_Cons)
    then obtain d' where "fst (cmdSET lb tm' ?m s') = Inr (res', d')" using run'(1) by (auto split: if_splits simp del: lit_Cons)
    then have "cmdSET lb tm' ?m s' = (Inr (res', d'), t')" unfolding t' by (metis prod.collapse)
    moreover have "contents lb t = contents lb t'"
      using contents_upd [OF t(4)] contents_upd [of lb t' s' key ident "Some (?obj ex)"] eff' sameD(3) [OF assms(2)]
      by (simp add: t' shown_New)
    ultimately show "\<exists>v d t'. cmdSET lb tm' ?m s' = (Inr (v, d), t') \<and> server_ok lb items ok t'
      \<and> contents lb t = contents lb t' \<and> kept s' t' \<and> sv_tab t = sv_tab t'"
      using eff' run'(2) t(3) unfolding t' by blast
  qed
qed


section \<open>\<^verbatim>\<open>FSET\<close>\<close>

text \<open>The counter counts the fields that were set.\<close>

lemma updateField_count:
  "foldE (updateField lb) fs (fl, tab, n) = Inr (fl', tab', n') \<Longrightarrow> n \<le> n' \<and> (n' = n \<longrightarrow> fl' = fl \<and> tab' = tab)"
proof (induction fs arbitrary: fl tab n)
  case (Cons f fs)
  then obtain fl1 tab1 n1 where step: "updateField lb f (fl, tab, n) = Inr (fl1, tab1, n1)"
      "foldE (updateField lb) fs (fl1, tab1, n1) = Inr (fl', tab', n')"
    by (cases "updateField lb f (fl, tab, n)") auto
  have "n1 = n + 1 \<or> n1 = n \<and> fl1 = fl \<and> tab1 = tab"
    using step(1) by (auto simp: updateField_def bindE_def split: sum.splits if_splits prod.splits)
  with Cons.IH [OF step(2)] show ?case by auto
qed simp

lemma cmdFSET_stores:
  assumes "lib_laws lb items ok" and "server_ok lb items ok s" and "\<not> outOfMemory s" and "5 \<le> length (msg_Args msg)"
    and "fsetArgs (lb_gj lb) (msg_Args msg) 3 noFsetArgs = Inr a" and "lookup lb s (msg_Args msg ! 1) (msg_Args msg ! 2) = Some x"
    and "foldE (updateField lb) (fa_fields a) (Object_Fields x, sv_tab s, 0) = Inr (fl, tab, n)"
  defines "key \<equiv> msg_Args msg ! 1" and "ident \<equiv> msg_Args msg ! 2"
  defines "obj \<equiv> Object_New (lb_gl lb) (msg_Args msg ! 2) (ogeom (lb_gl lb) x) (oexpires x) fl"
  shows "\<exists>d. d_updated d = (0 < n) \<and> fst (cmdFSET lb tm msg s) = bindE (if fa_ret a
      then buildObjectResponse lb tm (strs tab) msg obj (ro_kind (fa_opts a)) (ro_precision (fa_opts a)) (ro_withfields (fa_opts a))
      else Inr (replyOK tm msg (RInteger n))) (\<lambda>res. Inr (res, d))"
    and "kept s (snd (cmdFSET lb tm msg s))" and "sv_tab (snd (cmdFSET lb tm msg s)) = tab"
    and "lookup lb (snd (cmdFSET lb tm msg s)) = (lookup lb s)(key := (lookup lb s key)(ident \<mapsto> obj))"
proof -
  obtain col where col: "getCol lb key s = Some col" "stored lb col ident = Some x"
    using assms(6) by (auto simp: lookup_def key_def ident_def split: option.splits)
  define d where "d = noDetails\<lparr>d_command := lit ''fset'', d_key := key, d_obj := Some obj, d_timestamp := tm_stamp tm, d_updated := n > 0\<rparr>"
  have run: "cmdFSET lb tm msg s = (bindE (if fa_ret a
      then buildObjectResponse lb tm (strs tab) msg obj (ro_kind (fa_opts a)) (ro_precision (fa_opts a)) (ro_withfields (fa_opts a))
      else Inr (replyOK tm msg (RInteger n))) (\<lambda>res. Inr (res, d)),
      putCol lb key (snd (Collection_Set (lb_tr lb) (lb_gl lb) obj col)) (s\<lparr>sv_tab := tab\<rparr>))"
    using assms(3-5,7) col unfolding cmdFSET_def Let_def key_def [symmetric] ident_def [symmetric] d_def obj_def
    by (simp add: Collection_Get_def del: lit_Cons)
  then show "\<exists>d. d_updated d = (0 < n) \<and> fst (cmdFSET lb tm msg s) = bindE (if fa_ret a
      then buildObjectResponse lb tm (strs tab) msg obj (ro_kind (fa_opts a)) (ro_precision (fa_opts a)) (ro_withfields (fa_opts a))
      else Inr (replyOK tm msg (RInteger n))) (\<lambda>res. Inr (res, d))"
    by (intro exI [of _ d]) (simp add: d_def)
  show "kept s (snd (cmdFSET lb tm msg s))" "sv_tab (snd (cmdFSET lb tm msg s)) = tab" by (simp_all add: run)
  show "lookup lb (snd (cmdFSET lb tm msg s)) = (lookup lb s)(key := (lookup lb s key)(ident \<mapsto> obj))"
    using restore_effect(3) [OF assms(1) server_ok_frame(1) [OF assms(2), of tab] _ col(2), of key "oexpires x" fl] col
    by (simp add: run obj_def ident_def)
qed

lemma cmdFSET_idle:
  assumes "cmdFSET lb tm msg s = (r, t)" and "\<not> panicked r"
  obtains "t = s" "\<not> updated r"
  | a x fl tab n where "\<not> outOfMemory s" "5 \<le> length (msg_Args msg)" "fsetArgs (lb_gj lb) (msg_Args msg) 3 noFsetArgs = Inr a"
    "lookup lb s (msg_Args msg ! 1) (msg_Args msg ! 2) = Some x"
    "foldE (updateField lb) (fa_fields a) (Object_Fields x, sv_tab s, 0) = Inr (fl, tab, n)"
proof (cases "\<exists>a x. \<not> outOfMemory s \<and> 5 \<le> length (msg_Args msg) \<and> fsetArgs (lb_gj lb) (msg_Args msg) 3 noFsetArgs = Inr a
    \<and> lookup lb s (msg_Args msg ! 1) (msg_Args msg ! 2) = Some x")
  case False
  then have "t = s \<and> \<not> updated r" using assms
    by (auto simp: cmdFSET_def Collection_Get_def lookup_def noDetails_def Let_def split: sum.splits option.splits if_splits)
  then show thesis using that(1) by blast
next
  case True
  then obtain a x where *: "\<not> outOfMemory s" "5 \<le> length (msg_Args msg)" "fsetArgs (lb_gj lb) (msg_Args msg) 3 noFsetArgs = Inr a"
    "lookup lb s (msg_Args msg ! 1) (msg_Args msg ! 2) = Some x" by blast
  obtain p where "foldE (updateField lb) (fa_fields a) (Object_Fields x, sv_tab s, 0) = Inr p"
    using assms * by (cases "foldE (updateField lb) (fa_fields a) (Object_Fields x, sv_tab s, 0)")
      (auto simp: cmdFSET_def Collection_Get_def lookup_def Let_def split: option.splits)
  then show thesis using that(2) [OF *] by (cases p) auto
qed

lemma cmdFSET_replays:
  assumes "lib_laws lb items ok" and "same lb items ok s s'" and "cmdFSET lb tm msg s = (r, t)" and "\<not> panicked r"
  shows "replays lb items ok (cmdFSET lb) (msg_Args msg) r t s'"
proof (rule cmdFSET_idle [OF assms(3,4)])
  assume "t = s" "\<not> updated r"
  with assms(2) show ?thesis by (simp add: replays_def)
next
  fix a x fl tab n
  let ?key = "msg_Args msg ! 1" and ?ident = "msg_Args msg ! 2"
  assume *: "\<not> outOfMemory s" "5 \<le> length (msg_Args msg)" "fsetArgs (lb_gj lb) (msg_Args msg) 3 noFsetArgs = Inr a"
    "lookup lb s ?key ?ident = Some x" "foldE (updateField lb) (fa_fields a) (Object_Fields x, sv_tab s, 0) = Inr (fl, tab, n)"
  note ok = sameD(1,2) [OF assms(2)]
  let ?obj = "\<lambda>x. Object_New (lb_gl lb) ?ident (ogeom (lb_gl lb) x) (oexpires x) fl"
  let ?resp = "\<lambda>tm msg x. if fa_ret a
      then buildObjectResponse lb tm (strs tab) msg (?obj x) (ro_kind (fa_opts a)) (ro_precision (fa_opts a)) (ro_withfields (fa_opts a))
      else Inr (replyOK tm msg (RInteger n))"
  note run = cmdFSET_stores [OF assms(1) ok(1) *, of tm]
  obtain d where d: "d_updated d = (0 < n)" "r = bindE (?resp tm msg x) (\<lambda>res. Inr (res, d))" using run(1) assms(3) by auto
  have resp: "\<exists>res. ?resp tm msg x = Inr res"
    using d(2) assms(4) response_error [of lb tm "strs tab" msg "?obj x"] by (cases "?resp tm msg x") (auto split: if_splits)
  have t: "kept s t" "sv_tab t = tab" "lookup lb t = (lookup lb s)(?key := (lookup lb s ?key)(?ident \<mapsto> ?obj x))"
    using run(2-) assms(3) by simp_all
  have t_ok: "server_ok lb items ok t" using cmdFSET_ok [OF assms(1) ok(1), of tm msg] assms(3) by simp
  show ?thesis
  proof (rule replaysI [OF assms(2) t_ok t(1)])
    assume "\<not> updated r"
    then have "n = 0" using d resp updateField_count [OF *(5)] by auto
    with updateField_count [OF *(5)] have "fl = Object_Fields x" "tab = sv_tab s" by simp_all
    with t(2,3) contents_restored [OF assms(1) ok(1) *(4), of t "oexpires x"]
    show "contents lb t = contents lb s \<and> sv_tab t = sv_tab s" by simp
  next
    fix tm' :: Times
    let ?m = "ownMessage (msg_Args msg)"
    obtain x' where x': "lookup lb s' ?key ?ident = Some x'" "shown lb x' = shown lb x" using same_lookup(2) [OF assms(2) *(4)] by blast
    have **: "5 \<le> length (msg_Args ?m)" "fsetArgs (lb_gj lb) (msg_Args ?m) 3 noFsetArgs = Inr a"
        "lookup lb s' (msg_Args ?m ! 1) (msg_Args ?m ! 2) = Some x'"
        "foldE (updateField lb) (fa_fields a) (Object_Fields x', sv_tab s', 0) = Inr (fl, tab, n)"
      using * x' sameD(5) [OF assms(2)] by (simp_all add: ownMessage_def shown_def)
    note run' = cmdFSET_stores [OF assms(1) ok(2) sameD(6) [OF assms(2)] **, of tm']
    have args: "msg_Args ?m = msg_Args msg" by (simp add: ownMessage_def)
    define t' where "t' = snd (cmdFSET lb tm' ?m s')"
    have shown: "shown lb (?obj x) = shown lb (?obj x')" using x'(2) by (simp add: shown_New) (simp add: shown_def)
    obtain res' where "?resp tm' ?m x' = Inr res'"
      using resp response_again [OF _ shown, of tm "strs tab" msg "ro_kind (fa_opts a)" "ro_precision (fa_opts a)"
          "ro_withfields (fa_opts a)" _ tm' "msg_Args msg"]
      by (auto split: if_splits)
    then obtain d' where "fst (cmdFSET lb tm' ?m s') = Inr (res', d')" using run'(1) args by (auto split: if_splits)
    then have "cmdFSET lb tm' ?m s' = (Inr (res', d'), t')" unfolding t'_def by (metis prod.collapse)
    moreover have "contents lb t = contents lb t'"
      using contents_upd [OF t(3)] contents_upd [of lb t' s' ?key ?ident "Some (?obj x')"] run'(4) args sameD(3) [OF assms(2)] shown
      by (simp add: t'_def)
    moreover have "server_ok lb items ok t'" unfolding t'_def by (rule cmdFSET_ok [OF assms(1) ok(2)])
    ultimately show "\<exists>v d t'. cmdFSET lb tm' ?m s' = (Inr (v, d), t') \<and> server_ok lb items ok t'
      \<and> contents lb t = contents lb t' \<and> kept s' t' \<and> sv_tab t = sv_tab t'"
      using run'(2,3) t(2) unfolding t'_def by blast
  qed
qed


section \<open>\<^verbatim>\<open>JSET\<close>\<close>

definition foundCol where
  "foundCol lb key s = (case getCol lb key s of Some c \<Rightarrow> c | None \<Rightarrow> Collection_New (lb_tr lb))"

lemma stored_foundCol: "lib_laws lb items ok \<Longrightarrow> stored lb (foundCol lb key s) = lookup lb s key"
  using stored_New [of lb items ok] by (simp add: foundCol_def lookup_def split: option.split)

lemma jsonOf_same:
  assumes "lib_laws lb items ok" and "same lb items ok s s'"
  shows "jsonOf lb ident (foundCol lb key s') = jsonOf lb ident (foundCol lb key s)"
  using same_lookup(1,2) [OF assms(2), of key ident]
  by (cases "lookup lb s key ident")
     (auto simp: jsonOf_def Collection_Get_def stored_foundCol [OF assms(1)] shown_def)

lemma jsonStore_stores:
  assumes "lib_laws lb items ok" and "server_ok lb items ok s"
    and "jsonStore lb tm msg key ident json fl (foundCol lb key s) res
      (if getCol lb key s = None then putCol lb key (foundCol lb key s) s else s) = (r, t)"
  shows "\<exists>v d. r = Inr (v, d) \<and> d_updated d" and "server_ok lb items ok t" and "kept s t" and "sv_tab t = sv_tab s"
    and "lookup lb t = (lookup lb s)(key := (lookup lb s key)(ident \<mapsto> Object_New (lb_gl lb) ident (GString json) 0 fl))"
proof -
  define s1 where "s1 = (if getCol lb key s = None then putCol lb key (foundCol lb key s) s else s)"
  have ok: "col_ok lb items (foundCol lb key s)" "server_but lb items ok key s1"
    using col_ok_New [OF assms(1)] server_okD(1) [OF assms(2)]
    by (auto simp: foundCol_def s1_def server_but_putCol [OF assms(1)] server_but_ok [OF assms(2)] split: option.splits)
  note eff = store_effect [OF assms(1) ok(2,1) geo_fine_string refl, of ident json 0 fl]
  have t: "t = putCol lb key (snd (Collection_Set (lb_tr lb) (lb_gl lb) (Object_New (lb_gl lb) ident (GString json) 0 fl)
      (foundCol lb key s))) s1"
    using assms(3) unfolding s1_def [symmetric] by (auto simp: jsonStore_def Let_def split: out_type.splits)
  show "\<exists>v d. r = Inr (v, d) \<and> d_updated d"
    using assms(3) unfolding s1_def [symmetric] by (auto simp: jsonStore_def noDetails_def Let_def split: out_type.splits)
  show "server_ok lb items ok t" unfolding t by (rule eff(1))
  show "kept s t" "sv_tab t = sv_tab s" unfolding t s1_def by simp_all
  show "lookup lb t = (lookup lb s)(key := (lookup lb s key)(ident \<mapsto> Object_New (lb_gl lb) ident (GString json) 0 fl))"
    unfolding t eff(2) stored_foundCol [OF assms(1)] by (simp add: s1_def lookup_putCol [OF assms(1)])
qed

lemma replays_cong:
  assumes "replays lb items ok cmd args r t s'" and "\<And>tm. cmd' tm (ownMessage args') s' = cmd tm (ownMessage args) s'"
  shows "replays lb items ok cmd' args' r t s'"
  using assms by (simp add: replays_def)

lemma cmdJset_unfold:
  "cmdJset sj lb tm msg s =
     (let args = msg_Args msg; key = args ! 1; ident = args ! 2 in
      case jsetRaw args of
        Inl e \<Rightarrow> (Inl e, s)
      | Inr raw \<Rightarrow>
          (case jsonOf lb ident (foundCol lb key s) of (geoobj, json, fl) \<Rightarrow>
           case (if raw then sj_SetRaw sj json (args ! 3) (args ! 4) else sj_Set sj json (args ! 3) (args ! 4)) of
             Inl err \<Rightarrow> (Inl (ErrGeoJSON err), s)
           | Inr json' \<Rightarrow>
               if geoobj then cmdSET lb tm (msg\<lparr>msg_Args := [lit ''SET'', key, ident, lit ''OBJECT'', json']\<rparr>) s
               else jsonStore lb tm msg key ident json' fl (foundCol lb key s) (RSimpleString (lit ''OK''))
                      (if getCol lb key s = None then putCol lb key (foundCol lb key s) s else s)))"
  by (simp add: cmdJset_def foundCol_def jsonAsSET_def Let_def split: sum.split prod.split option.split del: lit_Cons)

lemma cmdJset_replays:
  assumes "lib_laws lb items ok" and "same lb items ok s s'" and "cmdJset sj lb tm msg s = (r, t)" and "msg_fine lb tm msg"
    and "\<not> panicked r"
  shows "replays lb items ok (cmdJset sj lb) (msg_Args msg) r t s'"
proof -
  define key where "key = msg_Args msg ! 1"
  define ident where "ident = msg_Args msg ! 2"
  define path where "path = msg_Args msg ! 3"
  define val where "val = msg_Args msg ! 4"
  have unfold: "cmdJset sj lb tm m u = (case jsetRaw (msg_Args msg) of
        Inl e \<Rightarrow> (Inl e, u)
      | Inr raw \<Rightarrow>
          (case jsonOf lb ident (foundCol lb key u) of (geoobj, json, fl) \<Rightarrow>
           case (if raw then sj_SetRaw sj json path val else sj_Set sj json path val) of
             Inl err \<Rightarrow> (Inl (ErrGeoJSON err), u)
           | Inr json' \<Rightarrow>
               if geoobj then cmdSET lb tm (m\<lparr>msg_Args := [lit ''SET'', key, ident, lit ''OBJECT'', json']\<rparr>) u
               else jsonStore lb tm m key ident json' fl (foundCol lb key u) (RSimpleString (lit ''OK''))
                      (if getCol lb key u = None then putCol lb key (foundCol lb key u) u else u)))"
    if "msg_Args m = msg_Args msg" for tm m u
    by (simp only: cmdJset_unfold Let_def that key_def ident_def path_def val_def)
  note ok = sameD(1,2) [OF assms(2)]
  obtain geoobj json fl where jo: "jsonOf lb ident (foundCol lb key s) = (geoobj, json, fl)" by (metis prod_cases3)
  then have jo': "jsonOf lb ident (foundCol lb key s') = (geoobj, json, fl)" using jsonOf_same [OF assms(1,2)] by simp
  have args: "msg_Args (ownMessage (msg_Args msg)) = msg_Args msg" by (simp add: ownMessage_def)
  show ?thesis
  proof (cases "\<exists>raw json'. jsetRaw (msg_Args msg) = Inr raw
      \<and> (if raw then sj_SetRaw sj json path val else sj_Set sj json path val) = Inr json'")
    case False
    then have "t = s \<and> \<not> updated r" using assms(3)
      by (auto simp: unfold jo split: sum.splits if_splits simp del: lit_Cons)
    with assms(2) show ?thesis by (simp add: replays_def)
  next
    case True
    then obtain raw json' where raw: "jsetRaw (msg_Args msg) = Inr raw"
        "(if raw then sj_SetRaw sj json path val else sj_Set sj json path val) = Inr json'" by blast
    let ?set = "[lit ''SET'', key, ident, lit ''OBJECT'', json']"
    show ?thesis
    proof (cases geoobj)
      case True
      have run: "cmdSET lb tm (msg\<lparr>msg_Args := ?set\<rparr>) s = (r, t)"
        using assms(3) raw jo True by (simp add: unfold del: lit_Cons)
      have own: "(ownMessage (msg_Args msg))\<lparr>msg_Args := ?set\<rparr> = ownMessage ?set" by (simp add: ownMessage_def)
      have "args_fine lb tm ?set" using assms(4) unfolding msg_fine_def key_def ident_def by blast
      then have "replays lb items ok (cmdSET lb) ?set r t s'"
        using cmdSET_replays [OF assms(1,2) run _ assms(5)] by (simp del: lit_Cons)
      then show ?thesis
        by (rule replays_cong) (use raw jo' True own in \<open>simp add: unfold args del: lit_Cons\<close>)
    next
      case False
      let ?store = "\<lambda>tm msg s. jsonStore lb tm msg key ident json' fl (foundCol lb key s) (RSimpleString (lit ''OK''))
        (if getCol lb key s = None then putCol lb key (foundCol lb key s) s else s)"
      have run: "cmdJset sj lb tm msg s = ?store tm msg s" "\<And>tm'. cmdJset sj lb tm' (ownMessage (msg_Args msg)) s' = ?store tm' (ownMessage (msg_Args msg)) s'"
        using raw jo jo' False by (simp_all add: unfold args del: lit_Cons)
      note st = jsonStore_stores [OF assms(1) ok(1) run(1) [symmetric, unfolded assms(3)]]
      show ?thesis
      proof (rule replaysI [OF assms(2) st(2,3)])
        assume "\<not> updated r"
        with st(1) show "contents lb t = contents lb s \<and> sv_tab t = sv_tab s" by auto
      next
        fix tm' :: Times
        obtain r' t' where run': "?store tm' (ownMessage (msg_Args msg)) s' = (r', t')" by fastforce
        note st' = jsonStore_stores [OF assms(1) ok(2) run']
        have "contents lb t = contents lb t'"
          using contents_upd [OF st(5)] contents_upd [OF st'(5)] sameD(3) [OF assms(2)] by simp
        with st' st(4) sameD(5) [OF assms(2)] run(2) [of tm'] run'
        show "\<exists>v d t'. cmdJset sj lb tm' (ownMessage (msg_Args msg)) s' = (Inr (v, d), t') \<and> server_ok lb items ok t'
          \<and> contents lb t = contents lb t' \<and> kept s' t' \<and> sv_tab t = sv_tab t'" by (auto simp del: lit_Cons)
      qed
    qed
  qed
qed

end
