(* ===== verification/Server_Silent.thy ===== *)
theory Server_Silent
  imports Server_Replay
begin

text \<open>
  What does not go to the log did not happen: a command on the list of writes whose details are not marked as an update leaves every object, with its
  geometry, fields and expiration, and every hook as it was.
\<close>

definition visible where
  "visible lb s k i = map_option (\<lambda>x. (shown lb x, oexpires x)) (lookup lb s k i)"

definition silent where
  "silent lb s r t \<longleftrightarrow> updated r \<or> visible lb t = visible lb s \<and> sv_hooks t = sv_hooks s"

lemma visible_eq: "lookup lb s = lookup lb t \<Longrightarrow> visible lb s = visible lb t"
  by (simp add: visible_def fun_eq_iff)

lemma silent_lookup: "(\<not> updated r \<Longrightarrow> lookup lb t = lookup lb s) \<Longrightarrow> kept s t \<Longrightarrow> silent lb s r t"
  using visible_eq [of lb t s] by (auto simp: silent_def kept_def)

lemma silent_same: "(\<not> updated r \<Longrightarrow> t = s) \<Longrightarrow> silent lb s r t"
  by (auto simp: silent_def)

lemma cmdDEL_silent:
  assumes "lib_laws lb items ok" and "server_ok lb items ok s" and "cmdDEL lb tm msg s = (r, t)"
  shows "silent lb s r t"
proof (rule silent_lookup [OF _ cmdDEL_kept(1) [OF assms(3)]])
  assume "\<not> updated r"
  then show "lookup lb t = lookup lb s"
    by (rule not_updated_cases) (simp_all add: cmdDEL_effect(2,3) [OF assms] fun_upd_idem)
qed

lemma cmdDROP_silent:
  assumes "lib_laws lb items ok" and "server_ok lb items ok s" and "cmdDROP lb tm msg s = (r, t)"
  shows "silent lb s r t"
proof (rule silent_lookup [OF _ cmdDROP_kept(1) [OF assms(3)]])
  assume "\<not> updated r"
  then show "lookup lb t = lookup lb s"
    by (rule not_updated_cases) (simp_all add: cmdDROP_effect(2,3) [OF assms] fun_upd_idem)
qed

lemma cmdRENAME_silent:
  assumes "lib_laws lb items ok" and "server_ok lb items ok s" and "cmdRENAME lb tm msg s = (r, t)"
  shows "silent lb s r t"
proof (rule silent_lookup [OF _ cmdRENAME_kept(1) [OF assms(3)]])
  assume "\<not> updated r"
  then show "lookup lb t = lookup lb s"
    by (rule not_updated_cases) (simp_all add: cmdRENAME_effect(2,3) [OF assms])
qed

lemma cmdPDEL_silent:
  assumes "lib_laws lb items ok" and "scan_laws (lb_tr lb)" and "server_ok lb items ok s" and "cmdPDEL lb tm msg s = (r, t)"
    and "msg_Deadline msg = None" and "fits_memory lb s"
  shows "silent lb s r t"
proof (cases "\<exists>c key pattern. msg_Args msg = [c, key, pattern]")
  case False
  then have "t = s" using assms(4) by (auto simp: cmdPDEL_def split: list.splits)
  then show ?thesis by (rule silent_same)
next
  case True
  then obtain c key pattern where args: "msg_Args msg = [c, key, pattern]" by blast
  obtain v d where r: "r = Inr (v, d)"
    "lookup lb t = (lookup lb s)(key := (\<lambda>i. if selected pattern i then None else lookup lb s key i))"
    "d_updated d = (\<exists>i \<in> dom (lookup lb s key). selected pattern i)"
    using cmdPDEL_effect [OF assms(1-3) args assms(5), of tm] assms(4,6) by (auto simp: fits_memory_def)
  show ?thesis
  proof (rule silent_lookup [OF _ cmdPDEL_kept(1) [OF assms(4)]])
    assume "\<not> updated r"
    then have "\<forall>i. selected pattern i \<longrightarrow> lookup lb s key i = None" using r(1,3) by auto
    then have "(\<lambda>i. if selected pattern i then None else lookup lb s key i) = lookup lb s key" by auto
    then show "lookup lb t = lookup lb s" by (simp only: r(2) fun_upd_triv)
  qed
qed

lemma cmdEXPIRE_silent: "cmdEXPIRE lb tm msg s = (r, t) \<Longrightarrow> silent lb s r t"
  by (rule silent_same)
     (auto simp: cmdEXPIRE_def Let_def split: list.splits option.splits prod.splits out_type.splits if_splits)

lemma cmdPERSIST_silent: "cmdPERSIST lb tm msg s = (r, t) \<Longrightarrow> silent lb s r t"
  by (rule silent_same)
     (auto simp: cmdPERSIST_def Let_def split: list.splits option.splits if_splits)

lemma cmdDelHook_silent:
  assumes "cmdDelHook lb tm msg s = (r, t)"
  shows "silent lb s r t"
proof (rule silent_same)
  assume "\<not> updated r"
  have idle: "snd (cmdDELHOOKop lb name channel s) = s" if "\<not> fst (cmdDELHOOKop lb name channel s)" for name channel
    using that by (auto simp: cmdDELHOOKop_def Let_def split: option.splits if_splits)
  from \<open>\<not> updated r\<close> assms show "t = s"
    by (auto simp: cmdDelHook_def noDetails_def Let_def case_prod_beta split: list.splits if_splits out_type.splits intro!: idle simp del: lit_Cons)
qed

lemma cmdPDelHook_silent:
  assumes "cmdPDelHook lb tm msg s = (r, t)"
  shows "silent lb s r t"
  using assms
  by (intro silent_same)
     (auto simp: cmdPDelHook_def noDetails_def Let_def case_prod_beta split: list.splits if_splits out_type.splits simp del: lit_Cons)

lemma cmdFLUSHDB_silent:
  assumes "cmdFLUSHDB lb tm msg s = (r, t)"
  shows "silent lb s r t"
proof (cases "length (msg_Args msg) = 1")
  case True
  then show ?thesis using cmdFLUSHDB_run [OF True, of lb tm s] assms by (auto simp: silent_def)
next
  case False
  then have "t = s" using assms by (auto simp: cmdFLUSHDB_def)
  then show ?thesis by (rule silent_same)
qed

lemma cmdSET_silent:
  assumes "lib_laws lb items ok" and "server_ok lb items ok s" and "cmdSET lb tm msg s = (r, t)" and "args_fine lb tm (msg_Args msg)"
    and "\<not> panicked r"
  shows "silent lb s r t"
proof (rule cmdSET_idle [OF assms])
  assume "t = s"
  then show ?thesis by (rule silent_same)
next
  fix c key ident opts a oobj fl tab
  assume *: "\<not> outOfMemory s" "msg_Args msg = c # key # ident # opts"
    "setArgs lb (tm_now tm) (msg_Args msg) 3 noSetArgs = Inr a" "sa_oobj a = Some oobj" "geo_fine (lb_gl lb) oobj"
    "\<not> excluded a (lookup lb s key ident)"
    "applyFields lb (oldFields (lookup lb s key ident)) (sa_fields a) (sv_tab s) = Inr (fl, tab)"
  obtain d where d: "d_updated d" "r = bindE (if sa_ret a
      then buildObjectResponse lb tm (strs tab) msg (Object_New (lb_gl lb) ident oobj (sa_ex a) fl)
             (ro_kind (sa_opts a)) (ro_precision (sa_opts a)) (ro_withfields (sa_opts a))
      else Inr (replyOK tm msg (RSimpleString (lit ''OK'')))) (\<lambda>res. Inr (res, d))"
    using cmdSET_stores(1) [OF assms(1,2) *] assms(3) by auto
  then have "updated r"
    using assms(5) response_error [of lb tm "strs tab" msg "Object_New (lb_gl lb) ident oobj (sa_ex a) fl"]
    by (auto simp: bindE_def updated_def split: sum.splits if_splits simp del: lit_Cons)
  then show ?thesis by (simp add: silent_def)
qed

lemma cmdFSET_silent:
  assumes "lib_laws lb items ok" and "server_ok lb items ok s" and "cmdFSET lb tm msg s = (r, t)" and "\<not> panicked r"
  shows "silent lb s r t"
proof (rule cmdFSET_idle [OF assms(3,4)])
  assume "t = s"
  then show ?thesis by (rule silent_same)
next
  fix a x fl tab n
  let ?key = "msg_Args msg ! 1" and ?ident = "msg_Args msg ! 2"
  assume *: "\<not> outOfMemory s" "5 \<le> length (msg_Args msg)" "fsetArgs (lb_gj lb) (msg_Args msg) 3 noFsetArgs = Inr a"
    "lookup lb s ?key ?ident = Some x" "foldE (updateField lb) (fa_fields a) (Object_Fields x, sv_tab s, 0) = Inr (fl, tab, n)"
  let ?obj = "Object_New (lb_gl lb) ?ident (ogeom (lb_gl lb) x) (oexpires x) fl"
  let ?resp = "if fa_ret a
      then buildObjectResponse lb tm (strs tab) msg ?obj (ro_kind (fa_opts a)) (ro_precision (fa_opts a)) (ro_withfields (fa_opts a))
      else Inr (replyOK tm msg (RInteger n))"
  note run = cmdFSET_stores [OF assms(1,2) *, of tm]
  obtain d where d: "d_updated d = (0 < n)" "r = bindE ?resp (\<lambda>res. Inr (res, d))" using run(1) assms(3) by auto
  have resp: "\<exists>res. ?resp = Inr res"
    using d(2) assms(4) response_error [of lb tm "strs tab" msg ?obj] by (cases ?resp) (auto split: if_splits)
  show ?thesis
  proof (cases "0 < n")
    case True
    with d resp show ?thesis by (auto simp: silent_def)
  next
    case False
    with updateField_count [OF *(5)] have "fl = Object_Fields x" by simp
    moreover have "kept_geo (lb_gl lb) (ogeom (lb_gl lb) x) = ogeom (lb_gl lb) x" by (rule lookup_kept_geo [OF assms(1,2) *(4)])
    ultimately have obj: "(shown lb ?obj, oexpires ?obj) = (shown lb x, oexpires x)"
      by (simp add: shown_New) (simp add: shown_def)
    have "visible lb t = visible lb s"
      using run(4) assms(3) obj *(4) by (auto simp: visible_def fun_eq_iff)
    with run(2) assms(3) show ?thesis by (simp add: silent_def kept_def)
  qed
qed

lemma cmdJset_silent:
  assumes "lib_laws lb items ok" and "server_ok lb items ok s" and "cmdJset sj lb tm msg s = (r, t)" and "msg_fine lb tm msg"
    and "\<not> panicked r"
  shows "silent lb s r t"
proof -
  define key where "key = msg_Args msg ! 1"
  define ident where "ident = msg_Args msg ! 2"
  obtain geoobj json fl where jo: "jsonOf lb ident (foundCol lb key s) = (geoobj, json, fl)" by (metis prod_cases3)
  note run = assms(3) [unfolded cmdJset_unfold Let_def, folded key_def ident_def, unfolded jo prod.case]
  show ?thesis
  proof (cases "\<exists>raw json'. jsetRaw (msg_Args msg) = Inr raw
      \<and> (if raw then sj_SetRaw sj json (msg_Args msg ! 3) (msg_Args msg ! 4) else sj_Set sj json (msg_Args msg ! 3) (msg_Args msg ! 4)) = Inr json'")
    case False
    then have "t = s" using run by (auto split: sum.splits if_splits simp del: lit_Cons)
    then show ?thesis by (rule silent_same)
  next
    case True
    then obtain raw json' where raw: "jsetRaw (msg_Args msg) = Inr raw"
      "(if raw then sj_SetRaw sj json (msg_Args msg ! 3) (msg_Args msg ! 4) else sj_Set sj json (msg_Args msg ! 3) (msg_Args msg ! 4)) = Inr json'"
      by blast
    let ?set = "[lit ''SET'', key, ident, lit ''OBJECT'', json']"
    show ?thesis
    proof (cases geoobj)
      case True
      have set: "cmdSET lb tm (msg\<lparr>msg_Args := ?set\<rparr>) s = (r, t)" using run raw True by (simp del: lit_Cons)
      have "args_fine lb tm (msg_Args (msg\<lparr>msg_Args := ?set\<rparr>))"
        using assms(4) unfolding msg_fine_def key_def ident_def by (simp del: lit_Cons)
      then show ?thesis by (rule cmdSET_silent [OF assms(1,2) set _ assms(5)])
    next
      case False
      then have "jsonStore lb tm msg key ident json' fl (foundCol lb key s) (RSimpleString (lit ''OK''))
          (if getCol lb key s = None then putCol lb key (foundCol lb key s) s else s) = (r, t)"
        using run raw by (simp del: lit_Cons)
      from jsonStore_stores(1) [OF assms(1,2) this] show ?thesis by (auto simp: silent_def)
    qed
  qed
qed

end
