(* ===== verification/Server_Demo.thy ===== *)
theory Server_Demo
  imports Server_Reach Field_List_Properties
begin

text \<open>
  A concrete server, with plain lists for the trees and maps of the libraries, which satisfies every law the commands
  rely on, and a small database in it.
\<close>

section \<open>A concrete server\<close>

text \<open>Geometries that are simple points, or something else, at the origin.\<close>

definition demo_pt_gl :: "(gostring option, gostring) geojson_lib" where
  "demo_pt_gl = \<lparr>gl_type = (\<lambda>g. case g of Some p \<Rightarrow> TSimplePoint | None \<Rightarrow> TOther), gl_IsSimple = (\<lambda>g. False),
     gl_Base = (\<lambda>g. case g of Some p \<Rightarrow> p | None \<Rightarrow> []), gl_SimplePoint = Some, gl_Spatial = (\<lambda>g. True),
     gl_Empty = (\<lambda>g. False), gl_Rect = (\<lambda>g. zeroRect), gl_String = (\<lambda>g. []), gl_NumPoints = (\<lambda>g. 1),
     gl_Within = (\<lambda>a b. a = b), gl_Intersects = (\<lambda>a b. True)\<rparr>"

definition demo_gx :: "gostring option geojson_ext" where
  "demo_gx = \<lparr>gx_AppendJSON = (\<lambda>g. []), gx_Center = (\<lambda>g. (0, 0)), gx_PointZ = (\<lambda>g. None), gx_FeatureBase = (\<lambda>g. None),
     gx_NewPoint = (\<lambda>x y. Some []), gx_NewPointZ = (\<lambda>x y z. None), gx_NewRect = (\<lambda>r. None), gx_Parse = (\<lambda>s. Inr None),
     gh_Decode = (\<lambda>s. (0, 0)), gh_Encode = (\<lambda>y x n. [])\<rparr>"

definition demo_mp :: "((gostring \<times> 'v) list, 'v) map_lib" where
  "demo_mp =
     (let ks = (\<lambda>c. sort (remdups (map fst c))); scan = (\<lambda>c. map (\<lambda>k. (k, the (map_of c k))) (ks c)) in
      \<lparr>mp_Get = map_of, mp_Set = (\<lambda>c k v. (k, v) # c), mp_Delete = (\<lambda>c k. filter (\<lambda>e. fst e \<noteq> k) c),
       mp_Scan = scan, mp_Ascend = (\<lambda>c p. filter (\<lambda>e. p \<le> fst e) (scan c)), mp_Keys = ks, mp_Empty = []\<rparr>)"

definition demo_lb where
  "demo_lb = \<lparr>lb_tr = demo_tr, lb_gl = demo_pt_gl, lb_gx = demo_gx, lb_mp = demo_mp, lb_hk = demo_bt, lb_gr = demo_bt,
     lb_rt = \<lparr>hr_Delete = (\<lambda>x r h. remove1 (r, h) x), hr_Empty = []\<rparr>, lb_hm = demo_hm, lb_gj = demo_gj,
     lb_out = (\<lambda>x. 0x8000000000000000)\<rparr>"

definition emptyServer where
  "emptyServer lb tab mem =
     \<lparr>sv_cols = mp_Empty (lb_mp lb), sv_hooks = bt_Empty (lb_hk lb), sv_hooksOut = bt_Empty (lb_hk lb),
      sv_hookExpires = bt_Empty (lb_hk lb),
      sv_groups = \<lparr>groupHooks = bt_Empty (lb_gr lb), groupObjects = bt_Empty (lb_gr lb)\<rparr>,
      sv_hookTree = hr_Empty (lb_rt lb), sv_hookCross = hr_Empty (lb_rt lb), sv_closed = [], sv_tab = tab,
      sv_maxMemory = mem, sv_outOfMemory = False, sv_statsExpired = 0\<rparr>"

definition demo_tm :: "64 word \<Rightarrow> Times" where
  "demo_tm now = \<lparr>tm_now = now, tm_stamp = now, tm_elapsed = lit ''1ms'', tm_clock = (\<lambda>_. 0), tm_end = 0\<rparr>"

definition demo_msg :: "string list \<Rightarrow> Message" where
  "demo_msg args = \<lparr>msg_Args = map lit args, msg_OutputType = ORESP, msg_Deadline = None\<rparr>"

definition demo_start where
  "demo_start = emptyServer demo_lb demo_tab 0"

lemma demo_map_laws: "map_laws demo_mp"
proof -
  have "map_of (filter (\<lambda>e. fst e \<noteq> k) c) = (map_of c)(k := None)" for k :: gostring and c :: "(gostring \<times> 'a) list"
    by (induction c) auto
  then show ?thesis
    by (auto simp: map_laws_def demo_mp_def Let_def finite_dom_map_of dom_map_of_conv_image_fst
        sorted_list_of_set_sort_remdups [symmetric])
qed

lemma demo_laws: "lib_laws demo_lb mset sorted_wrt"
  using demo_tree_laws demo_map_laws demo_group_laws
  by (simp add: lib_laws_def demo_lb_def geo_laws_def demo_pt_gl_def)

lemma demo_fine: "geo_fine (lb_gl demo_lb) geo"
proof -
  have zero: "\<not> f_isnan 0" "\<not> f_isinf 0" "fst (f_ratio 0) = 0"
    by (simp_all add: f_isnan_def f_isinf_def f_mag_def f_ratio_def f_exp_def f_frac_def scale_up_def Let_def)
  then have "f32 0 = 0" unfolding f32_def by (cases "f_ratio 0") auto
  then have "rect_ordered (rtreeRect zeroRect)"
    using zero by (simp add: rect_ordered_def rtreeRect_def zeroRect_def rtreeValueDown_def rtreeValueUp_def)
  then show ?thesis by (cases geo) (auto simp: geo_fine_def demo_lb_def demo_pt_gl_def kept_geo_def Let_def)
qed

lemma demo_msg_fine: "msg_fine demo_lb tm msg"
  by (simp add: msg_fine_def args_fine_def demo_fine)

lemma start_ok: "lib_laws lb items ok \<Longrightarrow> server_ok lb items ok (emptyServer lb tab mem)"
  using btree_empty [of "lb_gr lb" ok]
  by (simp add: server_ok_def emptyServer_def getCol_def lib_laws_def map_lawsD groups_ok_def links_def)

lemma start_lookup: "lib_laws lb items ok \<Longrightarrow> lookup lb (emptyServer lb tab mem) = (\<lambda>k. Map.empty)"
  by (simp add: fun_eq_iff lookup_def emptyServer_def getCol_def lib_laws_def map_lawsD)

text \<open>Two objects under one key: a string that expires after ten seconds, and a point.\<close>

definition demo_set_a :: Message where
  "demo_set_a = demo_msg [''SET'', ''fleet'', ''a'', ''EX'', ''10'', ''STRING'', ''v'']"

definition demo_set_b :: Message where
  "demo_set_b = demo_msg [''SET'', ''fleet'', ''b'', ''POINT'', ''1'', ''2'']"

definition demo_one where
  "demo_one = snd (cmdSET demo_lb (demo_tm 0) demo_set_a demo_start)"

definition demo_db where
  "demo_db = snd (cmdSET demo_lb (demo_tm 0) demo_set_b demo_one)"

abbreviation demo_a where
  "demo_a \<equiv> Object_New demo_pt_gl (lit ''a'') (GString (lit ''v'')) 10000000000 None"

abbreviation demo_b where
  "demo_b \<equiv> Object_New demo_pt_gl (lit ''b'') (GLib (Some [])) 0 None"

lemma demo_args:
  "setArgs demo_lb 0 (msg_Args demo_set_a) 3 noSetArgs = Inr (noSetArgs\<lparr>sa_ex := 10000000000, sa_oobj := Some (GString (lit ''v''))\<rparr>)"
  "setArgs demo_lb 0 (msg_Args demo_set_b) 3 noSetArgs = Inr (noSetArgs\<lparr>sa_oobj := Some (GLib (Some []))\<rparr>)"
  by code_simp+

lemma demo_steps:
  "server_ok demo_lb mset sorted_wrt demo_one"
  "lookup demo_lb demo_one = (\<lambda>k. Map.empty)(lit ''fleet'' := [lit ''a'' \<mapsto> demo_a])"
  "server_ok demo_lb mset sorted_wrt demo_db"
  "lookup demo_lb demo_db = (\<lambda>k. Map.empty)(lit ''fleet'' := [lit ''a'' \<mapsto> demo_a, lit ''b'' \<mapsto> demo_b])"
proof -
  have args: "msg_Args demo_set_a = lit ''SET'' # lit ''fleet'' # lit ''a'' # map lit [''EX'', ''10'', ''STRING'', ''v'']"
      "msg_Args demo_set_b = lit ''SET'' # lit ''fleet'' # lit ''b'' # map lit [''POINT'', ''1'', ''2'']"
    by (simp_all add: demo_set_a_def demo_set_b_def demo_msg_def)
  have now: "tm_now (demo_tm 0) = 0" and gl: "lb_gl demo_lb = demo_pt_gl"
    by (simp_all add: demo_tm_def demo_lb_def)
  have ne: "lit ''b'' \<noteq> lit ''a''" by code_simp
  have noSet: "\<not> sa_xx noSetArgs" "\<not> sa_nx noSetArgs" "sa_fields noSetArgs = []" "sa_ex noSetArgs = 0" by (simp_all add: noSetArgs_def)
  have start: "server_ok demo_lb mset sorted_wrt demo_start" "lookup demo_lb demo_start = (\<lambda>k. Map.empty)" "\<not> outOfMemory demo_start"
    unfolding demo_start_def by (simp_all add: start_ok [OF demo_laws] start_lookup [OF demo_laws])
      (simp add: outOfMemory_def emptyServer_def)
  note set_a = cmdSET_effect(2) [OF demo_laws start(1,3) args(1), of "demo_tm 0", unfolded now, OF demo_args(1) _ demo_fine,
      folded demo_one_def, where fl = None and tab = "sv_tab demo_start", unfolded start(2) gl]
  show one: "server_ok demo_lb mset sorted_wrt demo_one"
      "lookup demo_lb demo_one = (\<lambda>k. Map.empty)(lit ''fleet'' := [lit ''a'' \<mapsto> demo_a])"
    using set_a by (simp_all add: excluded_def oldFields_def applyFields_def noSet del: lit_Cons)
  have oom: "\<not> outOfMemory demo_one" by code_simp
  note set_b = cmdSET_effect(2) [OF demo_laws one(1) oom args(2), of "demo_tm 0", unfolded now, OF demo_args(2) _ demo_fine,
      folded demo_db_def, where fl = None and tab = "sv_tab demo_one", unfolded one(2) gl]
  show "server_ok demo_lb mset sorted_wrt demo_db"
    "lookup demo_lb demo_db = (\<lambda>k. Map.empty)(lit ''fleet'' := [lit ''a'' \<mapsto> demo_a, lit ''b'' \<mapsto> demo_b])"
    using set_b ne by (simp_all add: excluded_def oldFields_def applyFields_def noSet del: lit_Cons)
qed

lemma demo_expires_sorted: "expires_sorted demo_lb demo_db"
proof -
  have "list_all (\<lambda>e. length (co_expires (snd e)) \<le> 1) (sv_cols demo_db)" by code_simp
  then have "length (co_expires col) \<le> 1" if "getCol demo_lb k demo_db = Some col" for k col
    using that map_of_SomeD by (fastforce simp: list_all_iff getCol_def demo_lb_def demo_mp_def Let_def)
  moreover have "sorted_wrt byExpires xs" if "length xs \<le> 1" for xs :: "(gostring option, gostring) Object list"
    using that by (cases xs) auto
  ultimately show ?thesis by (auto simp: expires_sorted_def demo_lb_def demo_tr_def Let_def)
qed

lemma demo_expired: "expired 10000000000 demo_a" "\<not> expired 10000000000 demo_b"
  by (simp_all add: expired_def)

end
