(* ===== verification/Server_Properties.thy ===== *)
theory Server_Properties
  imports Server_Demo
begin

text \<open>
  The properties of the server's commands and of its expiration, each with the concrete server as a case of it.
\<close>

section \<open>The invariant of the server\<close>

text \<open>
  The states the server can be in: commands one after the other, in any order and from any client, and between them the two
  sweeps of the expiration. A command that panics ends the process.
\<close>

inductive reachable for sj lb where
  start: "reachable sj lb (emptyServer lb tab mem)"
| command: "reachable sj lb s \<Longrightarrow> msg_fine lb tm msg \<Longrightarrow> handleInputCommand sj lb cf tm msg s = Some (ans, logged, s') \<Longrightarrow>
    (\<And>e. ans \<noteq> Failed (PanicField e)) \<Longrightarrow> reachable sj lb s'"
| objects: "reachable sj lb s \<Longrightarrow> backgroundExpireObjects lb tm nano s = Inr (logged, s') \<Longrightarrow> reachable sj lb s'"
| hooks: "reachable sj lb s \<Longrightarrow> backgroundExpireHooks lb tm now s = Inr (logged, s') \<Longrightarrow> reachable sj lb s'"

lemma panicked_PanicField: "\<not> panicked r \<Longrightarrow> r \<noteq> Inl (PanicField e)"
  by auto

lemma handleInputCommand_cases:
  assumes "handleInputCommand sj lb cf tm msg s = Some (ans, logged, s')"
  shows "s' = s \<and> logged = [] \<and> (\<exists>why. ans = Refused why)
    \<or> (\<exists>e. command sj lb tm msg s = Some (Inl e, s') \<and> ans = Failed e \<and> logged = [])
    \<or> (\<exists>r. command sj lb tm msg s = Some (r, s') \<and> \<not> panicked r \<and> ans = Failed ErrTimeout \<and> logged = [])
    \<or> (\<exists>v d. command sj lb tm msg s = Some (Inr (v, d), s') \<and> ans = Answered v
        \<and> logged = (if isWrite (ToLower (hd (msg_Args msg))) then [(msg_Args msg, d)] else []))"
  using assms unfolding handleInputCommand_def Let_def by (auto split: option.splits sum.splits if_splits)

lemma runOwn_ok:
  assumes "foldE (runOwn cmd tm) msgs ([], s) = Inr (logged, s')" and "server_ok lb items ok s"
    and "\<And>m s. server_ok lb items ok s \<Longrightarrow> server_ok lb items ok (snd (cmd tm m s))"
  shows "server_ok lb items ok s'"
proof -
  have "server_ok lb items ok (snd (logged, s'))"
    by (rule foldE_invariant [OF assms(1), where I = "\<lambda>p. server_ok lb items ok (snd p)"])
      (use assms(2,3) in \<open>auto simp: runOwn_def split: prod.splits sum.splits, metis snd_conv\<close>)
  then show ?thesis by simp
qed

lemma reachable_ok:
  assumes "lib_laws lb items ok" and "reachable sj lb s"
  shows "server_ok lb items ok s"
  using assms(2)
proof induction
  case (start tab mem)
  show ?case by (rule start_ok [OF assms(1)])
next
  case (command s tm msg cf ans logged s')
  from handleInputCommand_cases [OF command.hyps(3)] command.hyps(4) command.IH
    command_ok [OF assms(1) command.IH command.hyps(2)]
  show ?case by (auto simp: no_panic_def panicked_PanicField)
next
  case (objects s tm nano logged s')
  from objects.hyps(2) obtain msgs where
    "foldE (runOwn (cmdDEL lb) tm) msgs ([], s\<lparr>sv_statsExpired := sv_statsExpired s + int (length msgs)\<rparr>) = Inr (logged, s')"
    by (auto simp: backgroundExpireObjects_def split: sum.splits)
  then show ?case
    by (rule runOwn_ok [OF _ server_ok_frame(2) [OF objects.IH]]) (metis cmdDEL_effect(1) [OF assms(1)] prod.collapse)
next
  case (hooks s tm now logged s')
  from hooks.hyps(2) show ?case unfolding backgroundExpireHooks_def
    by (rule runOwn_ok [OF _ hooks.IH]) (rule cmdDelHook_ok [OF assms(1)])
qed

text \<open>
  C2. After any run of commands (whose geometries have no NaN coordinates) and expiration sweeps, every collection of the server keeps its indexes exact, every hook group
  is found from its hook and from its object, and a key exists exactly as long as it holds an object: no command leaves
  an empty collection behind or loses one that is not empty.
\<close>

theorem server_invariant:
  assumes "lib_laws lb items ok" and "reachable sj lb s"
  shows "(\<forall>k col. getCol lb k s = Some col \<longrightarrow> coll_ok (lb_tr lb) items (lb_gl lb) col)
    \<and> groups_ok (lb_gr lb) ok (sv_groups s)
    \<and> (\<forall>k. getCol lb k s = None \<longleftrightarrow> lookup lb s k = Map.empty)"
  using reachable_ok [OF assms] getCol_iff [OF assms(1) reachable_ok [OF assms]]
  by (auto simp: server_ok_def col_ok_def)

definition demo_sj :: sjson_lib where
  "demo_sj = \<lparr>sj_Get = (\<lambda>j p. None), sj_Parse = (\<lambda>j. None), sj_SetRaw = (\<lambda>j p v. Inr j), sj_Set = (\<lambda>j p v. Inr j),
     sj_Delete = (\<lambda>j p. Inr j)\<rparr>"

definition demo_cf :: Config where
  "demo_cf = \<lparr>cf_followHost = [], cf_readOnly = False, cf_caughtUp = True\<rparr>"

theorem server_invariant_witness:
  "\<exists>s. reachable demo_sj demo_lb s \<and> getCol demo_lb (lit ''fleet'') s \<noteq> None \<and> lookup demo_lb s (lit ''fleet'') \<noteq> Map.empty"
proof -
  have "case handleInputCommand demo_sj demo_lb demo_cf (demo_tm 0) demo_set_a demo_start of
      Some (Answered v, logged, s) \<Rightarrow> (case getCol demo_lb (lit ''fleet'') s of None \<Rightarrow> False | Some col \<Rightarrow> True) | _ \<Rightarrow> False"
    by code_simp
  then obtain v logged s where s: "handleInputCommand demo_sj demo_lb demo_cf (demo_tm 0) demo_set_a demo_start = Some (Answered v, logged, s)"
      "getCol demo_lb (lit ''fleet'') s \<noteq> None"
    by (fastforce split: option.splits prod.splits answer.splits)
  then have "reachable demo_sj demo_lb s"
    using reachable.command [OF reachable.start [of demo_sj demo_lb demo_tab 0] demo_msg_fine, folded demo_start_def] by blast
  with s(2) server_invariant [OF demo_laws this] show ?thesis by (intro exI [of _ s]) (simp del: lit_Cons)
qed

section \<open>The commands on the contents of the database\<close>

text \<open>
  C6. The commands that remove or move objects do to the contents of the database (key, then id, to object) what they
  promise, and nothing else. \<open>DEL\<close> removes one object and reports whether it was there; \<open>DROP\<close> removes a key; \<open>RENAME\<close>
  moves one key over another, \<open>RENAMENX\<close> only onto a key without objects; \<open>FLUSHDB\<close> removes everything; \<open>PERSIST\<close>
  only takes away the expiration of its object. With an error the contents are as before.
\<close>

theorem commands_refine_database:
  assumes "lib_laws lb items ok" and "server_ok lb items ok s" and "msg_Args msg = c # key # args"
  shows "(case cmdDEL lb tm msg s of
      (Inl e, s') \<Rightarrow> lookup lb s' = lookup lb s
    | (Inr (v, d), s') \<Rightarrow> lookup lb s' = (lookup lb s)(key := (lookup lb s key)(hd args := None))
        \<and> (d_updated d \<longleftrightarrow> lookup lb s key (hd args) \<noteq> None))
    \<and> (case cmdDROP lb tm msg s of
      (Inl e, s') \<Rightarrow> s' = s
    | (Inr (v, d), s') \<Rightarrow> lookup lb s' = (lookup lb s)(key := Map.empty) \<and> (d_updated d \<longleftrightarrow> lookup lb s key \<noteq> Map.empty))
    \<and> (case cmdRENAME lb tm msg s of
      (Inl e, s') \<Rightarrow> s' = s
    | (Inr (v, d), s') \<Rightarrow> (d_updated d \<longleftrightarrow> ToLower c \<noteq> lit ''renamenx'' \<or> lookup lb s (hd args) = Map.empty)
        \<and> lookup lb s' = (if d_updated d then (lookup lb s)(key := Map.empty, hd args := lookup lb s key) else lookup lb s))
    \<and> (case cmdFLUSHDB lb tm flush s of (Inl e, s') \<Rightarrow> s' = s | (Inr (v, d), s') \<Rightarrow> lookup lb s' = (\<lambda>k. Map.empty))
    \<and> (\<forall>x. args = [ident] \<longrightarrow> lookup lb s key ident = Some x \<longrightarrow>
        lookup lb (snd (cmdPERSIST lb tm msg s)) = (if oexpires x = 0 then lookup lb s
          else (lookup lb s)(key := (lookup lb s key)(ident \<mapsto> Object_New (lb_gl lb) ident (ogeom (lb_gl lb) x) 0 (Object_Fields x)))))"
proof -
  have "c # key # args = msg_Args msg" using assms(3) by simp
  then have nth: "msg_Args msg ! 0 = c" "msg_Args msg ! 1 = key" "args \<noteq> [] \<Longrightarrow> msg_Args msg ! 2 = hd args"
    by (metis nth_Cons_0 nth_Cons_Suc One_nat_def numeral_2_eq_2 hd_conv_nth)+
  have del: "args \<noteq> []" if "cmdDEL lb tm msg s = (Inr r, s')" for r s'
    using that assms(3) by (auto simp: cmdDEL_def)
  have ren: "args \<noteq> []" if "cmdRENAME lb tm msg s = (Inr r, s')" for r s'
    using that assms(3) by (auto simp: cmdRENAME_def)
  show ?thesis
  proof (intro conjI)
    show "case cmdDEL lb tm msg s of
        (Inl e, s') \<Rightarrow> lookup lb s' = lookup lb s
      | (Inr (v, d), s') \<Rightarrow> lookup lb s' = (lookup lb s)(key := (lookup lb s key)(hd args := None))
          \<and> (d_updated d \<longleftrightarrow> lookup lb s key (hd args) \<noteq> None)"
      using cmdDEL_effect(2,3) [OF assms(1,2)] del nth by (auto split: prod.splits sum.splits)
    show "case cmdDROP lb tm msg s of
        (Inl e, s') \<Rightarrow> s' = s
      | (Inr (v, d), s') \<Rightarrow> lookup lb s' = (lookup lb s)(key := Map.empty) \<and> (d_updated d \<longleftrightarrow> lookup lb s key \<noteq> Map.empty)"
      using cmdDROP_effect(2,3) [OF assms(1,2)] nth by (auto split: prod.splits sum.splits)
    show "case cmdRENAME lb tm msg s of
        (Inl e, s') \<Rightarrow> s' = s
      | (Inr (v, d), s') \<Rightarrow> (d_updated d \<longleftrightarrow> ToLower c \<noteq> lit ''renamenx'' \<or> lookup lb s (hd args) = Map.empty)
          \<and> lookup lb s' = (if d_updated d then (lookup lb s)(key := Map.empty, hd args := lookup lb s key) else lookup lb s)"
      using cmdRENAME_effect(2,3) [OF assms(1,2)] ren nth by (auto split: prod.splits sum.splits simp del: lit_Cons)
    show "case cmdFLUSHDB lb tm flush s of (Inl e, s') \<Rightarrow> s' = s | (Inr (v, d), s') \<Rightarrow> lookup lb s' = (\<lambda>k. Map.empty)"
      using cmdFLUSHDB_effect(2,3) [OF assms(1,2)] by (auto split: prod.splits sum.splits)
    show "\<forall>x. args = [ident] \<longrightarrow> lookup lb s key ident = Some x \<longrightarrow>
        lookup lb (snd (cmdPERSIST lb tm msg s)) = (if oexpires x = 0 then lookup lb s
          else (lookup lb s)(key := (lookup lb s key)(ident \<mapsto> Object_New (lb_gl lb) ident (ogeom (lb_gl lb) x) 0 (Object_Fields x))))"
      using cmdPERSIST_effect(2) [OF assms(1,2)] assms(3) by auto
  qed
qed

definition demo_del :: Message where
  "demo_del = demo_msg [''DEL'', ''fleet'', ''a'']"

theorem commands_refine_database_witness:
  "case cmdDEL demo_lb (demo_tm 0) demo_del demo_db of
     (Inl e, s') \<Rightarrow> False | (Inr (v, d), s') \<Rightarrow> d_updated d \<and> lookup demo_lb s' (lit ''fleet'') = [lit ''b'' \<mapsto> demo_b]"
proof -
  have "case cmdDEL demo_lb (demo_tm 0) demo_del demo_db of (Inl e, s') \<Rightarrow> False | (Inr r, s') \<Rightarrow> True" by code_simp
  then obtain v d s' where run: "cmdDEL demo_lb (demo_tm 0) demo_del demo_db = (Inr (v, d), s')"
    by (auto split: prod.splits sum.splits)
  have args: "msg_Args demo_del = lit ''DEL'' # lit ''fleet'' # [lit ''a'']" by (simp add: demo_del_def demo_msg_def)
  have "lit ''b'' \<noteq> lit ''a''" by code_simp
  then have "([lit ''a'' \<mapsto> demo_a, lit ''b'' \<mapsto> demo_b])(lit ''a'' := None) = [lit ''b'' \<mapsto> demo_b]"
    by (simp add: fun_upd_twist del: lit_Cons)
  with run commands_refine_database [OF demo_laws demo_steps(3) args, of "demo_tm 0"] \<open>lit ''b'' \<noteq> lit ''a''\<close>
  show ?thesis by (simp add: demo_steps(4) del: lit_Cons)
qed

text \<open>
  C12. \<open>PDEL key pattern\<close>, without a deadline, removes exactly the objects of the key whose id the pattern selects, reports
  their number and touches no other object. The pattern selects an id that it matches and that lies in the range \<open>Parse\<close>
  computes. For a pattern that is empty, starts with a star, or starts with a literal prefix without a backslash
  that does not end in the byte 255, these are all the ids that match; for a pattern that starts with \<open>?\<close> or a
  character class it is no id at all.
\<close>

theorem PDEL_exact:
  assumes "lib_laws lb items ok" and "scan_laws (lb_tr lb)" and "server_ok lb items ok s"
    and "msg_Args msg = [c, key, pattern]" and "msg_Deadline msg = None"
    and "\<And>col. getCol lb key s = Some col \<Longrightarrow> length (objects (lb_tr lb) col) < 2 ^ 64"
  shows "(\<exists>d s'. cmdPDEL lb tm msg s =
        (Inr (replyOK tm msg (RInteger (int (card {i \<in> dom (lookup lb s key). selected pattern i}))), d), s')
      \<and> lookup lb s' = (lookup lb s)(key := (\<lambda>i. if selected pattern i then None else lookup lb s key i)))
    \<and> ((pattern = [] \<or> hd pattern = chStar \<or> literalPrefix pattern \<noteq> [] \<and> last (literalPrefix pattern) \<noteq> 0xFF)
        \<and> chBackslash \<notin> set (literalPrefix pattern) \<longrightarrow> selected pattern = globMatches pattern)
    \<and> (pattern \<noteq> [] \<and> (hd pattern = chQuestion \<or> hd pattern = chOpen) \<longrightarrow> selected pattern = (\<lambda>i. False))"
proof (intro conjI impI)
  assume *: "(pattern = [] \<or> hd pattern = chStar \<or> literalPrefix pattern \<noteq> [] \<and> last (literalPrefix pattern) \<noteq> 0xFF)
    \<and> chBackslash \<notin> set (literalPrefix pattern)"
  have "selected pattern i = globMatches pattern i" for i
    using limits_contain_matches [OF _ conjunct1 [OF *] conjunct2 [OF *]]
    by (auto simp: selected_def globMatches_def split: sum.splits)
  then show "selected pattern = globMatches pattern" by blast
next
  assume "pattern \<noteq> [] \<and> (hd pattern = chQuestion \<or> hd pattern = chOpen)"
  then show "selected pattern = (\<lambda>i. False)"
    using leading_wildcard_selects_nothing by (auto simp: selected_def fun_eq_iff)
qed (use cmdPDEL_effect [OF assms, of tm] in blast)

theorem PDEL_exact_witness:
  "case cmdPDEL demo_lb (demo_tm 0) (demo_msg [''PDEL'', ''fleet'', ''a*'']) demo_db of
     (Inl e, s') \<Rightarrow> False
   | (Inr (v, d), s') \<Rightarrow> lookup demo_lb s' (lit ''fleet'') (lit ''a'') = None
       \<and> lookup demo_lb s' (lit ''fleet'') (lit ''b'') = Some demo_b"
proof -
  let ?m = "demo_msg [''PDEL'', ''fleet'', ''a*'']"
  have args: "msg_Args ?m = [lit ''PDEL'', lit ''fleet'', lit ''a*'']" "msg_Deadline ?m = None"
    by (simp_all add: demo_msg_def)
  have tr: "scan_laws (lb_tr demo_lb)" using demo_scan_laws by (simp add: demo_lb_def)
  have sel: "selected (lit ''a*'') (lit ''a'')" "\<not> selected (lit ''a*'') (lit ''b'')" "lit ''b'' \<noteq> lit ''a''" by code_simp+
  have "length (objects (lb_tr demo_lb) col) < 2 ^ 64" if "getCol demo_lb (lit ''fleet'') demo_db = Some col" for col
  proof -
    have "stored demo_lb col = [lit ''a'' \<mapsto> demo_a, lit ''b'' \<mapsto> demo_b]"
      using that fun_cong [OF demo_steps(4), of "lit ''fleet''"] by (simp add: lookup_def del: lit_Cons)
    then have "card (dom (stored demo_lb col)) \<le> 2" by (simp add: card_insert_if del: lit_Cons)
    then show ?thesis by (simp add: objects_def at_keys_def keys_def length_sorted_list_of_set)
  qed
  from conjunct1 [OF PDEL_exact [OF demo_laws tr demo_steps(3) args this, of "demo_tm 0"]] sel
  show ?thesis by (auto simp: demo_steps(4) simp del: lit_Cons)
qed

section \<open>Expiration\<close>



text \<open>
  C23. The expiration time that \<open>EXPIRE\<close> and \<open>SET ... EX\<close> compute is a 64-bit sum of the current time and the duration in
  nanoseconds. As long as the sum stays below \<open>2\<^sup>6\<^sup>3\<close> it is exact, and the object is not expired before that time. Beyond it
  the sum wraps around to a negative time: the object is expired at once, at every time the clock can show.
\<close>

theorem expiration_bounds:
  assumes "0 \<le> sint now" and "0 < sint (f_to_int64 (lb_out lb) (f_mul f_second x))"
  shows "(sint now + sint (f_to_int64 (lb_out lb) (f_mul f_second x)) < 2 ^ 63 \<longrightarrow>
      sint (expiresAt lb now x) = sint now + sint (f_to_int64 (lb_out lb) (f_mul f_second x))
      \<and> (\<forall>nano. expired nano (Object_New gl i geo (expiresAt lb now x) fl) \<longleftrightarrow> sint (expiresAt lb now x) \<le> sint nano))
    \<and> (2 ^ 63 \<le> sint now + sint (f_to_int64 (lb_out lb) (f_mul f_second x)) \<longrightarrow>
      sint (expiresAt lb now x) < 0
      \<and> (\<forall>nano. 0 \<le> sint nano \<longrightarrow> expired nano (Object_New gl i geo (expiresAt lb now x) fl)))"
proof -
  let ?d = "f_to_int64 (lb_out lb) (f_mul f_second x)"
  have lt: "sint now < 2 ^ 63" "sint ?d < 2 ^ 63" using sint_lt [of now] sint_lt [of ?d] by simp_all
  have sum: "sint (expiresAt lb now x) = signed_take_bit 63 (sint now + sint ?d)"
    by (simp add: expiresAt_def sint_word_ariths)
  have exp: "expired nano (Object_New gl i geo e fl) \<longleftrightarrow> e \<noteq> 0 \<and> sint e \<le> sint nano" for nano e
    by (simp add: expired_def word_sle_eq)
  have small: "sint (expiresAt lb now x) = sint now + sint ?d" if "sint now + sint ?d < 2 ^ 63"
    using that assms sum by (simp add: signed_take_bit_int_eq_self)
  have big: "sint (expiresAt lb now x) < 0" if "2 ^ 63 \<le> sint now + sint ?d"
  proof -
    have "signed_take_bit 63 (sint now + sint ?d) \<le> sint now + sint ?d - 2 ^ Suc 63"
      by (rule signed_take_bit_int_less_eq [OF that])
    moreover have "(2 :: int) ^ Suc 63 = 2 * 2 ^ 63" by simp
    ultimately show ?thesis unfolding sum using lt by linarith
  qed
  have nz: "e \<noteq> 0" if "sint e \<noteq> 0" for e :: "64 word" using that by auto
  show ?thesis using small big nz assms by (auto simp: exp)
qed

theorem expiration_bounds_witness:
  "sint (expiresAt demo_lb 1700000000000000000 0x41FDCD6500000000) < 0"
proof -
  have d: "f_to_int64 (lb_out demo_lb) (f_mul f_second 0x41FDCD6500000000) = 8000000000000000000" by code_simp
  show ?thesis
    using expiration_bounds [of 1700000000000000000 demo_lb "0x41FDCD6500000000" demo_pt_gl "[]" "GString []" None]
    by (simp add: d)
qed

section \<open>Setting objects and fields\<close>

text \<open>
  C8. A \<open>SET\<close> whose arguments parse, to a geometry without NaN coordinates, stores exactly one object: the geometry, the expiration time and the fields of the old
  object with the given ones applied, under the given key and id; every other object stays. \<open>NX\<close> with an id that
  exists and \<open>XX\<close> with one that does not leave the whole server as it is, and so does a server that is out of memory.
\<close>

theorem SET_stores:
  assumes "lib_laws lb items ok" and "server_ok lb items ok s"
    and "msg_Args msg = c # key # ident # opts"
    and "setArgs lb (tm_now tm) (msg_Args msg) 3 noSetArgs = Inr a" and "sa_oobj a = Some oobj"
    and "geo_fine (lb_gl lb) oobj"
    and "applyFields lb (oldFields (lookup lb s key ident)) (sa_fields a) (sv_tab s) = Inr (fl, tab)"
  shows "snd (cmdSET lb tm msg s) = s
      \<and> (outOfMemory s \<or> sa_nx a \<and> lookup lb s key ident \<noteq> None \<or> sa_xx a \<and> lookup lb s key ident = None)
    \<or> \<not> outOfMemory s \<and> \<not> (sa_nx a \<and> lookup lb s key ident \<noteq> None) \<and> \<not> (sa_xx a \<and> lookup lb s key ident = None)
      \<and> server_ok lb items ok (snd (cmdSET lb tm msg s))
      \<and> lookup lb (snd (cmdSET lb tm msg s)) =
        (lookup lb s)(key := (lookup lb s key)(ident \<mapsto> Object_New (lb_gl lb) ident oobj (sa_ex a) fl))"
proof (cases "outOfMemory s")
  case True
  then show ?thesis by (simp add: cmdSET_def)
next
  case False
  note eff = cmdSET_effect(1,2) [OF assms(1,2) False assms(3-6)]
  show ?thesis
    using eff(1) eff(2) [OF _ assms(7)] False by (cases "excluded a (lookup lb s key ident)") (auto simp: excluded_def split: option.splits)
qed

theorem SET_stores_witness:
  "lookup demo_lb (snd (cmdSET demo_lb (demo_tm 0) demo_set_b demo_one)) (lit ''fleet'') (lit ''b'') = Some demo_b"
proof -
  have args: "msg_Args demo_set_b = lit ''SET'' # lit ''fleet'' # lit ''b'' # map lit [''POINT'', ''1'', ''2'']"
    by (simp add: demo_set_b_def demo_msg_def)
  have now: "tm_now (demo_tm 0) = 0" and gl: "lb_gl demo_lb = demo_pt_gl"
    by (simp_all add: demo_tm_def demo_lb_def)
  have oom: "\<not> outOfMemory demo_one" by code_simp
  have fields: "applyFields demo_lb (oldFields x) [] tab = Inr (oldFields x, tab)" for x tab by (simp add: applyFields_def)
  have ne: "lit ''b'' \<noteq> lit ''a''" by code_simp
  from SET_stores [OF demo_laws demo_steps(1) args, of "demo_tm 0", unfolded now, OF demo_args(2) _ demo_fine, of "GLib (Some [])"
      None "sv_tab demo_one"] oom ne
  show ?thesis by (auto simp: demo_steps(2) noSetArgs_def oldFields_def applyFields_def gl simp del: lit_Cons)
qed

section \<open>The options of \<^verbatim>\<open>RETURN\<close>\<close>
















section \<open>Commands that do not write\<close>

lemma writes:
  "isWrite (lit ''set'')" "isWrite (lit ''fset'')" "isWrite (lit ''del'')" "isWrite (lit ''pdel'')" "isWrite (lit ''drop'')"
  "isWrite (lit ''flushdb'')" "isWrite (lit ''rename'')" "isWrite (lit ''renamenx'')" "isWrite (lit ''delhook'')"
  "isWrite (lit ''delchan'')" "isWrite (lit ''pdelhook'')" "isWrite (lit ''pdelchan'')" "isWrite (lit ''expire'')"
  "isWrite (lit ''persist'')" "isWrite (lit ''jset'')" "\<not> isWrite (lit ''jdel'')" "lockOf (lit ''jdel'') = ReadLock"
  by code_simp+

lemma command_read:
  assumes "command sj lb tm msg s = Some (r, s')" and "\<not> isWrite (ToLower (hd (msg_Args msg)))"
    and "ToLower (hd (msg_Args msg)) \<noteq> lit ''jdel''"
  shows "s' = s"
  using assms writes unfolding command_def Let_def asCommand_def by (simp split: if_splits del: lit_Cons) metis+

end
