(* ===== verification/Server_Durability.thy ===== *)
theory Server_Durability
  imports Server_Silent Server_Properties
begin

text \<open>
  What the log file is worth: a server that loads what another one wrote has the contents of that server, and if the end of the file is
  missing, the contents it had at some earlier time; and what a command that is not logged leaves unchanged.
\<close>

section \<open>The dispatcher, run again\<close>

lemma command_names:
  "ToLower (hd (msg_Args m)) = lit ''set'' \<Longrightarrow> command sj lb tm m u = Some (cmdSET lb tm m u)"
  "ToLower (hd (msg_Args m)) = lit ''fset'' \<Longrightarrow> command sj lb tm m u = Some (cmdFSET lb tm m u)"
  "ToLower (hd (msg_Args m)) = lit ''del'' \<Longrightarrow> command sj lb tm m u = Some (cmdDEL lb tm m u)"
  "ToLower (hd (msg_Args m)) = lit ''pdel'' \<Longrightarrow> command sj lb tm m u = Some (cmdPDEL lb tm m u)"
  "ToLower (hd (msg_Args m)) = lit ''drop'' \<Longrightarrow> command sj lb tm m u = Some (cmdDROP lb tm m u)"
  "ToLower (hd (msg_Args m)) = lit ''flushdb'' \<Longrightarrow> command sj lb tm m u = Some (cmdFLUSHDB lb tm m u)"
  "ToLower (hd (msg_Args m)) = lit ''rename'' \<Longrightarrow> command sj lb tm m u = Some (cmdRENAME lb tm m u)"
  "ToLower (hd (msg_Args m)) = lit ''renamenx'' \<Longrightarrow> command sj lb tm m u = Some (cmdRENAME lb tm m u)"
  "ToLower (hd (msg_Args m)) = lit ''delhook'' \<Longrightarrow> command sj lb tm m u = Some (cmdDelHook lb tm m u)"
  "ToLower (hd (msg_Args m)) = lit ''delchan'' \<Longrightarrow> command sj lb tm m u = Some (cmdDelHook lb tm m u)"
  "ToLower (hd (msg_Args m)) = lit ''pdelhook'' \<Longrightarrow> command sj lb tm m u = Some (cmdPDelHook lb tm m u)"
  "ToLower (hd (msg_Args m)) = lit ''pdelchan'' \<Longrightarrow> command sj lb tm m u = Some (cmdPDelHook lb tm m u)"
  "ToLower (hd (msg_Args m)) = lit ''expire'' \<Longrightarrow> command sj lb tm m u = Some (cmdEXPIRE lb tm m u)"
  "ToLower (hd (msg_Args m)) = lit ''persist'' \<Longrightarrow> command sj lb tm m u = Some (cmdPERSIST lb tm m u)"
  "ToLower (hd (msg_Args m)) = lit ''jset'' \<Longrightarrow> command sj lb tm m u = Some (cmdJset sj lb tm m u)"
  "ToLower (hd (msg_Args m)) \<in> {lit ''sethook'', lit ''setchan''} \<Longrightarrow> command sj lb tm m u = None"
  by (auto simp: command_def byte_of_def)

lemma command_replays:
  assumes "lib_laws lb items ok" and "scan_laws (lb_tr lb)" and "same lb items ok s s'" and "command sj lb tm msg s = Some (r, t)"
    and "isWrite (ToLower (hd (msg_Args msg)))" and "\<not> panicked r" and "msg_fine lb tm msg" and "msg_Deadline msg = None"
    and "fits_memory lb s"
  shows "\<exists>cmd. (\<forall>tm m u. msg_Args m = msg_Args msg \<longrightarrow> command sj lb tm m u = Some (cmd tm m u))
    \<and> replays lb items ok cmd (msg_Args msg) r t s'"
proof -
  have fine: "args_fine lb tm (msg_Args msg)" using assms(7) by (simp add: msg_fine_def)
  let ?named = "\<lambda>cmd. \<forall>tm m u. msg_Args m = msg_Args msg \<longrightarrow> command sj lb tm m u = Some (cmd tm m u)"
  have all: "\<exists>cmd. ?named cmd \<and> replays lb items ok cmd (msg_Args msg) r t s'"
    if "?named cmd" "cmd tm msg s = (r, t) \<Longrightarrow> replays lb items ok cmd (msg_Args msg) r t s'" for cmd
    using that assms(4) by auto
  note reps = cmdSET_replays [OF assms(1,3) _ fine assms(6)] cmdFSET_replays [OF assms(1,3) _ assms(6)] cmdDEL_replays [OF assms(1,3)]
    cmdPDEL_replays [OF assms(1,2,3) _ assms(8,9)] cmdDROP_replays [OF assms(1,3)] cmdFLUSHDB_replays [OF assms(1,3)]
    cmdRENAME_replays [OF assms(1,3)] cmdDelHook_replays [OF assms(1,3)] cmdPDelHook_replays [OF assms(1,3)]
    cmdEXPIRE_replays [OF assms(1,3)] cmdPERSIST_replays [OF assms(1,3)] cmdJset_replays [where sj = sj, OF assms(1,3) _ assms(7,6)]
  have "ToLower (hd (msg_Args msg)) \<in> set writeCommands" using assms(5) by (simp only: isWrite_def)
  moreover have "ToLower (hd (msg_Args msg)) \<notin> {lit ''sethook'', lit ''setchan''}" using assms(4) command_names(16) [of msg sj lb tm s] by auto
  ultimately consider "ToLower (hd (msg_Args msg)) = lit ''set''" | "ToLower (hd (msg_Args msg)) = lit ''fset''"
    | "ToLower (hd (msg_Args msg)) = lit ''del''" | "ToLower (hd (msg_Args msg)) = lit ''pdel''"
    | "ToLower (hd (msg_Args msg)) = lit ''drop''" | "ToLower (hd (msg_Args msg)) = lit ''flushdb''"
    | "ToLower (hd (msg_Args msg)) = lit ''rename''" | "ToLower (hd (msg_Args msg)) = lit ''renamenx''"
    | "ToLower (hd (msg_Args msg)) = lit ''delhook''" | "ToLower (hd (msg_Args msg)) = lit ''delchan''"
    | "ToLower (hd (msg_Args msg)) = lit ''pdelhook''" | "ToLower (hd (msg_Args msg)) = lit ''pdelchan''"
    | "ToLower (hd (msg_Args msg)) = lit ''expire''" | "ToLower (hd (msg_Args msg)) = lit ''persist''"
    | "ToLower (hd (msg_Args msg)) = lit ''jset''"
    by (auto simp: writeCommands_def simp del: lit_Cons)
  then show ?thesis
    by cases (rule all [rotated], erule reps, simp add: command_names del: lit_Cons; fail)+
qed

section \<open>A server and its log\<close>

text \<open>
  The states of a server that starts in \<open>s0\<close>, each with what it passed to the log so far: commands of clients one after the other, the messages
  that the expiration in the background sends to itself, and the watch over the memory. \<open>JDEL\<close>, which changes objects without a trace in
  the log, is left out, and so is the process that ends in a panic.
\<close>

inductive served for sj lb s0 where
  start: "served sj lb s0 [] s0"
| command: "served sj lb s0 log s \<Longrightarrow> fits_memory lb s \<Longrightarrow> msg_Args msg \<noteq> [] \<Longrightarrow> ToLower (hd (msg_Args msg)) \<noteq> lit ''jdel'' \<Longrightarrow>
    msg_fine lb tm msg \<Longrightarrow> handleInputCommand sj lb cf tm msg s = Some (ans, w, t) \<Longrightarrow>
    (\<And>e. panicked (Inl e :: cmd_error + unit) \<Longrightarrow> ans \<noteq> Failed e) \<Longrightarrow> served sj lb s0 (log @ w) t"
| expired: "served sj lb s0 log s \<Longrightarrow> cmdDEL lb tm (ownMessage [lit ''del'', k, i]) s = (Inr (v, d), t) \<Longrightarrow>
    served sj lb s0 (log @ [([lit ''del'', k, i], d)]) t"
| expired_hook: "served sj lb s0 log s \<Longrightarrow> c \<in> {lit ''delhook'', lit ''delchan''} \<Longrightarrow>
    cmdDelHook lb tm (ownMessage [c, name]) s = (Inr (v, d), t) \<Longrightarrow> served sj lb s0 (log @ [([c, name], d)]) t"
| expiredCount: "served sj lb s0 log s \<Longrightarrow> served sj lb s0 log (s\<lparr>sv_statsExpired := n\<rparr>)"
| memory: "served sj lb s0 log s \<Longrightarrow> served sj lb s0 log (s\<lparr>sv_maxMemory := m, sv_outOfMemory := b\<rparr>)"

text \<open>The two sweeps are sequences of such messages.\<close>

lemma served_runOwn:
  assumes "\<And>m log s v d t. m \<in> set msgs \<Longrightarrow> served sj lb s0 log s \<Longrightarrow> cmd tm (ownMessage m) s = (Inr (v, d), t) \<Longrightarrow>
      served sj lb s0 (log @ [(m, d)]) t"
  shows "served sj lb s0 (log @ w0) s \<Longrightarrow> foldE (runOwn cmd tm) msgs (w0, s) = Inr (w, t) \<Longrightarrow> served sj lb s0 (log @ w) t"
  using assms
proof (induction msgs arbitrary: w0 s)
  case (Cons m msgs)
  from Cons.prems(2) obtain v d s1 where run: "cmd tm (ownMessage m) s = (Inr (v, d), s1)"
      "foldE (runOwn cmd tm) msgs (w0 @ [(m, d)], s1) = Inr (w, t)"
    by (cases "cmd tm (ownMessage m) s"; cases "fst (cmd tm (ownMessage m) s)") (auto simp: runOwn_def [of cmd tm m])
  have "served sj lb s0 (log @ (w0 @ [(m, d)])) s1" using Cons.prems(3) [OF _ Cons.prems(1) run(1)] by simp
  from Cons.IH [OF this run(2)] Cons.prems(3) show ?case by simp
qed simp

lemma served_objects:
  assumes "lib_laws lb items ok" and "server_ok lb items ok s" and "expires_sorted lb s"
    and "served sj lb s0 log s" and "backgroundExpireObjects lb tm nano s = Inr (w, t)"
  shows "served sj lb s0 (log @ w) t"
proof -
  obtain msgs where msgs: "expiredArgs lb nano s = Inr msgs"
      "set msgs = {[lit ''del'', k, i] | k i x. lookup lb s k i = Some x \<and> expired nano x}"
    using expiredArgs_exact [OF assms(1-3)] by blast
  have run: "foldE (runOwn (cmdDEL lb) tm) msgs ([], s\<lparr>sv_statsExpired := sv_statsExpired s + int (length msgs)\<rparr>) = Inr (w, t)"
    using assms(5) msgs(1) by (simp add: backgroundExpireObjects_def)
  show ?thesis
    by (rule served_runOwn [OF _ _ run]) (use msgs(2) served.expired served.expiredCount [OF assms(4)] in \<open>auto simp del: lit_Cons\<close>)
qed

lemma served_hooks:
  assumes "served sj lb s0 log s'" and "backgroundExpireHooks lb tm now s' = Inr (w, t)"
  shows "served sj lb s0 (log @ w) t"
proof (rule served_runOwn [OF _ _ assms(2) [unfolded backgroundExpireHooks_def]])
  fix m log s v d t
  assume "m \<in> set (map (\<lambda>h. [if h_channel h then lit ''delchan'' else lit ''delhook'', h_Name h])
      (takeWhile (\<lambda>h. \<not> now < h_expires h) (bt_items (lb_hk lb) byHookExpires (sv_hookExpires s'))))"
    "served sj lb s0 log s" "cmdDelHook lb tm (ownMessage m) s = (Inr (v, d), t)"
  then show "served sj lb s0 (log @ [(m, d)]) t" by (auto intro!: served.expired_hook split: if_splits simp del: lit_Cons)
qed (use assms(1) in simp)

section \<open>The log, run again\<close>

definition updates :: "(gostring list \<times> 'o details) list \<Rightarrow> gostring list list" where
  "updates log = map fst (filter (\<lambda>(args, d). d_updated d) log)"

definition entry :: "gostring list \<Rightarrow> cmd_error + ('v \<times> 'o details) \<Rightarrow> (gostring list \<times> 'o details) list" where
  "entry args r = (case r of Inl e \<Rightarrow> [] | Inr (v, d) \<Rightarrow> [(args, d)])"

lemma updates_append [simp]: "updates (xs @ ys) = updates xs @ updates ys"
  by (simp add: updates_def)

lemma updates_entry: "updates (entry args r) = (if updated r then [args] else [])"
  by (cases r) (auto simp: updates_def entry_def)

lemma replay_step:
  assumes "replay (\<lambda>n :: nat. command sj lb (tms n)) 0 (updates log) s0 = Inr s'" and "replays lb items ok cmd args r t s'"
    and "\<And>tm u. command sj lb tm (ownMessage args) u = Some (cmd tm (ownMessage args) u)"
  shows "\<exists>t'. replay (\<lambda>n :: nat. command sj lb (tms n)) 0 (updates (log @ entry args r)) s0 = Inr t' \<and> same lb items ok t t'"
proof (cases "updated r")
  case True
  then obtain v d t' where "cmd (tms (length (updates log))) (ownMessage args) s' = (Inr (v, d), t')" "same lb items ok t t'"
    using assms(2) unfolding replays_def by (metis (full_types))
  with assms(1,3) True show ?thesis by (simp add: updates_entry replay_append)
qed (use assms(1,2) in \<open>simp add: updates_entry replays_def\<close>)

lemma handleInputCommand_write:
  assumes "handleInputCommand sj lb cf tm msg s = Some (ans, w, t)" and "isWrite (ToLower (hd (msg_Args msg)))"
  shows "t = s \<and> w = [] \<or> msg_Deadline msg = None \<and> (\<exists>r. command sj lb tm msg s = Some (r, t)
    \<and> (\<forall>e. r = Inl e \<longrightarrow> ans = Failed e) \<and> w = entry (msg_Args msg) r)"
proof (cases "refused cf msg (ToLower (hd (msg_Args msg)))")
  case None
  then have "msg_Deadline msg = None" using assms(2) by (auto simp: refused_def split: if_splits simp del: lit_Cons)
  with None assms show ?thesis
    by (auto simp: handleInputCommand_def Deadline_Check_def entry_def Let_def split: option.splits sum.splits if_splits)
qed (use assms in \<open>auto simp: handleInputCommand_def Let_def\<close>)

lemma handleInputCommand_read:
  assumes "handleInputCommand sj lb cf tm msg s = Some (ans, w, t)" and "\<not> isWrite (ToLower (hd (msg_Args msg)))"
    and "ToLower (hd (msg_Args msg)) \<noteq> lit ''jdel''"
  shows "t = s \<and> w = []"
  using handleInputCommand_cases [OF assms(1)] command_read [OF _ assms(2,3)] assms(2) by auto

lemma own_args: "msg_Args (ownMessage args) = args"
  by (simp add: ownMessage_def)

lemma own_names:
  "command sj lb tm (ownMessage [lit ''del'', k, i]) u = Some (cmdDEL lb tm (ownMessage [lit ''del'', k, i]) u)"
  "c \<in> {lit ''delhook'', lit ''delchan''} \<Longrightarrow>
   command sj lb tm (ownMessage [c, name]) u = Some (cmdDelHook lb tm (ownMessage [c, name]) u)"
proof -
  have low: "ToLower (lit ''del'') = lit ''del''" "ToLower (lit ''delhook'') = lit ''delhook''" "ToLower (lit ''delchan'') = lit ''delchan''"
    by code_simp+
  show "command sj lb tm (ownMessage [lit ''del'', k, i]) u = Some (cmdDEL lb tm (ownMessage [lit ''del'', k, i]) u)"
    by (rule command_names(3)) (simp add: ownMessage_def low del: lit_Cons)
  show "command sj lb tm (ownMessage [c, name]) u = Some (cmdDelHook lb tm (ownMessage [c, name]) u)"
    if "c \<in> {lit ''delhook'', lit ''delchan''}"
    using that command_names(9,10) [of "ownMessage [c, name]"] low by (auto simp: ownMessage_def simp del: lit_Cons)
qed

lemma same_refl: "server_ok lb items ok s \<Longrightarrow> \<not> outOfMemory s \<Longrightarrow> same lb items ok s s"
  by (simp add: same_def)

lemma same_frame:
  assumes "same lb items ok s s'"
  shows "same lb items ok (s\<lparr>sv_statsExpired := n\<rparr>) s'" and "same lb items ok (s\<lparr>sv_maxMemory := m, sv_outOfMemory := b\<rparr>) s'"
proof -
  have "getCol lb k (s\<lparr>sv_maxMemory := m, sv_outOfMemory := b\<rparr>) = getCol lb k s" for k by (simp add: getCol_def)
  then show "same lb items ok (s\<lparr>sv_maxMemory := m, sv_outOfMemory := b\<rparr>) s'"
    using assms by (auto simp: same_def server_ok_def contents_def lookup_def fun_eq_iff)
  show "same lb items ok (s\<lparr>sv_statsExpired := n\<rparr>) s'"
    using assms by (auto simp: same_def server_ok_frame contents_def fun_eq_iff)
qed

lemma served_replay:
  assumes "lib_laws lb items ok" and "scan_laws (lb_tr lb)" and "server_ok lb items ok s0" and "\<not> outOfMemory s0"
    and "served sj lb s0 log s"
  shows "\<exists>s'. replay (\<lambda>n :: nat. command sj lb (tms n)) 0 (updates log) s0 = Inr s' \<and> same lb items ok s s'"
  using assms(5)
proof induction
  case start
  show ?case using same_refl [OF assms(3,4)] by (simp add: updates_def)
next
  case (command log s msg tm cf ans w t)
  then obtain s' where s': "replay (\<lambda>n :: nat. command sj lb (tms n)) 0 (updates log) s0 = Inr s'" "same lb items ok s s'" by blast
  show ?case
  proof (cases "isWrite (ToLower (hd (msg_Args msg)))")
    case False
    with handleInputCommand_read [OF command.hyps(6) _ command.hyps(4)] s' show ?thesis by simp
  next
    case True
    from handleInputCommand_write [OF command.hyps(6) True] show ?thesis
    proof (elim disjE conjE exE)
      fix r
      assume r: "msg_Deadline msg = None" "command sj lb tm msg s = Some (r, t)" "\<forall>e. r = Inl e \<longrightarrow> ans = Failed e" "w = entry (msg_Args msg) r"
      have "\<not> panicked r" using r(3) command.hyps(7) by (cases r) auto
      then obtain cmd where "\<forall>tm m u. msg_Args m = msg_Args msg \<longrightarrow> command sj lb tm m u = Some (cmd tm m u)"
          "replays lb items ok cmd (msg_Args msg) r t s'"
        using command_replays [OF assms(1,2) s'(2) r(2) True _ command.hyps(5) r(1) command.hyps(2)] by blast
      then show ?thesis unfolding r(4) by (intro replay_step [OF s'(1)]) (simp_all add: ownMessage_def)
    qed (use s' in simp)
  qed
next
  case (expired log s tm k i v d t)
  then obtain s' where s': "replay (\<lambda>n :: nat. command sj lb (tms n)) 0 (updates log) s0 = Inr s'" "same lb items ok s s'" by blast
  note rep = cmdDEL_replays [OF assms(1) s'(2) expired.hyps(2), unfolded own_args]
  from replay_step [OF s'(1) rep own_names(1)] show ?case by (simp only: entry_def sum.case prod.case)
next
  case (expired_hook log s c tm name v d t)
  then obtain s' where s': "replay (\<lambda>n :: nat. command sj lb (tms n)) 0 (updates log) s0 = Inr s'" "same lb items ok s s'" by blast
  note rep = cmdDelHook_replays [OF assms(1) s'(2) expired_hook.hyps(3), unfolded own_args]
  from replay_step [OF s'(1) rep own_names(2) [OF expired_hook.hyps(2)]] show ?case by (simp only: entry_def sum.case prod.case)
next
  case (expiredCount log s n)
  then show ?case using same_frame(1) by blast
next
  case (memory log s m b)
  then show ?case using same_frame(2) by blast
qed

text \<open>Any beginning of the log belongs to an earlier state.\<close>

lemma updates_single: "length (updates [e]) \<le> 1"
  by (simp add: updates_def split: prod.split)

lemma before_step:
  assumes "\<And>k. k \<le> length (updates log) \<Longrightarrow> \<exists>log' t. served sj lb s0 log' t \<and> prefix log' log \<and> updates log' = take k (updates log)"
    and "served sj lb s0 (log @ w) t" and "length (updates w) \<le> 1" and "k \<le> length (updates (log @ w))"
  shows "\<exists>log' t. served sj lb s0 log' t \<and> prefix log' (log @ w) \<and> updates log' = take k (updates (log @ w))"
proof (cases "k \<le> length (updates log)")
  case True
  with assms(1) [OF True] show ?thesis by (auto intro: prefix_prefix)
next
  case False
  then have "take k (updates (log @ w)) = updates (log @ w)" using assms(3,4) by simp
  with assms(2) show ?thesis by auto
qed

lemma served_before:
  assumes "served sj lb s0 log s" and "k \<le> length (updates log)"
  shows "\<exists>log' t. served sj lb s0 log' t \<and> prefix log' log \<and> updates log' = take k (updates log)"
  using assms
proof (induction arbitrary: k rule: served.induct)
  case start
  then show ?case using served.start [of sj lb s0] by (auto simp: updates_def)
next
  case (command log s msg tm cf ans w t)
  have one: "length (updates w) \<le> 1"
    using handleInputCommand_cases [OF command.hyps(6)] by (auto simp: updates_def split: if_splits)
  show ?case by (rule before_step [OF command.IH served.command [OF command.hyps] one command.prems])
next
  case (expired log s tm k i v d t)
  show ?case
    by (rule before_step [OF expired.IH served.expired [OF expired.hyps] updates_single expired.prems])
next
  case (expired_hook log s c tm name v d t)
  show ?case
    by (rule before_step [OF expired_hook.IH served.expired_hook [OF expired_hook.hyps] updates_single expired_hook.prems])
qed

lemma served_nonempty: "served sj lb s0 log s \<Longrightarrow> [] \<notin> set (updates log)"
proof (induction rule: served.induct)
  case (command log s msg tm cf ans w t)
  then show ?case using handleInputCommand_cases [OF command.hyps(6)] by (auto simp: updates_def split: if_splits)
qed (auto simp: updates_def)

section \<open>Durability\<close>

text \<open>The log file of a server that starts with none.\<close>

definition newAOF :: aof where
  "newAOF = \<lparr>aof_file = Some [], aof_buf = [], aof_sz = 0, aof_shrinking = False, aof_shrinklog = []\<rparr>"

definition writeLog where
  "writeLog rc log a = fold (\<lambda>(args, d). writeAOF rc args (Some d)) log a"

lemma writeLog_bytes:
  assumes "redcon_laws rc"
  shows "aof_file a = Some f \<Longrightarrow> \<not> aof_shrinking a \<Longrightarrow> writeLog rc log a = a\<lparr>aof_buf := aof_buf a @ concat (map (encoded rc) (updates log)),
    aof_sz := aof_sz a + int (length (concat (map (encoded rc) (updates log))))\<rparr>"
proof (induction log arbitrary: a)
  case (Cons e log)
  obtain args d where e: "e = (args, d)" by fastforce
  show ?case
  proof (cases "d_updated d")
    case False
    then show ?thesis using Cons by (simp add: writeLog_def e writeAOF_def updates_def)
  next
    case True
    let ?a = "a\<lparr>aof_buf := aof_buf a @ encoded rc args, aof_sz := aof_sz a + int (length (encoded rc args))\<rparr>"
    have "writeAOF rc args (Some d) a = ?a"
      using Cons.prems True by (simp add: writeAOF_def appendCommand_append [OF assms])
    then have "writeLog rc (e # log) a = writeLog rc log ?a" by (simp add: writeLog_def e)
    with Cons.IH [of ?a] Cons.prems True show ?thesis by (simp add: e updates_def)
  qed
qed (simp add: writeLog_def updates_def)

lemma newAOF_bytes:
  assumes "redcon_laws rc"
  shows "aof_file (flushAOF (writeLog rc log newAOF)) = Some (concat (map (encoded rc) (updates log)))"
    and "aof_sz (writeLog rc log newAOF) = int (length (concat (map (encoded rc) (updates log))))"
proof -
  have new: "aof_file newAOF = Some []" "\<not> aof_shrinking newAOF" "aof_buf newAOF = []" "aof_sz newAOF = 0" by (simp_all add: newAOF_def)
  with writeLog_bytes [OF assms new(1,2), of log]
  show "aof_file (flushAOF (writeLog rc log newAOF)) = Some (concat (map (encoded rc) (updates log)))"
    "aof_sz (writeLog rc log newAOF) = int (length (concat (map (encoded rc) (updates log))))"
    by (simp_all add: flushAOF_def)
qed

section \<open>A concrete protocol\<close>

text \<open>The form of the commands in the file: the number of arguments, and each argument with its length.\<close>

fun dec :: "nat \<Rightarrow> byte list" where
  "dec n = (if n < 10 then [48 + of_nat n] else dec (n div 10) @ [48 + of_nat (n mod 10)])"

declare dec.simps [simp del]

fun readNum :: "nat \<Rightarrow> byte list \<Rightarrow> (nat \<times> byte list) option" where
  "readNum acc [] = None"
| "readNum acc (c # cs) =
     (if c = 13 then (case cs of [] \<Rightarrow> None | _ # rest \<Rightarrow> Some (acc, rest)) else readNum (acc * 10 + unat (c - 48)) cs)"

definition readBulk :: "byte list \<Rightarrow> (gostring \<times> byte list) option" where
  "readBulk data =
     (case data of
        [] \<Rightarrow> None
      | _ # rest \<Rightarrow>
          (case readNum 0 rest of
             None \<Rightarrow> None
           | Some (n, r) \<Rightarrow> if n + 2 \<le> length r then Some (take n r, drop (n + 2) r) else None))"

primrec readBulks :: "nat \<Rightarrow> byte list \<Rightarrow> (gostring list \<times> byte list) option" where
  "readBulks 0 data = Some ([], data)"
| "readBulks (Suc n) data =
     (case readBulk data of
        None \<Rightarrow> None
      | Some (arg, r) \<Rightarrow> (case readBulks n r of None \<Rightarrow> None | Some (args, r') \<Rightarrow> Some (arg # args, r')))"

definition demo_rc :: redcon_lib where
  "demo_rc =
     \<lparr>rc_AppendArray = (\<lambda>buf n. buf @ [42] @ dec n @ [13, 10]),
      rc_AppendBulkString = (\<lambda>buf s. buf @ [36] @ dec (length s) @ [13, 10] @ s @ [13, 10]),
      rc_ReadNextCommand = (\<lambda>data.
        case data of
          [] \<Rightarrow> Inr (False, [], data)
        | _ # rest \<Rightarrow>
            (case readNum 0 rest of
               None \<Rightarrow> Inr (False, [], data)
             | Some (n, r) \<Rightarrow>
                 (case readBulks n r of None \<Rightarrow> Inr (False, [], data) | Some (args, r') \<Rightarrow> Inr (True, args, r'))))\<rparr>"

lemma digit: "n < 10 \<Longrightarrow> unat (of_nat n :: byte) = n" "n < 10 \<Longrightarrow> (48 + of_nat n :: byte) \<noteq> 13"
proof -
  assume n: "n < 10"
  show "unat (of_nat n :: byte) = n" using n by (simp add: unat_of_nat)
  from n have "n \<in> {0, 1, 2, 3, 4, 5, 6, 7, 8, 9}" by auto
  then show "(48 + of_nat n :: byte) \<noteq> 13" by (elim insertE emptyE) simp_all
qed

lemma readNum_dec: "readNum acc (dec n @ cs) = readNum (acc * 10 ^ length (dec n) + n) cs"
proof (induction n arbitrary: acc cs rule: dec.induct)
  case (1 n)
  show ?case
  proof (cases "n < 10")
    case True
    then show ?thesis by (simp add: dec.simps [of n] digit)
  next
    case False
    then show ?thesis using 1 [OF False] by (simp add: dec.simps [of n] digit algebra_simps)
  qed
qed

lemma dec_no_13: "13 \<notin> set (dec n)"
  by (induction n rule: dec.induct) (subst dec.simps, simp add: digit eq_commute [of 13])

lemma readNum_complete: "readNum 0 (dec n @ 13 # 10 # rest) = Some (n, rest)"
  by (simp add: readNum_dec)

lemma strict_prefix_append_cases:
  assumes "strict_prefix p (a @ b)"
  obtains "strict_prefix p a" | q where "p = a @ q" "strict_prefix q b"
proof (cases "p = a")
  case True
  then show thesis using assms that(2) [of "[]"] by (simp add: strict_prefix_def)
qed (use assms that in \<open>auto simp: strict_prefix_def prefix_append\<close>)

lemma readNum_part: "13 \<notin> set xs \<Longrightarrow> strict_prefix p (xs @ [13, 10]) \<Longrightarrow> readNum acc p = None"
proof (induction xs arbitrary: p acc)
  case (Cons x xs)
  show ?case
  proof (cases p)
    case c: (Cons c q)
    then have "c = x" "strict_prefix q (xs @ [13, 10])" using Cons.prems(2) by (auto simp: strict_prefix_def)
    with c Cons show ?thesis by auto
  qed simp
qed (auto simp: strict_prefix_def prefix_Cons)

lemma readBulk_complete: "readBulk (36 # dec (length s) @ 13 # 10 # s @ 13 # 10 # rest) = Some (s, rest)"
  by (simp add: readBulk_def readNum_complete)

lemma readBulk_part:
  assumes "strict_prefix p (36 # dec (length s) @ 13 # 10 # s @ [13, 10])"
  shows "readBulk p = None"
proof (cases p)
  case (Cons c q)
  then have "strict_prefix q ((dec (length s) @ [13, 10]) @ (s @ [13, 10]))" using assms by (simp add: strict_prefix_def)
  then show ?thesis
  proof (cases rule: strict_prefix_append_cases)
    case 1
    then show ?thesis using readNum_part [OF dec_no_13] Cons by (simp add: readBulk_def)
  next
    case (2 r)
    then have "length r < length s + 2" using prefix_length_less by fastforce
    then show ?thesis using Cons 2 by (simp add: readBulk_def readNum_complete)
  qed
qed (simp add: readBulk_def)

abbreviation bulk :: "gostring \<Rightarrow> byte list" where
  "bulk s \<equiv> 36 # dec (length s) @ 13 # 10 # s @ [13, 10]"

lemma readBulks_complete: "readBulks (length args) (concat (map bulk args) @ rest) = Some (args, rest)"
  by (induction args) (simp_all add: readBulk_complete)

lemma readBulks_part: "strict_prefix p (concat (map bulk args)) \<Longrightarrow> readBulks (length args) p = None"
proof (induction args arbitrary: p)
  case (Cons s args)
  from Cons.prems have "strict_prefix p (bulk s @ concat (map bulk args))" by simp
  then show ?case
  proof (cases rule: strict_prefix_append_cases)
    case 1
    then show ?thesis by (simp add: readBulk_part)
  next
    case (2 q)
    then show ?thesis using Cons.IH [OF 2(2)] readBulk_complete [of s q] by simp
  qed
qed simp

lemma encoded_demo: "encoded demo_rc args = 42 # dec (length args) @ 13 # 10 # concat (map bulk args)"
proof -
  have "fold (\<lambda>arg buf. buf @ bulk arg) args b = b @ concat (map bulk args)" for b
    by (induction args arbitrary: b) simp_all
  then show ?thesis by (simp add: encoded_def appendCommand_def demo_rc_def)
qed

lemma demo_redcon_laws: "redcon_laws demo_rc"
proof -
  have "rc_ReadNextCommand demo_rc (encoded demo_rc args @ rest) = Inr (True, args, rest)" for args rest
    unfolding encoded_demo using readBulks_complete [of args rest] by (simp add: demo_rc_def readNum_complete)
  moreover have "rc_ReadNextCommand demo_rc part = Inr (False, [], part)" if "strict_prefix part (encoded demo_rc args)" for args part
  proof (cases part)
    case (Cons c q)
    then have "strict_prefix q ((dec (length args) @ [13, 10]) @ concat (map bulk args))"
      using that unfolding encoded_demo by (simp add: strict_prefix_def)
    then show ?thesis
    proof (cases rule: strict_prefix_append_cases)
      case 1
      then show ?thesis using readNum_part [OF dec_no_13] Cons by (simp add: demo_rc_def)
    next
      case (2 r)
      then show ?thesis using readBulks_part [OF 2(2)] Cons by (simp add: demo_rc_def readNum_complete)
    qed
  qed (simp add: demo_rc_def)
  moreover have "rc_AppendArray demo_rc buf n = buf @ rc_AppendArray demo_rc [] n"
    "rc_AppendBulkString demo_rc buf arg = buf @ rc_AppendBulkString demo_rc [] arg"
    "rc_AppendArray demo_rc [] n \<noteq> [] \<and> hd (rc_AppendArray demo_rc [] n) \<noteq> 0" for buf n arg
    by (simp_all add: demo_rc_def)
  ultimately show ?thesis unfolding redcon_laws_def by blast
qed

section \<open>Loading the log\<close>

text \<open>
  C3. What reaches the log file survives the server. Whatever commands of the model clients sent, \<open>JDEL\<close> apart, and whatever expired in the
  meantime, if the bytes written to the log are loaded into a server like the first one at its start, in packets of any sizes and at any time, then
  loading ends without an error and gives the same objects with the same geometries and fields under the same keys and the same
  hooks. If the end of the file is missing, as after a crash, then the contents are those of an earlier moment, and the file is cut
  behind its last complete command.
\<close>

theorem log_restores_database:
  assumes "lib_laws lb items ok" and "scan_laws (lb_tr lb)" and "redcon_laws rc"
    and "server_ok lb items ok s0" and "\<not> outOfMemory s0" and "served sj lb s0 log s"
    and "written = flushAOF (writeLog rc log newAOF)" and "prefix (concat packets) (the (aof_file written))"
  shows "\<exists>a n s' log' t. loadAOF rc (\<lambda>n :: nat. command sj lb (tms n)) packets (newAOF\<lparr>aof_file := Some (concat packets)\<rparr>) s0 = Some (Inr (a, n, s'))
    \<and> served sj lb s0 log' t \<and> prefix log' log
    \<and> contents lb s' = contents lb t \<and> sv_hooks s' = sv_hooks t
    \<and> aof_file a = aof_file (flushAOF (writeLog rc log' newAOF)) \<and> aof_sz a = aof_sz (writeLog rc log' newAOF)
    \<and> (concat packets = the (aof_file written) \<longrightarrow> contents lb s' = contents lb s \<and> sv_hooks s' = sv_hooks s)"
proof -
  let ?run = "\<lambda>n :: nat. command sj lb (tms n)" and ?a = "newAOF\<lparr>aof_file := Some (concat packets)\<rparr>"
  note new = newAOF_bytes [OF assms(3)]
  have pre: "prefix (concat packets) (concat (map (encoded rc) (updates log)))" using assms(7,8) new(1) [of log] by simp
  obtain k where k: "k \<le> length (updates log)" "concat packets = concat (map (encoded rc) (updates log)) \<longrightarrow> k = length (updates log)"
      "loadAOF rc ?run packets ?a s0 = Some (case replay ?run 0 (take k (updates log)) s0 of
        Inl e \<Rightarrow> Inl e
      | Inr s' \<Rightarrow> let bytes = concat (map (encoded rc) (take k (updates log)))
                 in Inr (?a\<lparr>aof_file := Some bytes, aof_sz := int (length bytes)\<rparr>, k, s'))"
    using loadAOF_replay [OF assms(3) pre served_nonempty [OF assms(6)], of ?a ?run s0] by (auto simp: newAOF_def)
  obtain log' t where t: "served sj lb s0 log' t" "prefix log' log" "updates log' = take k (updates log)"
    using served_before [OF assms(6) k(1)] by blast
  obtain s' where s': "replay ?run 0 (take k (updates log)) s0 = Inr s'" "same lb items ok t s'"
    using served_replay [OF assms(1,2,4,5) t(1), of tms] t(3) by auto
  have "contents lb s' = contents lb s \<and> sv_hooks s' = sv_hooks s" if "concat packets = the (aof_file written)"
  proof -
    have "take k (updates log) = updates log" using that k(2) assms(7) new(1) [of log] by simp
    then show ?thesis using served_replay [OF assms(1,2,4,5,6), of tms] s' by (auto simp: same_def)
  qed
  with k(3) s' t new [of log'] show ?thesis
    by (intro exI [of _ "?a\<lparr>aof_file := Some (concat (map (encoded rc) (take k (updates log)))),
          aof_sz := int (length (concat (map (encoded rc) (take k (updates log)))))\<rparr>"] exI [of _ k] exI [of _ s'] exI [of _ log'] exI [of _ t])
       (simp add: Let_def same_def)
qed

theorem log_restores_database_witness:
  "\<exists>v logged s a n s'. handleInputCommand demo_sj demo_lb demo_cf (demo_tm 0) demo_set_a demo_start = Some (Answered v, logged, s)
    \<and> getCol demo_lb (lit ''fleet'') s \<noteq> None
    \<and> loadAOF demo_rc (\<lambda>n. command demo_sj demo_lb (demo_tm (5 + of_nat n))) [the (aof_file (flushAOF (writeLog demo_rc logged newAOF)))]
        (newAOF\<lparr>aof_file := aof_file (flushAOF (writeLog demo_rc logged newAOF))\<rparr>) demo_start = Some (Inr (a, n, s'))
    \<and> contents demo_lb s' = contents demo_lb s"
proof -
  have "case handleInputCommand demo_sj demo_lb demo_cf (demo_tm 0) demo_set_a demo_start of
      Some (Answered v, logged, s) \<Rightarrow> (case getCol demo_lb (lit ''fleet'') s of None \<Rightarrow> False | Some col \<Rightarrow> True) | _ \<Rightarrow> False"
    by code_simp
  then obtain v logged s where s: "handleInputCommand demo_sj demo_lb demo_cf (demo_tm 0) demo_set_a demo_start = Some (Answered v, logged, s)"
      "getCol demo_lb (lit ''fleet'') s \<noteq> None"
    by (fastforce split: option.splits prod.splits answer.splits)
  have start: "server_ok demo_lb mset sorted_wrt demo_start" "fits_memory demo_lb demo_start" "\<not> outOfMemory demo_start"
    using start_ok [OF demo_laws] demo_laws
    by (simp_all add: demo_start_def fits_memory_def getCol_def emptyServer_def lib_laws_def map_lawsD outOfMemory_def)
  have msg: "msg_Args demo_set_a \<noteq> []" "ToLower (hd (msg_Args demo_set_a)) \<noteq> lit ''jdel''" by code_simp+
  have served: "served demo_sj demo_lb demo_start logged s"
    using served.command [OF served.start start(2) msg demo_msg_fine s(1)] by simp
  have tr: "scan_laws (lb_tr demo_lb)" using demo_scan_laws by (simp add: demo_lb_def)
  let ?bytes = "the (aof_file (flushAOF (writeLog demo_rc logged newAOF)))"
  have bytes: "aof_file (flushAOF (writeLog demo_rc logged newAOF)) = Some ?bytes"
    by (simp add: newAOF_bytes(1) [OF demo_redcon_laws])
  show ?thesis
    using log_restores_database [OF demo_laws tr demo_redcon_laws start(1,3) served refl, of "[?bytes]" "\<lambda>n. demo_tm (5 + of_nat n)"] s bytes
    by auto
qed

section \<open>What is not logged\<close>

lemma command_silent:
  assumes "lib_laws lb items ok" and "scan_laws (lb_tr lb)" and "server_ok lb items ok s" and "command sj lb tm msg s = Some (r, t)"
    and "isWrite (ToLower (hd (msg_Args msg)))" and "\<not> panicked r" and "msg_fine lb tm msg" and "msg_Deadline msg = None"
    and "fits_memory lb s"
  shows "silent lb s r t"
proof -
  have fine: "args_fine lb tm (msg_Args msg)" using assms(7) by (simp add: msg_fine_def)
  note quiet = cmdSET_silent [OF assms(1,3) _ fine assms(6)] cmdFSET_silent [OF assms(1,3) _ assms(6)] cmdDEL_silent [OF assms(1,3)]
    cmdPDEL_silent [OF assms(1-3) _ assms(8,9)] cmdDROP_silent [OF assms(1,3)] cmdFLUSHDB_silent cmdRENAME_silent [OF assms(1,3)]
    cmdDelHook_silent cmdPDelHook_silent cmdEXPIRE_silent cmdPERSIST_silent cmdJset_silent [where sj = sj, OF assms(1,3) _ assms(7,6)]
  have "ToLower (hd (msg_Args msg)) \<in> set writeCommands" using assms(5) by (simp only: isWrite_def)
  moreover have "ToLower (hd (msg_Args msg)) \<notin> {lit ''sethook'', lit ''setchan''}" using assms(4) command_names(16) [of msg sj lb tm s] by auto
  ultimately consider "ToLower (hd (msg_Args msg)) = lit ''set''" | "ToLower (hd (msg_Args msg)) = lit ''fset''"
    | "ToLower (hd (msg_Args msg)) = lit ''del''" | "ToLower (hd (msg_Args msg)) = lit ''pdel''"
    | "ToLower (hd (msg_Args msg)) = lit ''drop''" | "ToLower (hd (msg_Args msg)) = lit ''flushdb''"
    | "ToLower (hd (msg_Args msg)) = lit ''rename''" | "ToLower (hd (msg_Args msg)) = lit ''renamenx''"
    | "ToLower (hd (msg_Args msg)) = lit ''delhook''" | "ToLower (hd (msg_Args msg)) = lit ''delchan''"
    | "ToLower (hd (msg_Args msg)) = lit ''pdelhook''" | "ToLower (hd (msg_Args msg)) = lit ''pdelchan''"
    | "ToLower (hd (msg_Args msg)) = lit ''expire''" | "ToLower (hd (msg_Args msg)) = lit ''persist''"
    | "ToLower (hd (msg_Args msg)) = lit ''jset''"
    by (auto simp: writeCommands_def simp del: lit_Cons)
  then show ?thesis
    by cases (use assms(4) in \<open>simp add: command_names quiet del: lit_Cons\<close>)+
qed

lemma writeLog_single:
  assumes "redcon_laws rc" and "aof_file a = Some f"
  shows "aof_buf (writeLog rc [] a) = aof_buf a" and "aof_sz (writeLog rc [] a) = aof_sz a" and "aof_shrinklog (writeLog rc [] a) = aof_shrinklog a"
    and "aof_buf (writeLog rc [(args, d)] a) = aof_buf a @ (if d_updated d then encoded rc args else [])"
    and "aof_sz (writeLog rc [(args, d)] a) = aof_sz a + (if d_updated d then int (length (encoded rc args)) else 0)"
    and "aof_shrinklog (writeLog rc [(args, d)] a) = aof_shrinklog a @ (if d_updated d \<and> aof_shrinking a then [args] else [])"
  using assms(2) by (simp_all add: writeLog_def writeAOF_def appendCommand_append [OF assms(1)] Let_def)

text \<open>
  C20. No change of data goes unlogged. Take any command of the model but \<open>JDEL\<close>, whose geometries have no NaN coordinates, sent to a server that meets its
  invariant and has a log file; the process does not panic. Either the command is on the list of writes, the server neither follows another one nor is read-only, the client is answered, and exactly the
  bytes of the command are put behind the buffer of the log (and into the log of a shrinking in progress); or nothing is
  logged, and then every object, with its geometry, fields and expiration, and every hook is as before, even if the command was answered or
  failed half way. \<open>JDEL\<close> is not on that list and is never logged, whatever it changes. (Queries are functions of the state in the model; commands that
  are not modelled, such as scripts, are not covered.)
\<close>

theorem no_change_unlogged:
  assumes "lib_laws lb items ok" and "scan_laws (lb_tr lb)" and "redcon_laws rc" and "server_ok lb items ok s" and "fits_memory lb s"
    and "msg_fine lb tm msg" and "handleInputCommand sj lb cf tm msg s = Some (ans, w, t)"
    and "\<And>e. panicked (Inl e :: cmd_error + unit) \<Longrightarrow> ans \<noteq> Failed e" and "aof_file a = Some f"
  shows "let cmd = ToLower (hd (msg_Args msg)); a' = writeLog rc w a in
    if aof_buf a' = aof_buf a
    then aof_sz a' = aof_sz a \<and> aof_shrinklog a' = aof_shrinklog a
      \<and> (cmd \<noteq> lit ''jdel'' \<longrightarrow> visible lb t = visible lb s \<and> sv_hooks t = sv_hooks s)
    else isWrite cmd \<and> cmd \<noteq> lit ''jdel'' \<and> cf_followHost cf = [] \<and> \<not> cf_readOnly cf \<and> (\<exists>v. ans = Answered v)
      \<and> aof_buf a' = aof_buf a @ encoded rc (msg_Args msg) \<and> aof_sz a' = aof_sz a + int (length (encoded rc (msg_Args msg)))
      \<and> aof_shrinklog a' = aof_shrinklog a @ (if aof_shrinking a then [msg_Args msg] else [])"
proof -
  let ?cmd = "ToLower (hd (msg_Args msg))"
  note log = writeLog_single [OF assms(3,9)]
  have jdel: "?cmd \<noteq> lit ''jdel''" if "isWrite ?cmd" using that writes(16) by (auto simp del: lit_Cons)
  show ?thesis
  proof (cases "isWrite ?cmd")
    case False
    then have w: "w = []" using handleInputCommand_cases [OF assms(7)] by auto
    have "t = s" if "?cmd \<noteq> lit ''jdel''" using handleInputCommand_read [OF assms(7) False that] by simp
    then show ?thesis by (simp add: w log(1-3) Let_def del: lit_Cons)
  next
    case True
    from handleInputCommand_write [OF assms(7) True] show ?thesis
    proof (elim disjE conjE exE)
      assume "t = s" "w = []"
      then show ?thesis by (simp add: log(1-3) Let_def del: lit_Cons)
    next
      fix r
      assume r: "msg_Deadline msg = None" "command sj lb tm msg s = Some (r, t)" "\<forall>e. r = Inl e \<longrightarrow> ans = Failed e" "w = entry (msg_Args msg) r"
      have "\<not> panicked r" using r(3) assms(8) by (cases r) auto
      then have quiet: "silent lb s r t" by (rule command_silent [OF assms(1,2,4) r(2) True _ assms(6) r(1) assms(5)])
      show ?thesis
      proof (cases "updated r")
        case False
        then have "aof_buf (writeLog rc w a) = aof_buf a \<and> aof_sz (writeLog rc w a) = aof_sz a
          \<and> aof_shrinklog (writeLog rc w a) = aof_shrinklog a"
          by (cases r) (auto simp: r(4) entry_def log)
        with False quiet show ?thesis by (simp add: silent_def Let_def del: lit_Cons)
      next
        case upd: True
        then obtain v d where vd: "r = Inr (v, d)" "d_updated d" by (cases r) auto
        then have w: "w = [(msg_Args msg, d)]" by (simp add: r(4) entry_def)
        have "refused cf msg ?cmd = None" "ans = Answered v" using assms(7) w r(2) vd(1)
          by (auto simp: handleInputCommand_def Let_def split: option.splits if_splits)
        then have "cf_followHost cf = [] \<and> \<not> cf_readOnly cf" using True by (auto simp: refused_def split: if_splits simp del: lit_Cons)
        with \<open>ans = Answered v\<close> True jdel vd(2) show ?thesis by (simp add: w log encoded_start(1) [OF assms(3)] Let_def del: lit_Cons)
      qed
    qed
  qed
qed

theorem no_change_unlogged_witness:
  "\<exists>v w t. handleInputCommand demo_sj demo_lb demo_cf (demo_tm 0) (demo_msg [''DEL'', ''fleet'', ''a'']) demo_start = Some (Answered v, w, t)
    \<and> w \<noteq> [] \<and> aof_buf (writeLog demo_rc w newAOF) = [] \<and> visible demo_lb t = visible demo_lb demo_start"
proof -
  let ?m = "demo_msg [''DEL'', ''fleet'', ''a'']"
  have "map_option (\<lambda>(ans, w, t). (ans, map (\<lambda>(args, d). d_updated d) w)) (handleInputCommand demo_sj demo_lb demo_cf (demo_tm 0) ?m demo_start)
      = Some (Answered (RInteger 0), [False])"
    by code_simp
  then obtain w t where w: "handleInputCommand demo_sj demo_lb demo_cf (demo_tm 0) ?m demo_start = Some (Answered (RInteger 0), w, t)"
      "map (\<lambda>(args, d). d_updated d) w = [False]"
    by (auto simp: map_option_case split: option.splits)
  from w(2) obtain args d where "w = [(args, d)]" "\<not> d_updated d" by auto
  with w(1) have run: "handleInputCommand demo_sj demo_lb demo_cf (demo_tm 0) ?m demo_start = Some (Answered (RInteger 0), [(args, d)], t)"
      "\<not> d_updated d"
    by simp_all
  have start: "server_ok demo_lb mset sorted_wrt demo_start" "fits_memory demo_lb demo_start"
    using start_ok [OF demo_laws] demo_laws
    by (simp_all add: demo_start_def fits_memory_def getCol_def emptyServer_def lib_laws_def map_lawsD)
  have tr: "scan_laws (lb_tr demo_lb)" using demo_scan_laws by (simp add: demo_lb_def)
  have new: "aof_file newAOF = Some []" by (simp add: newAOF_def)
  have "ToLower (hd (msg_Args ?m)) \<noteq> lit ''jdel''" by code_simp
  moreover have buf: "aof_buf (writeLog demo_rc [(args, d)] newAOF) = aof_buf newAOF" "aof_buf newAOF = []"
    using run(2) by (simp_all add: writeLog_single [OF demo_redcon_laws new]) (simp add: newAOF_def)
  moreover note no_change_unlogged [OF demo_laws tr demo_redcon_laws start demo_msg_fine run(1) _ new]
  ultimately have "visible demo_lb t = visible demo_lb demo_start" by (simp add: Let_def del: lit_Cons)
  with run(1) buf show ?thesis by auto
qed

end
