(* ===== verification/Wkb.thy ===== *)
theory Wkb
  imports Byte_Order
begin

text \<open>
  Geometries in well-known binary form (\<^verbatim>\<open>internal/geom/encoding/wkb\<close>): the encoder, with its sticky error, and the decoder.
  The encoder writes to a \<^verbatim>\<open>bytes.Buffer\<close>, which never fails; the decoder reads from a \<^verbatim>\<open>bytes.Reader\<close>.
\<close>

section \<open>Geometries\<close>

type_synonym xy = "float64 \<times> float64"

text \<open>
  The types of \<^verbatim>\<open>internal/geom\<close> that the encoder or the decoder knows.  A name that ends in \<open>S\<close> is a geometry with the number of a spatial
  reference system; \<open>OtherGeometry\<close> stands for the types without any of the methods the encoder asks for.
\<close>

datatype geometry =
    Point xy
  | PointZ xy float64
  | PointM xy float64
  | PointS "32 word" xy
  | MultiPoint "xy list"
  | MultiPointS "32 word" "xy list"
  | LineString "xy list"
  | Line xy xy
  | Extent float64 float64 float64 float64
  | LineStringS "32 word" "xy list"
  | MultiLineString "xy list list"
  | MultiLineStringS "32 word" "xy list list"
  | Polygon "xy list list"
  | Triangle xy xy xy
  | PolygonS "32 word" "xy list list"
  | MultiPolygon "xy list list list"
  | MultiPolygonS "32 word" "xy list list list"
  | Collection "geometry list"
  | CollectionS "32 word" "geometry list"
  | OtherGeometry

datatype wkb_error =
    ReadError read_error
  | ErrBadBOM byte
  | ErrInvalidType string "32 word"
  | ErrUnknownGeometryType "32 word"
  | ErrUnknownGeometry geometry
  | DecodeFailed string wkb_error

abbreviation tyPoint :: "32 word" where "tyPoint \<equiv> 1"
abbreviation tyLineString :: "32 word" where "tyLineString \<equiv> 2"
abbreviation tyPolygon :: "32 word" where "tyPolygon \<equiv> 3"
abbreviation tyMultiPoint :: "32 word" where "tyMultiPoint \<equiv> 4"
abbreviation tyMultiLineString :: "32 word" where "tyMultiLineString \<equiv> 5"
abbreviation tyMultiPolygon :: "32 word" where "tyMultiPolygon \<equiv> 6"
abbreviation tyCollection :: "32 word" where "tyCollection \<equiv> 7"
abbreviation WKBSRID :: "32 word" where "WKBSRID \<equiv> 0x20000000"

definition same_xy :: "xy \<Rightarrow> xy \<Rightarrow> bool" where
  "same_xy p q \<longleftrightarrow> f_eq (fst p) (fst q) \<and> f_eq (snd p) (snd q)"

section \<open>The encoder\<close>

record Encoder =
  en_W :: "byte list"
  en_ByteOrder :: "ByteOrder option"
  en_SRID :: "32 word"
  en_err :: "wkb_error option"

datatype wdata = WByte byte | WUint32 "32 word" | WFloat64 float64

primrec binary_Write :: "ByteOrder \<Rightarrow> wdata \<Rightarrow> byte list" where
  "binary_Write bo (WByte b) = [b]"
| "binary_Write bo (WUint32 w) = put_bytes bo 4 w"
| "binary_Write bo (WFloat64 x) = put_bytes bo 8 x"

definition conti :: "Encoder \<Rightarrow> bool" where
  "conti en \<longleftrightarrow> en_err en = None"

definition default_order :: "Encoder \<Rightarrow> Encoder" where
  "default_order en = (case en_ByteOrder en of None \<Rightarrow> en\<lparr>en_ByteOrder := Some LittleEndian\<rparr> | Some _ \<Rightarrow> en)"

definition put_data :: "wdata list \<Rightarrow> Encoder \<Rightarrow> Encoder" where
  "put_data data en = en\<lparr>en_W := en_W en @ concat (map (binary_Write (the (en_ByteOrder en))) data)\<rparr>"

definition Write :: "wdata list \<Rightarrow> Encoder \<Rightarrow> Encoder" where
  "Write data en = (if \<not> conti en then en else put_data data (default_order en))"

definition WriteTyp :: "32 word \<Rightarrow> wdata list \<Rightarrow> Encoder \<Rightarrow> Encoder" where
  "WriteTyp typ data en =
     (if \<not> conti en then en
      else
        let en1 = default_order en;
            typ' = (if en_SRID en1 \<noteq> 0 then typ + WKBSRID else typ);
            en2 = put_data [WUint32 typ'] en1;
            en3 = (if typ' AND WKBSRID = WKBSRID then put_data [WUint32 (en_SRID en2)] en2 else en2)
        in put_data data en3)"

definition BOM :: "Encoder \<Rightarrow> Encoder" where
  "BOM en =
     (if \<not> conti en then en
      else if en_ByteOrder en = Some BigEndian then Write [WByte 0] en
      else Write [WByte 1] en)"

abbreviation wxy :: "xy \<Rightarrow> wdata list" where
  "wxy p \<equiv> [WFloat64 (fst p), WFloat64 (snd p)]"

abbreviation wlen :: "'a list \<Rightarrow> wdata" where
  "wlen xs \<equiv> WUint32 (of_nat (length xs))"

definition enPoint :: "xy \<Rightarrow> Encoder \<Rightarrow> Encoder" where
  "enPoint pt en = WriteTyp tyPoint (wxy pt) (BOM en)"

definition enMultiPoint :: "xy list \<Rightarrow> Encoder \<Rightarrow> Encoder" where
  "enMultiPoint pts en = fold enPoint pts (WriteTyp tyMultiPoint [wlen pts] (BOM en))"

definition enLineString :: "xy list \<Rightarrow> Encoder \<Rightarrow> Encoder" where
  "enLineString ln en = fold (\<lambda>p. Write (wxy p)) ln (WriteTyp tyLineString [wlen ln] (BOM en))"

definition enMultiLineString :: "xy list list \<Rightarrow> Encoder \<Rightarrow> Encoder" where
  "enMultiLineString lns en = fold enLineString lns (WriteTyp tyMultiLineString [wlen lns] (BOM en))"

definition enRing :: "xy list \<Rightarrow> Encoder \<Rightarrow> Encoder" where
  "enRing r en =
     (let len = of_nat (length r) :: 32 word;
          needToClose = (len > 0 \<and> \<not> same_xy (r ! 0) (r ! unat (len - 1)));
          len' = (if needToClose then len + 1 else len);
          en1 = fold (\<lambda>p. Write (wxy p)) r (Write [WUint32 len'] en)
      in if needToClose then Write (wxy (r ! 0)) en1 else en1)"

definition enPolygon :: "xy list list \<Rightarrow> Encoder \<Rightarrow> Encoder" where
  "enPolygon ply en = fold enRing ply (WriteTyp tyPolygon [wlen ply] (BOM en))"

definition enMultiPolygon :: "xy list list list \<Rightarrow> Encoder \<Rightarrow> Encoder" where
  "enMultiPolygon mply en = fold enPolygon mply (WriteTyp tyMultiPolygon [wlen mply] (BOM en))"

text \<open>
  The encoder looks for the first of seven methods.  A \<open>PointS\<close> has the method of a point, a \<open>MultiPolygonS\<close> and a \<open>CollectionS\<close> inherit theirs
  from the field they embed; the other types with a reference system have methods of another result type.
\<close>

fun enGeometry :: "geometry \<Rightarrow> Encoder \<Rightarrow> Encoder"
and enGeometries :: "geometry list \<Rightarrow> Encoder \<Rightarrow> Encoder" where
  "enGeometry g en =
     (if \<not> conti en then en
      else case g of
        Point p \<Rightarrow> enPoint p en
      | PointZ p z \<Rightarrow> enPoint p en
      | PointM p m \<Rightarrow> enPoint p en
      | PointS srid p \<Rightarrow> enPoint p en
      | MultiPoint pts \<Rightarrow> enMultiPoint pts en
      | LineString ln \<Rightarrow> enLineString ln en
      | Line p q \<Rightarrow> enLineString [p, q] en
      | Extent minx miny maxx maxy \<Rightarrow> enLineString [(minx, miny), (maxx, miny), (maxx, maxy), (minx, maxy)] en
      | MultiLineString lns \<Rightarrow> enMultiLineString lns en
      | Polygon ply \<Rightarrow> enPolygon ply en
      | Triangle p q r \<Rightarrow> enPolygon [[p, q, r]] en
      | MultiPolygon mply \<Rightarrow> enMultiPolygon mply en
      | MultiPolygonS srid mply \<Rightarrow> enMultiPolygon mply en
      | Collection gs \<Rightarrow> enGeometries gs (WriteTyp tyCollection [wlen gs] (BOM en))
      | CollectionS srid gs \<Rightarrow> enGeometries gs (WriteTyp tyCollection [wlen gs] (BOM en))
      | _ \<Rightarrow> en\<lparr>en_err := Some (ErrUnknownGeometry g)\<rparr>)"
| "enGeometries [] en = en"
| "enGeometries (g # gs) en =
     (let en' = enGeometry g en in if \<not> conti en' then en' else enGeometries gs en')"

definition EncodeWithByteOrder :: "ByteOrder \<Rightarrow> 32 word \<Rightarrow> geometry \<Rightarrow> wkb_error + byte list" where
  "EncodeWithByteOrder byteOrder srid g =
     (let en = enGeometry g \<lparr>en_W = [], en_ByteOrder = Some byteOrder, en_SRID = srid, en_err = None\<rparr>
      in case en_err en of None \<Rightarrow> Inr (en_W en) | Some e \<Rightarrow> Inl e)"

definition EncodeBytes :: "geometry \<Rightarrow> wkb_error + byte list" where
  "EncodeBytes g = EncodeWithByteOrder LittleEndian 0 g"

definition EncodeBytesSRID :: "32 word \<Rightarrow> geometry \<Rightarrow> wkb_error + byte list" where
  "EncodeBytesSRID srid g = EncodeWithByteOrder LittleEndian srid g"

section \<open>The decoder\<close>

type_synonym 'a dec = "byte list \<Rightarrow> wkb_error + ('a \<times> byte list)"

definition binary_Read :: "nat \<Rightarrow> byte list dec" where
  "binary_Read n bs = (case read_full n bs of Inl e \<Rightarrow> Inl (ReadError e) | Inr r \<Rightarrow> Inr r)"

definition readUint32 :: "ByteOrder \<Rightarrow> 32 word dec" where
  "readUint32 bo bs = bindE (binary_Read 4 bs) (\<lambda>(x, bs). Inr (get_bytes bo x, bs))"

definition deXY :: "ByteOrder \<Rightarrow> xy dec" where
  "deXY bo bs = bindE (binary_Read 16 bs) (\<lambda>(x, bs). Inr ((get_bytes bo (take 8 x), get_bytes bo (drop 8 x)), bs))"

definition ByteOrderType :: "(ByteOrder \<times> 32 word) dec" where
  "ByteOrderType bs =
     (case bs of
        [] \<Rightarrow> Inl (ReadError EOF)
      | b # bs' \<Rightarrow>
          if b = 0 then bindE (readUint32 BigEndian bs') (\<lambda>(typ, bs). Inr ((BigEndian, typ), bs))
          else if b = 1 then bindE (readUint32 LittleEndian bs') (\<lambda>(typ, bs). Inr ((LittleEndian, typ), bs))
          else Inl (ErrBadBOM b))"

text \<open>A loop that fills a slice, and one whose elements have a header of their own.\<close>

primrec deMany :: "'a dec \<Rightarrow> nat \<Rightarrow> 'a list dec" where
  "deMany f 0 bs = Inr ([], bs)"
| "deMany f (Suc n) bs = bindE (f bs) (\<lambda>(x, bs). bindE (deMany f n bs) (\<lambda>(xs, bs). Inr (x # xs, bs)))"

definition deTyped :: "string \<Rightarrow> 32 word \<Rightarrow> (ByteOrder \<Rightarrow> 'a dec) \<Rightarrow> 'a dec" where
  "deTyped primary ty f bs =
     bindE (ByteOrderType bs) (\<lambda>((bom, typ), bs). if typ \<noteq> ty then Inl (ErrInvalidType primary typ) else f bom bs)"

definition deCounted :: "ByteOrder \<Rightarrow> 'a dec \<Rightarrow> 'a list dec" where
  "deCounted bom f bs = bindE (readUint32 bom bs) (\<lambda>(num, bs). deMany f (unat num) bs)"

definition dePoint :: "ByteOrder \<Rightarrow> xy dec" where
  "dePoint bom = deXY bom"

definition deMultiPoint :: "ByteOrder \<Rightarrow> xy list dec" where
  "deMultiPoint bom = deCounted bom (deTyped ''multipoint'' tyPoint deXY)"

definition deLineString :: "ByteOrder \<Rightarrow> xy list dec" where
  "deLineString bom = deCounted bom (deXY bom)"

definition deMultiLineString :: "ByteOrder \<Rightarrow> xy list list dec" where
  "deMultiLineString bom = deCounted bom (deTyped ''multilinestring'' tyLineString deLineString)"

definition LinerRing :: "ByteOrder \<Rightarrow> xy list dec" where
  "LinerRing bom bs =
     bindE (readUint32 bom bs) (\<lambda>(num, bs).
     bindE (deMany (deXY bom) (unat num) bs) (\<lambda>(rn, bs).
       Inr (if num > 1 \<and> same_xy (rn ! 0) (rn ! unat (num - 1)) then take (unat (num - 1)) rn else rn, bs)))"

definition dePolygon :: "ByteOrder \<Rightarrow> xy list list dec" where
  "dePolygon bom = deCounted bom (LinerRing bom)"

definition deMultiPolygon :: "ByteOrder \<Rightarrow> xy list list list dec" where
  "deMultiPolygon bom = deCounted bom (deTyped ''multipolygon'' tyPolygon dePolygon)"

text \<open>A member of a collection that is not a collection itself.\<close>

definition deMember :: "ByteOrder \<Rightarrow> 32 word \<Rightarrow> geometry dec" where
  "deMember bom typ bs =
     (if typ = tyPoint then bindE (dePoint bom bs) (\<lambda>(x, bs). Inr (Point x, bs))
      else if typ = tyLineString then bindE (deLineString bom bs) (\<lambda>(x, bs). Inr (LineString x, bs))
      else if typ = tyPolygon then bindE (dePolygon bom bs) (\<lambda>(x, bs). Inr (Polygon x, bs))
      else if typ = tyMultiPoint then bindE (deMultiPoint bom bs) (\<lambda>(x, bs). Inr (MultiPoint x, bs))
      else if typ = tyMultiLineString then bindE (deMultiLineString bom bs) (\<lambda>(x, bs). Inr (MultiLineString x, bs))
      else if typ = tyMultiPolygon then bindE (deMultiPolygon bom bs) (\<lambda>(x, bs). Inr (MultiPolygon x, bs))
      else Inl (ErrInvalidType ''collection'' typ))"

text \<open>
  The members of a collection.  Collections nest to any depth, so that the recursion follows the input and not a structure;
  \<open>None\<close> would stand for a recursion that does not end.
\<close>

partial_function (option) deMembers :: "nat \<Rightarrow> byte list \<Rightarrow> (wkb_error + (geometry list \<times> byte list)) option" where
  "deMembers n bs =
     (if n = 0 then Some (Inr ([], bs))
      else case ByteOrderType bs of
        Inl e \<Rightarrow> Some (Inl e)
      | Inr ((bom, typ), bs1) \<Rightarrow>
          Option.bind
            (if typ = tyCollection
             then (case readUint32 bom bs1 of
                     Inl e \<Rightarrow> Some (Inl e)
                   | Inr (num, bs2) \<Rightarrow>
                       Option.bind (deMembers (unat num) bs2)
                         (\<lambda>r. Some (bindE r (\<lambda>(gs, bs3). Inr (Collection gs, bs3)))))
             else Some (deMember bom typ bs1))
            (\<lambda>r. case r of
                Inl e \<Rightarrow> Some (Inl e)
              | Inr (g, bs4) \<Rightarrow>
                  Option.bind (deMembers (n - 1) bs4) (\<lambda>r. Some (bindE r (\<lambda>(gs, bs5). Inr (g # gs, bs5))))))"

declare deMembers.simps [code]

definition deCollection :: "ByteOrder \<Rightarrow> byte list \<Rightarrow> (wkb_error + (geometry list \<times> byte list)) option" where
  "deCollection bom bs =
     (case readUint32 bom bs of Inl e \<Rightarrow> Some (Inl e) | Inr (num, bs') \<Rightarrow> deMembers (unat num) bs')"

text \<open>With a reference system the result is of another type.\<close>

definition withSRID :: "string \<Rightarrow> 32 word option \<Rightarrow> ('a \<Rightarrow> geometry) \<Rightarrow> (32 word \<Rightarrow> 'a \<Rightarrow> geometry)
    \<Rightarrow> wkb_error + ('a \<times> byte list) \<Rightarrow> wkb_error + (geometry \<times> byte list)" where
  "withSRID what srid plain referenced r =
     (case r of
        Inl e \<Rightarrow> Inl (DecodeFailed what e)
      | Inr (x, bs) \<Rightarrow> Inr (case srid of None \<Rightarrow> plain x | Some n \<Rightarrow> referenced n x, bs))"

definition deGeometry :: "ByteOrder \<Rightarrow> 32 word \<Rightarrow> 32 word option \<Rightarrow> byte list
    \<Rightarrow> (wkb_error + (geometry \<times> byte list)) option" where
  "deGeometry bom typ srid bs =
     (if typ = tyPoint then Some (withSRID ''point'' srid Point PointS (dePoint bom bs))
      else if typ = tyMultiPoint then Some (withSRID ''multi point'' srid MultiPoint MultiPointS (deMultiPoint bom bs))
      else if typ = tyLineString then Some (withSRID ''linestring'' srid LineString LineStringS (deLineString bom bs))
      else if typ = tyMultiLineString
      then Some (withSRID ''multilinestring'' srid MultiLineString MultiLineStringS (deMultiLineString bom bs))
      else if typ = tyPolygon then Some (withSRID ''polygon'' srid Polygon PolygonS (dePolygon bom bs))
      else if typ = tyMultiPolygon
      then Some (withSRID ''multi polygon'' srid MultiPolygon MultiPolygonS (deMultiPolygon bom bs))
      else if typ = tyCollection
      then map_option (withSRID ''collection'' srid Collection CollectionS) (deCollection bom bs)
      else Some (Inl (ErrUnknownGeometryType typ)))"

definition Decode :: "byte list \<Rightarrow> (wkb_error + (geometry \<times> byte list)) option" where
  "Decode bs =
     (case ByteOrderType bs of
        Inl e \<Rightarrow> Some (Inl e)
      | Inr ((bom, typ), bs1) \<Rightarrow>
          if typ AND WKBSRID = WKBSRID
          then (case readUint32 bom bs1 of
                  Inl e \<Rightarrow> Some (Inl (DecodeFailed ''srid'' e))
                | Inr (srid, bs2) \<Rightarrow> deGeometry bom (typ - WKBSRID) (Some srid) bs2)
          else deGeometry bom typ None bs1)"

definition DecodeBytes :: "byte list \<Rightarrow> (wkb_error + geometry) option" where
  "DecodeBytes bs = map_option (\<lambda>r. bindE r (\<lambda>(g, _). Inr g)) (Decode bs)"

end
