(* ===== verification/Wkb_Roundtrip.thy ===== *)
theory Wkb_Roundtrip
  imports Wkb
begin

text \<open>
  What the encoder writes, as a function of the geometry, and that the decoder reads it back: the round trip, what it does to
  the rings of polygons, and where an encoding with a spatial reference system can not be decoded.
\<close>

section \<open>What the encoder writes\<close>

definition xy_bytes :: "ByteOrder \<Rightarrow> xy \<Rightarrow> byte list" where
  "xy_bytes bo p = put_bytes bo 8 (fst p) @ put_bytes bo 8 (snd p)"

definition head_bytes :: "ByteOrder \<Rightarrow> 32 word \<Rightarrow> 32 word \<Rightarrow> byte list" where
  "head_bytes bo srid typ =
     (case bo of BigEndian \<Rightarrow> 0 | LittleEndian \<Rightarrow> 1)
     # (if srid = 0 then put_bytes bo 4 typ else put_bytes bo 4 (typ + WKBSRID) @ put_bytes bo 4 srid)"

definition len_bytes :: "ByteOrder \<Rightarrow> 'a list \<Rightarrow> byte list" where
  "len_bytes bo xs = put_bytes bo 4 (of_nat (length xs) :: 32 word)"

definition closed_ring :: "xy list \<Rightarrow> xy list" where
  "closed_ring r = (if r \<noteq> [] \<and> \<not> same_xy (hd r) (last r) then r @ [hd r] else r)"

definition point_bytes :: "ByteOrder \<Rightarrow> 32 word \<Rightarrow> xy \<Rightarrow> byte list" where
  "point_bytes bo srid p = head_bytes bo srid tyPoint @ xy_bytes bo p"

definition line_bytes :: "ByteOrder \<Rightarrow> 32 word \<Rightarrow> xy list \<Rightarrow> byte list" where
  "line_bytes bo srid ln = head_bytes bo srid tyLineString @ len_bytes bo ln @ concat (map (xy_bytes bo) ln)"

definition ring_bytes :: "ByteOrder \<Rightarrow> xy list \<Rightarrow> byte list" where
  "ring_bytes bo r = len_bytes bo (closed_ring r) @ concat (map (xy_bytes bo) (closed_ring r))"

definition polygon_bytes :: "ByteOrder \<Rightarrow> 32 word \<Rightarrow> xy list list \<Rightarrow> byte list" where
  "polygon_bytes bo srid ply = head_bytes bo srid tyPolygon @ len_bytes bo ply @ concat (map (ring_bytes bo) ply)"

definition many_bytes :: "ByteOrder \<Rightarrow> 32 word \<Rightarrow> 32 word \<Rightarrow> ('a \<Rightarrow> byte list) \<Rightarrow> 'a list \<Rightarrow> byte list" where
  "many_bytes bo srid typ f xs = head_bytes bo srid typ @ len_bytes bo xs @ concat (map f xs)"

abbreviation small :: "'a list \<Rightarrow> bool" where
  "small xs \<equiv> length xs + 1 < 2 ^ 32"

abbreviation writes :: "Encoder \<Rightarrow> byte list \<Rightarrow> Encoder" where
  "writes en bs \<equiv> en\<lparr>en_W := en_W en @ bs\<rparr>"

abbreviation ready :: "ByteOrder \<Rightarrow> 32 word \<Rightarrow> Encoder \<Rightarrow> bool" where
  "ready bo srid en \<equiv> en_err en = None \<and> en_ByteOrder en = Some bo \<and> en_SRID en = srid"

lemma Write_writes:
  "ready bo srid en \<Longrightarrow> Write data en = writes en (concat (map (binary_Write bo) data))"
  by (simp add: Write_def conti_def put_data_def default_order_def)

lemma srid_flag:
  assumes "typ < (8 :: 32 word)"
  shows "typ AND WKBSRID = 0" and "(typ + WKBSRID) AND WKBSRID = WKBSRID"
proof -
  have "unat typ < 8" using assms by (simp add: word_less_nat_alt)
  moreover have "typ = of_nat (unat typ)" by simp
  ultimately have "typ \<in> set (map of_nat [0..<8])" by (simp only: set_map set_upt) (rule image_eqI, auto)
  then show "typ AND WKBSRID = 0" "(typ + WKBSRID) AND WKBSRID = WKBSRID" by (auto simp: upt_rec)
qed

lemma header_writes:
  assumes "ready bo srid en" and "typ < 8"
  shows "WriteTyp typ data (BOM en) = writes en (head_bytes bo srid typ @ concat (map (binary_Write bo) data))"
proof -
  have bom: "BOM en = writes en [case bo of BigEndian \<Rightarrow> 0 | LittleEndian \<Rightarrow> 1]"
    using assms(1) by (cases bo) (simp_all add: BOM_def conti_def Write_writes [where bo = bo and srid = srid])
  note flag = srid_flag [OF assms(2)]
  from assms(1) flag show ?thesis
    unfolding bom by (simp add: WriteTyp_def conti_def default_order_def put_data_def head_bytes_def Let_def)
qed

lemma fold_writes:
  assumes "\<And>x en. x \<in> set xs \<Longrightarrow> ready bo srid en \<Longrightarrow> f x en = writes en (g x)" and "ready bo srid en"
  shows "fold f xs en = writes en (concat (map g xs))"
  using assms by (induction xs arbitrary: en) simp_all

lemma enPoint_writes: "ready bo srid en \<Longrightarrow> enPoint p en = writes en (point_bytes bo srid p)"
  by (simp add: enPoint_def header_writes point_bytes_def xy_bytes_def)

lemma xys_writes: "ready bo srid en \<Longrightarrow> fold (\<lambda>p. Write (wxy p)) ps en = writes en (concat (map (xy_bytes bo) ps))"
  by (rule fold_writes [where bo = bo and srid = srid]) (auto simp: Write_writes [where bo = bo and srid = srid] xy_bytes_def)

lemma enMultiPoint_writes:
  "ready bo srid en \<Longrightarrow> enMultiPoint ps en = writes en (many_bytes bo srid tyMultiPoint (point_bytes bo srid) ps)"
  by (subst enMultiPoint_def, subst fold_writes [where bo = bo and srid = srid and g = "point_bytes bo srid"])
     (auto simp: header_writes enPoint_writes many_bytes_def len_bytes_def)

lemma enLineString_writes: "ready bo srid en \<Longrightarrow> enLineString ps en = writes en (line_bytes bo srid ps)"
  by (simp add: enLineString_def header_writes xys_writes [where bo = bo and srid = srid] line_bytes_def len_bytes_def)

lemma enMultiLineString_writes:
  "ready bo srid en \<Longrightarrow> enMultiLineString ls en = writes en (many_bytes bo srid tyMultiLineString (line_bytes bo srid) ls)"
  by (subst enMultiLineString_def, subst fold_writes [where bo = bo and srid = srid and g = "line_bytes bo srid"])
     (auto simp: header_writes enLineString_writes many_bytes_def len_bytes_def)

lemma enRing_writes:
  assumes "ready bo srid en" and "small r"
  shows "enRing r en = writes en (ring_bytes bo r)"
proof -
  have len: "unat (of_nat (length r) :: 32 word) = length r" using assms(2) by (simp add: unat_of_nat)
  show ?thesis
  proof (cases "r = []")
    case True
    with assms(1) show ?thesis
      by (simp add: enRing_def Write_writes [where bo = bo and srid = srid] ring_bytes_def closed_ring_def len_bytes_def Let_def)
  next
    case False
    then have "(of_nat (length r) :: 32 word) \<noteq> 0" using len by auto
    then have "unat (of_nat (length r) - 1 :: 32 word) = length r - 1" "0 < (of_nat (length r) :: 32 word)"
      using len by (simp_all add: unat_minus_one word_gt_0)
    with False assms(1) show ?thesis
      by (auto simp: enRing_def Write_writes [where bo = bo and srid = srid] xys_writes [where bo = bo and srid = srid] ring_bytes_def closed_ring_def len_bytes_def
          Let_def hd_conv_nth last_conv_nth xy_bytes_def add.commute)
  qed
qed

lemma enPolygon_writes:
  assumes "ready bo srid en" and "\<forall>r \<in> set ply. small r"
  shows "enPolygon ply en = writes en (polygon_bytes bo srid ply)"
  using assms by (subst enPolygon_def, subst fold_writes [where bo = bo and srid = srid and g = "ring_bytes bo"])
     (auto simp: header_writes enRing_writes polygon_bytes_def len_bytes_def)

lemma enMultiPolygon_writes:
  assumes "ready bo srid en" and "\<forall>ply \<in> set mply. small ply \<and> (\<forall>r \<in> set ply. small r)"
  shows "enMultiPolygon mply en = writes en (many_bytes bo srid tyMultiPolygon (polygon_bytes bo srid) mply)"
  using assms by (subst enMultiPolygon_def, subst fold_writes [where bo = bo and srid = srid and g = "polygon_bytes bo srid"])
     (auto simp: header_writes enPolygon_writes many_bytes_def len_bytes_def)

section \<open>What the decoder reads\<close>

lemma readUint32_put [simp]: "readUint32 bo (put_bytes bo 4 (w :: 32 word) @ bs) = Inr (w, bs)"
  by (simp add: readUint32_def binary_Read_def get_put_bytes)

lemma deXY_put [simp]: "deXY bo (xy_bytes bo p @ bs) = Inr (p, bs)"
proof -
  have "length (xy_bytes bo p) = 16" by (simp add: xy_bytes_def)
  then have "read_full 16 (xy_bytes bo p @ bs) = Inr (xy_bytes bo p, bs)" by simp
  then show ?thesis by (simp add: deXY_def binary_Read_def) (simp add: xy_bytes_def get_put_bytes)
qed

lemma ByteOrderType_put:
  "ByteOrderType (head_bytes bo srid typ @ bs) =
     Inr ((bo, if srid = 0 then typ else typ + WKBSRID), (if srid = 0 then [] else put_bytes bo 4 srid) @ bs)"
  by (cases bo) (simp_all add: ByteOrderType_def head_bytes_def)

lemma deMany_put:
  assumes "\<And>x bs. x \<in> set xs \<Longrightarrow> f (enc x @ bs) = Inr (g x, bs)"
  shows "deMany f (length xs) (concat (map enc xs) @ bs) = Inr (map g xs, bs)"
  using assms by (induction xs) simp_all

lemma deCounted_put:
  assumes "length xs < 2 ^ 32" and "\<And>x bs. x \<in> set xs \<Longrightarrow> f (enc x @ bs) = Inr (g x, bs)"
  shows "deCounted bo f (len_bytes bo xs @ concat (map enc xs) @ bs) = Inr (map g xs, bs)"
  using assms(1) deMany_put [of xs f enc g, OF assms(2)] by (simp add: deCounted_def len_bytes_def unat_of_nat)

lemma deTyped_put:
  "deTyped what typ f (head_bytes bo 0 typ @ bs) = f bo bs"
  by (simp add: deTyped_def ByteOrderType_put)

text \<open>
  What the round trip makes of a ring: the last point goes if it repeats the first; a ring that starts with a NaN is closed by the
  encoder every time, and not opened again.
\<close>

definition ring_again :: "xy list \<Rightarrow> xy list" where
  "ring_again r =
     (if r = [] then []
      else if \<not> same_xy (hd r) (hd r) then r @ [hd r]
      else if 1 < length r \<and> same_xy (hd r) (last r) then butlast r
      else r)"

lemma same_xy_cong:
  "same_xy p q \<Longrightarrow> same_xy p p \<and> same_xy q q"
  by (simp add: same_xy_def f_eq_def)

lemma LinerRing_put:
  assumes "length r + 1 < 2 ^ 32"
  shows "LinerRing bo (ring_bytes bo r @ bs) = Inr (ring_again r, bs)"
proof -
  let ?c = "closed_ring r" and ?n = "of_nat (length (closed_ring r)) :: 32 word"
  have "length ?c < 2 ^ 32" using assms by (simp add: closed_ring_def)
  then have n: "unat ?n = length ?c" by (simp add: unat_of_nat)
  then have gt: "1 < ?n \<longleftrightarrow> 1 < length ?c" by (simp add: word_less_nat_alt)
  have minus: "unat (?n - 1) = length ?c - 1" if "1 < length ?c"
    using that n gt by (subst unat_minus_one) auto
  have "deMany (deXY bo) (length ?c) (concat (map (xy_bytes bo) ?c) @ bs) = Inr (?c, bs)"
    using deMany_put [of ?c "deXY bo" "xy_bytes bo" "\<lambda>x. x"] by simp
  then have "LinerRing bo (ring_bytes bo r @ bs) = Inr (if 1 < length ?c \<and> same_xy (hd ?c) (last ?c) then butlast ?c else ?c, bs)"
    using n minus
    by (auto simp: LinerRing_def ring_bytes_def len_bytes_def gt hd_conv_nth last_conv_nth butlast_conv_take
        simp flip: length_greater_0_conv)
  also have "(if 1 < length ?c \<and> same_xy (hd ?c) (last ?c) then butlast ?c else ?c) = ring_again r"
    using same_xy_cong [of "hd r" "last r"] by (cases r) (auto simp: closed_ring_def ring_again_def)
  finally show ?thesis .
qed

lemma deLineString_put: "small ls \<Longrightarrow> deLineString bo (len_bytes bo ls @ concat (map (xy_bytes bo) ls) @ bs) = Inr (ls, bs)"
  using deCounted_put [of ls "deXY bo" "xy_bytes bo" "\<lambda>x. x"] by (simp add: deLineString_def)

lemma dePolygon_put:
  assumes "small ply" and "\<forall>r \<in> set ply. small r"
  shows "dePolygon bo (len_bytes bo ply @ concat (map (ring_bytes bo) ply) @ bs) = Inr (map ring_again ply, bs)"
  unfolding dePolygon_def by (rule deCounted_put) (use assms in \<open>auto simp: LinerRing_put\<close>)

lemma deMultiPoint_put:
  assumes "small ps"
  shows "deMultiPoint bo (len_bytes bo ps @ concat (map (point_bytes bo 0) ps) @ bs) = Inr (ps, bs)"
  using deCounted_put [of ps "deTyped ''multipoint'' tyPoint deXY" "point_bytes bo 0" "\<lambda>x. x"] assms
  by (simp add: deMultiPoint_def point_bytes_def deTyped_put)

lemma deMultiLineString_put:
  assumes "small ls" and "\<forall>l \<in> set ls. small l"
  shows "deMultiLineString bo (len_bytes bo ls @ concat (map (line_bytes bo 0) ls) @ bs) = Inr (ls, bs)"
  using deCounted_put [of ls "deTyped ''multilinestring'' tyLineString deLineString" "line_bytes bo 0" "\<lambda>x. x"] assms
  by (simp add: deMultiLineString_def line_bytes_def deTyped_put deLineString_put)

lemma deMultiPolygon_put:
  assumes "small mply" and "\<forall>ply \<in> set mply. small ply \<and> (\<forall>r \<in> set ply. small r)"
  shows "deMultiPolygon bo (len_bytes bo mply @ concat (map (polygon_bytes bo 0) mply) @ bs) = Inr (map (map ring_again) mply, bs)"
  unfolding deMultiPolygon_def
  by (rule deCounted_put) (use assms in \<open>auto simp: polygon_bytes_def deTyped_put dePolygon_put\<close>)

section \<open>Geometries\<close>

text \<open>
  The geometries the encoder accepts, with every count below \<open>2\<^sup>3\<^sup>2 - 1\<close>.
\<close>

fun fits :: "geometry \<Rightarrow> bool" where
  "fits (MultiPoint ps) \<longleftrightarrow> small ps"
| "fits (LineString ps) \<longleftrightarrow> small ps"
| "fits (MultiLineString ls) \<longleftrightarrow> small ls \<and> (\<forall>l \<in> set ls. small l)"
| "fits (Polygon ply) \<longleftrightarrow> small ply \<and> (\<forall>r \<in> set ply. small r)"
| "fits (MultiPolygon mply) \<longleftrightarrow> small mply \<and> (\<forall>ply \<in> set mply. small ply \<and> (\<forall>r \<in> set ply. small r))"
| "fits (MultiPolygonS srid mply) \<longleftrightarrow> small mply \<and> (\<forall>ply \<in> set mply. small ply \<and> (\<forall>r \<in> set ply. small r))"
| "fits (Collection gs) \<longleftrightarrow> small gs \<and> (\<forall>g \<in> set gs. fits g)"
| "fits (CollectionS srid gs) \<longleftrightarrow> small gs \<and> (\<forall>g \<in> set gs. fits g)"
| "fits (MultiPointS srid ps) \<longleftrightarrow> False"
| "fits (LineStringS srid ps) \<longleftrightarrow> False"
| "fits (MultiLineStringS srid ls) \<longleftrightarrow> False"
| "fits (PolygonS srid ply) \<longleftrightarrow> False"
| "fits OtherGeometry \<longleftrightarrow> False"
| "fits g \<longleftrightarrow> True"

text \<open>What the encoder sees of a geometry: two dimensions and no reference system.\<close>

fun flat :: "geometry \<Rightarrow> geometry" where
  "flat (PointZ p z) = Point p"
| "flat (PointM p m) = Point p"
| "flat (PointS srid p) = Point p"
| "flat (Line p q) = LineString [p, q]"
| "flat (Extent minx miny maxx maxy) = LineString [(minx, miny), (maxx, miny), (maxx, maxy), (minx, maxy)]"
| "flat (Triangle p q r) = Polygon [[p, q, r]]"
| "flat (MultiPolygonS srid mply) = MultiPolygon mply"
| "flat (Collection gs) = Collection (map flat gs)"
| "flat (CollectionS srid gs) = Collection (map flat gs)"
| "flat g = g"

fun typ_of :: "geometry \<Rightarrow> 32 word" where
  "typ_of (Point _) = tyPoint"
| "typ_of (LineString _) = tyLineString"
| "typ_of (Polygon _) = tyPolygon"
| "typ_of (MultiPoint _) = tyMultiPoint"
| "typ_of (MultiLineString _) = tyMultiLineString"
| "typ_of (MultiPolygon _) = tyMultiPolygon"
| "typ_of _ = tyCollection"

fun body_of :: "ByteOrder \<Rightarrow> 32 word \<Rightarrow> geometry \<Rightarrow> byte list" where
  "body_of bo srid (Point p) = xy_bytes bo p"
| "body_of bo srid (LineString ps) = len_bytes bo ps @ concat (map (xy_bytes bo) ps)"
| "body_of bo srid (Polygon ply) = len_bytes bo ply @ concat (map (ring_bytes bo) ply)"
| "body_of bo srid (MultiPoint ps) = len_bytes bo ps @ concat (map (point_bytes bo srid) ps)"
| "body_of bo srid (MultiLineString ls) = len_bytes bo ls @ concat (map (line_bytes bo srid) ls)"
| "body_of bo srid (MultiPolygon mply) = len_bytes bo mply @ concat (map (polygon_bytes bo srid) mply)"
| "body_of bo srid (Collection gs) =
     len_bytes bo gs @ concat (map (\<lambda>g. head_bytes bo srid (typ_of g) @ body_of bo srid g) gs)"
| "body_of bo srid g = []"

abbreviation bytes_of :: "ByteOrder \<Rightarrow> 32 word \<Rightarrow> geometry \<Rightarrow> byte list" where
  "bytes_of bo srid g \<equiv> head_bytes bo srid (typ_of g) @ body_of bo srid g"

lemma enGeometry_writes:
  "fits g \<Longrightarrow> ready bo srid en \<Longrightarrow> enGeometry g en = writes en (bytes_of bo srid (flat g))"
  "\<forall>g \<in> set gs. fits g \<Longrightarrow> ready bo srid en \<Longrightarrow> enGeometries gs en = writes en (concat (map (bytes_of bo srid) (map flat gs)))"
proof (induction g en and gs en rule: enGeometry_enGeometries.induct)
  case (1 g en)
  note ws = enPoint_writes enMultiPoint_writes enLineString_writes enMultiLineString_writes enPolygon_writes enMultiPolygon_writes
    header_writes point_bytes_def line_bytes_def polygon_bytes_def many_bytes_def
  have c: "conti en" using 1 by (simp add: conti_def)
  show ?case
  proof (cases g)
    case (Collection gs)
    with 1 c show ?thesis by (simp add: conti_def ws len_bytes_def)
  next
    case (CollectionS s gs)
    with 1 c show ?thesis by (simp add: conti_def ws len_bytes_def)
  qed (use 1 c in \<open>auto simp: conti_def ws\<close>)
next
  case (3 g gs en)
  then show ?case by (simp add: conti_def Let_def)
qed simp

text \<open>What the decoder makes of it.\<close>

fun opened :: "geometry \<Rightarrow> geometry" where
  "opened (Polygon ply) = Polygon (map ring_again ply)"
| "opened (MultiPolygon mply) = MultiPolygon (map (map ring_again) mply)"
| "opened (Collection gs) = Collection (map opened gs)"
| "opened g = g"

fun plain :: "geometry \<Rightarrow> bool" where
  "plain (Point p) \<longleftrightarrow> True"
| "plain (LineString ps) \<longleftrightarrow> True"
| "plain (Polygon ply) \<longleftrightarrow> True"
| "plain (MultiPoint ps) \<longleftrightarrow> True"
| "plain (MultiLineString ls) \<longleftrightarrow> True"
| "plain (MultiPolygon mply) \<longleftrightarrow> True"
| "plain (Collection gs) \<longleftrightarrow> (\<forall>g \<in> set gs. plain g)"
| "plain g \<longleftrightarrow> False"

lemma flat_fits: "fits g \<Longrightarrow> fits (flat g) \<and> plain (flat g)"
  by (induction g rule: flat.induct) auto

lemmas parts_put = dePoint_def deLineString_put dePolygon_put deMultiPoint_put deMultiLineString_put deMultiPolygon_put

lemma member_put:
  assumes "fits g" and "plain g" and "\<forall>gs. g \<noteq> Collection gs"
  shows "typ_of g \<noteq> tyCollection" and "deMember bo (typ_of g) (body_of bo 0 g @ bs) = Inr (opened g, bs)"
    and "deGeometry bo (typ_of g) None (body_of bo 0 g @ bs) = Some (Inr (opened g, bs))"
  using assms by (cases g; simp add: deMember_def deGeometry_def withSRID_def parts_put)+

lemma members_put:
  "\<forall>g \<in> set gs. fits g \<and> plain g \<Longrightarrow>
   deMembers (length gs) (concat (map (bytes_of bo 0) gs) @ bs) = Some (Inr (map opened gs, bs))"
proof (induction gs arbitrary: bs rule: measure_induct_rule [of "size_list size"])
  case (less gs)
  show ?case
  proof (cases gs)
    case Nil
    then show ?thesis by (simp add: deMembers.simps)
  next
    case (Cons g gs')
    have rest: "deMembers (length gs') (concat (map (bytes_of bo 0) gs') @ bs) = Some (Inr (map opened gs', bs))" for bs
      using less.IH [of gs'] less.prems Cons by simp
    show ?thesis
    proof (cases "\<exists>hs. g = Collection hs")
      case True
      then obtain hs where hs: "g = Collection hs" by blast
      then have "small hs" "\<forall>h \<in> set hs. fits h \<and> plain h" using less.prems Cons by auto
      moreover from this have "deMembers (length hs) (concat (map (bytes_of bo 0) hs) @ bs) = Some (Inr (map opened hs, bs))" for bs
        using less.IH [of hs] Cons hs by simp
      ultimately show ?thesis
        using rest Cons hs by (subst deMembers.simps) (simp add: ByteOrderType_put len_bytes_def unat_of_nat)
    next
      case False
      then show ?thesis
        using rest Cons less.prems member_put [of g]
        by (subst deMembers.simps) (simp add: ByteOrderType_put)
    qed
  qed
qed

lemma Decode_put:
  assumes "fits g" and "plain g"
  shows "Decode (bytes_of bo 0 g @ bs) = Some (Inr (opened g, bs))"
proof (cases "\<exists>gs. g = Collection gs")
  case True
  then obtain gs where gs: "g = Collection gs" by blast
  then show ?thesis
    using assms members_put [of gs bo bs]
    by (simp add: Decode_def ByteOrderType_put deGeometry_def deCollection_def len_bytes_def unat_of_nat withSRID_def)
next
  case False
  have "typ_of g < 8" by (cases g) simp_all
  with False show ?thesis
    using assms member_put(3) [of g] by (simp add: Decode_def ByteOrderType_put srid_flag)
qed

section \<open>The decoder always ends\<close>

definition eats :: "'a dec \<Rightarrow> bool" where
  "eats f \<longleftrightarrow> (\<forall>bs x bs'. f bs = Inr (x, bs') \<longrightarrow> length bs' \<le> length bs)"

lemma eatsD: "eats f \<Longrightarrow> f bs = Inr (x, bs') \<Longrightarrow> length bs' \<le> length bs"
  by (simp add: eats_def)

lemma binary_Read_length: "binary_Read n bs = Inr (x, bs') \<Longrightarrow> length bs = n + length bs'"
  by (auto simp: binary_Read_def dest: read_full_Inr split: sum.splits)

lemma readUint32_length: "readUint32 bo bs = Inr (x, bs') \<Longrightarrow> length bs' < length bs"
  by (auto simp: readUint32_def go_simps dest!: binary_Read_length)

lemma ByteOrderType_length: "ByteOrderType bs = Inr (x, bs') \<Longrightarrow> length bs' < length bs"
  by (auto simp: ByteOrderType_def go_simps dest!: readUint32_length split: list.splits if_splits)

lemma eats_deMany: "eats f \<Longrightarrow> eats (deMany f n)"
proof (induction n)
  case (Suc n)
  then show ?case by (auto simp: eats_def go_simps) (meson le_trans)
qed (simp add: eats_def)

lemma eats_parts:
  "eats (deXY bo)" "eats f \<Longrightarrow> eats (deCounted bo f)" "(\<And>bo. eats (h bo)) \<Longrightarrow> eats (deTyped what typ h)" "eats (LinerRing bo)"
proof -
  show xy: "eats (deXY bo)" for bo by (auto simp: eats_def deXY_def go_simps dest!: binary_Read_length)
  show "eats (deCounted bo f)" if "eats f"
    using eatsD [OF eats_deMany [OF that]] by (force simp: eats_def deCounted_def go_simps dest!: readUint32_length)
  show "eats (deTyped what typ h)" if "\<And>bo. eats (h bo)"
    using eatsD [OF that] by (force simp: eats_def deTyped_def go_simps dest!: ByteOrderType_length split: if_splits)
  show "eats (LinerRing bo)"
    using eatsD [OF eats_deMany [OF xy]] by (force simp: eats_def LinerRing_def go_simps dest!: readUint32_length)
qed

lemma eats_deMember: "eats (deMember bo typ)"
proof -
  have "eats (dePoint bo)" "eats (deLineString bo)" "eats (dePolygon bo)" "eats (deMultiPoint bo)" "eats (deMultiLineString bo)"
      "eats (deMultiPolygon bo)" for bo
    unfolding dePoint_def deLineString_def dePolygon_def deMultiPoint_def deMultiLineString_def deMultiPolygon_def
    by (simp_all add: eats_parts)
  note es = this [THEN eatsD]
  show ?thesis unfolding eats_def deMember_def by (auto simp: go_simps split: if_splits dest: es)
qed

lemma deMembers_total: "\<exists>r. deMembers n bs = Some r \<and> (\<forall>gs bs'. r = Inr (gs, bs') \<longrightarrow> length bs' \<le> length bs)"
proof (induction bs arbitrary: n rule: measure_induct_rule [of length])
  case (less bs)
  show ?case
  proof (cases "n = 0 \<or> (\<exists>e. ByteOrderType bs = Inl e)")
    case True
    then show ?thesis by (subst deMembers.simps) auto
  next
    case False
    then obtain bom ty bs1 where head: "ByteOrderType bs = Inr ((bom, ty), bs1)" "n \<noteq> 0"
      by (cases "ByteOrderType bs") auto
    note len1 = ByteOrderType_length [OF head(1)]
    let ?m = "if ty = tyCollection
        then (case readUint32 bom bs1 of
                Inl e \<Rightarrow> Some (Inl e)
              | Inr (num, bs2) \<Rightarrow>
                  Option.bind (deMembers (unat num) bs2) (\<lambda>r. Some (bindE r (\<lambda>(gs, bs3). Inr (Collection gs, bs3)))))
        else Some (deMember bom ty bs1)"
    have "\<exists>r. ?m = Some r \<and> (\<forall>g bs4. r = Inr (g, bs4) \<longrightarrow> length bs4 \<le> length bs1)"
    proof (cases "ty = tyCollection")
      case True
      show ?thesis
      proof (cases "readUint32 bom bs1")
        case (Inr p)
        then obtain num bs2 where p: "readUint32 bom bs1 = Inr (num, bs2)" by (cases p) auto
        note len2 = readUint32_length [OF p]
        from less.IH [of bs2 "unat num"] len1 len2 obtain r where
          r: "deMembers (unat num) bs2 = Some r" "\<forall>gs bs'. r = Inr (gs, bs') \<longrightarrow> length bs' \<le> length bs2" by auto
        with True p len2 show ?thesis by (auto simp: go_simps; fastforce)
      qed (use True in auto)
    next
      case False
      then show ?thesis using eatsD [OF eats_deMember] by auto
    qed
    then obtain r where r: "?m = Some r" "\<forall>g bs4. r = Inr (g, bs4) \<longrightarrow> length bs4 \<le> length bs1" by blast
    show ?thesis
    proof (cases r)
      case (Inl e)
      with r(1) head show ?thesis by (subst deMembers.simps) simp
    next
      case (Inr p)
      obtain g bs4 where p: "r = Inr (g, bs4)" using Inr by (cases p) auto
      with r(2) len1 have len4: "length bs4 < length bs" by force
      from less.IH [OF this, of "n - 1"] obtain q where
        q: "deMembers (n - 1) bs4 = Some q" "\<forall>gs bs'. q = Inr (gs, bs') \<longrightarrow> length bs' \<le> length bs4" by auto
      from r(1) head p q(1) have "deMembers n bs = Some (bindE q (\<lambda>(gs, bs5). Inr (g # gs, bs5)))"
        by (subst deMembers.simps) simp
      with q(2) len4 show ?thesis by (auto simp: go_simps; fastforce)
    qed
  qed
qed

section \<open>Properties\<close>

text \<open>Rings as the geometry types of the package describe them: the last point does not repeat the first.\<close>

definition ring_open :: "xy list \<Rightarrow> bool" where
  "ring_open r \<longleftrightarrow> r = [] \<or> same_xy (hd r) (hd r) \<and> \<not> (1 < length r \<and> same_xy (hd r) (last r))"

fun rings_open :: "geometry \<Rightarrow> bool" where
  "rings_open (Polygon ply) \<longleftrightarrow> list_all ring_open ply"
| "rings_open (MultiPolygon mply) \<longleftrightarrow> list_all (list_all ring_open) mply"
| "rings_open (Collection gs) \<longleftrightarrow> (\<forall>g \<in> set gs. rings_open g)"
| "rings_open g \<longleftrightarrow> True"

lemma opened_id: "rings_open g \<Longrightarrow> opened g = g"
proof -
  have ring: "ring_open r \<Longrightarrow> ring_again r = r" for r by (auto simp: ring_open_def ring_again_def)
  have poly: "list_all ring_open ply \<Longrightarrow> map ring_again ply = ply" for ply
    by (induction ply) (simp_all add: ring)
  show "rings_open g \<Longrightarrow> opened g = g"
  proof (induction g rule: opened.induct)
    case (2 mply)
    then show ?case by (induction mply) (simp_all add: poly)
  next
    case (3 gs)
    then show ?case by (simp add: map_idI)
  qed (simp_all add: poly)
qed

lemma flat_id: "plain g \<Longrightarrow> flat g = g"
  by (induction g rule: flat.induct) (simp_all add: map_idI)

text \<open>
  C15. Encoding a geometry in either byte order and decoding the result succeeds and gives the geometry back as a geometry of two dimensions:
  exactly the same one if it was one of the seven plain types, nested in collections to any depth, and its rings do not repeat
  their first point at the end. Otherwise a closed ring comes back open, and a ring that starts with a NaN comes back with
  one more point.
\<close>

theorem wkb_roundtrip:
  assumes "fits g"
  shows "\<exists>bs. EncodeWithByteOrder bo 0 g = Inr bs \<and> DecodeBytes bs = Some (Inr (opened (flat g)))
    \<and> (plain g \<and> rings_open g \<longrightarrow> DecodeBytes bs = Some (Inr g))"
proof -
  have "EncodeWithByteOrder bo 0 g = Inr (bytes_of bo 0 (flat g))"
    using enGeometry_writes(1) [OF assms, of "\<lparr>en_W = [], en_ByteOrder = Some bo, en_SRID = 0, en_err = None\<rparr>" bo 0]
    by (simp add: EncodeWithByteOrder_def Let_def)
  moreover have "DecodeBytes (bytes_of bo 0 (flat g)) = Some (Inr (opened (flat g)))"
    using Decode_put [of "flat g" bo "[]"] flat_fits [OF assms] by (simp add: DecodeBytes_def)
  ultimately show ?thesis using opened_id flat_id by auto
qed

text \<open>A triangle in a collection in a collection, with a corner at 1.0.\<close>

definition demo_geometry :: geometry where
  "demo_geometry = Collection [Point (0, 0), Collection [Polygon [[(0, 0), (0x3FF0000000000000, 0), (0, 0x3FF0000000000000)]]]]"

theorem wkb_roundtrip_witness:
  "\<exists>bs. EncodeWithByteOrder BigEndian 0 demo_geometry = Inr bs \<and> DecodeBytes bs = Some (Inr demo_geometry)"
proof -
  have "f_eq 0 0" "\<not> f_eq 0 0x3FF0000000000000" by code_simp+
  then have "fits demo_geometry" "plain demo_geometry" "rings_open demo_geometry"
    by (simp_all add: demo_geometry_def ring_open_def same_xy_def)
  with wkb_roundtrip [of demo_geometry BigEndian] show ?thesis by blast
qed

definition reread :: "32 word \<Rightarrow> geometry \<Rightarrow> (wkb_error + geometry) option" where
  "reread srid g = (case EncodeBytesSRID srid g of Inl e \<Rightarrow> Some (Inl e) | Inr bs \<Rightarrow> DecodeBytes bs)"

lemma reread_fits:
  assumes "fits g" and "srid \<noteq> 0"
  shows "reread srid g = map_option (\<lambda>r. bindE r (\<lambda>(g, _). Inr g))
    (deGeometry LittleEndian (typ_of (flat g)) (Some srid) (body_of LittleEndian srid (flat g)))"
proof -
  have "typ_of (flat g) < 8" by (cases "flat g") simp_all
  then have "Decode (bytes_of LittleEndian srid (flat g)) =
      deGeometry LittleEndian (typ_of (flat g)) (Some srid) (body_of LittleEndian srid (flat g))"
    using assms(2) by (simp add: Decode_def ByteOrderType_put srid_flag)
  moreover have "EncodeBytesSRID srid g = Inr (bytes_of LittleEndian srid (flat g))"
    using enGeometry_writes(1) [OF assms(1), of "\<lparr>en_W = [], en_ByteOrder = Some LittleEndian, en_SRID = srid, en_err = None\<rparr>"]
    by (simp add: EncodeBytesSRID_def EncodeWithByteOrder_def Let_def)
  ultimately show ?thesis by (simp add: reread_def DecodeBytes_def)
qed

lemma deCounted_marked:
  assumes "srid \<noteq> 0" and "typ < 8" and "small (x # xs)" and "enc x = head_bytes bo srid typ @ body"
  shows "deCounted bo (deTyped what typ h) (len_bytes bo (x # xs) @ concat (map enc (x # xs))) = Inl (ErrInvalidType what (typ + WKBSRID))"
proof -
  have "typ + WKBSRID \<noteq> typ" by simp
  moreover have "unat (of_nat (length (x # xs)) :: 32 word) = Suc (length xs)"
    using assms(3) by (simp only: unat_of_nat) simp
  ultimately show ?thesis
    using assms(1,4) unfolding deCounted_def len_bytes_def
    by (simp add: deTyped_def ByteOrderType_put)
qed

lemma members_marked:
  assumes "srid \<noteq> 0" and "small (g # gs)"
  shows "\<exists>typ. deCollection bo (len_bytes bo (g # gs) @ concat (map (bytes_of bo srid) (g # gs)) @ bs)
    = Some (Inl (ErrInvalidType ''collection'' (typ + WKBSRID)))"
proof -
  have "typ_of g + WKBSRID \<notin> {1, 2, 3, 4, 5, 6, 7}" by (cases g) simp_all
  moreover have "unat (of_nat (length (g # gs)) :: 32 word) = Suc (length gs)"
    using assms(2) by (simp only: unat_of_nat) simp
  ultimately have "deCollection bo (len_bytes bo (g # gs) @ concat (map (bytes_of bo srid) (g # gs)) @ bs)
      = Some (Inl (ErrInvalidType ''collection'' (typ_of g + WKBSRID)))"
    using assms(1) unfolding deCollection_def len_bytes_def readUint32_put
    by (simp add: deMembers.simps [of "Suc _"] ByteOrderType_put deMember_def)
  then show ?thesis by blast
qed

text \<open>
  C37. With a reference system the encoder marks not only the geometry but every geometry inside it, while the decoder accepts a mark at
  the front only: points, lines and polygons come back with their reference system, but no multi-geometry and no
  collection that has a member can be decoded. The encoder in turn refuses the line strings, polygons, multi-points and
  multi-lines with a reference system that the decoder returns.
\<close>

theorem wkb_srid:
  assumes "srid \<noteq> 0"
  shows "reread srid (Point p) = Some (Inr (PointS srid p))
    \<and> (fits (LineString ls) \<longrightarrow> reread srid (LineString ls) = Some (Inr (LineStringS srid ls)))
    \<and> (fits (Polygon ply) \<longrightarrow> reread srid (Polygon ply) = Some (Inr (PolygonS srid (map ring_again ply))))
    \<and> (fits (MultiPoint (p # ps)) \<longrightarrow> reread srid (MultiPoint (p # ps))
        = Some (Inl (DecodeFailed ''multi point'' (ErrInvalidType ''multipoint'' (tyPoint + WKBSRID)))))
    \<and> (fits (MultiLineString (l # lss)) \<longrightarrow> reread srid (MultiLineString (l # lss))
        = Some (Inl (DecodeFailed ''multilinestring'' (ErrInvalidType ''multilinestring'' (tyLineString + WKBSRID)))))
    \<and> (fits (MultiPolygon (y # ys)) \<longrightarrow> reread srid (MultiPolygon (y # ys))
        = Some (Inl (DecodeFailed ''multi polygon'' (ErrInvalidType ''multipolygon'' (tyPolygon + WKBSRID)))))
    \<and> (fits (Collection (g # gs)) \<longrightarrow> (\<exists>typ. reread srid (Collection (g # gs))
        = Some (Inl (DecodeFailed ''collection'' (ErrInvalidType ''collection'' (typ + WKBSRID))))))
    \<and> EncodeBytes (LineStringS srid ls) = Inl (ErrUnknownGeometry (LineStringS srid ls))
    \<and> EncodeBytes (PolygonS srid ply) = Inl (ErrUnknownGeometry (PolygonS srid ply))
    \<and> EncodeBytes (MultiPointS srid ps) = Inl (ErrUnknownGeometry (MultiPointS srid ps))
    \<and> EncodeBytes (MultiLineStringS srid lss) = Inl (ErrUnknownGeometry (MultiLineStringS srid lss))"
proof (intro conjI impI)
  note rr = reread_fits [OF _ assms] deGeometry_def withSRID_def
  show "reread srid (Point p) = Some (Inr (PointS srid p))"
    using deXY_put [of LittleEndian p "[]"] by (simp add: rr dePoint_def)
  show "reread srid (LineString ls) = Some (Inr (LineStringS srid ls))" if "fits (LineString ls)"
    using that deLineString_put [of ls LittleEndian "[]"] by (simp add: rr)
  show "reread srid (Polygon ply) = Some (Inr (PolygonS srid (map ring_again ply)))" if "fits (Polygon ply)"
    using that dePolygon_put [of ply LittleEndian "[]"] by (simp add: rr)
  note marked = deCounted_marked [OF assms, of _ _ _ _ LittleEndian]
  show "reread srid (MultiPoint (p # ps))
      = Some (Inl (DecodeFailed ''multi point'' (ErrInvalidType ''multipoint'' (tyPoint + WKBSRID))))" if "fits (MultiPoint (p # ps))"
    using that marked [of tyPoint p ps "point_bytes LittleEndian srid" "xy_bytes LittleEndian p" "''multipoint''" deXY]
    by (simp add: rr deMultiPoint_def point_bytes_def)
  show "reread srid (MultiLineString (l # lss))
      = Some (Inl (DecodeFailed ''multilinestring'' (ErrInvalidType ''multilinestring'' (tyLineString + WKBSRID))))"
    if "fits (MultiLineString (l # lss))"
    using that marked [of tyLineString l lss "line_bytes LittleEndian srid" _ "''multilinestring''" deLineString]
    by (simp add: rr deMultiLineString_def line_bytes_def)
  show "reread srid (MultiPolygon (y # ys))
      = Some (Inl (DecodeFailed ''multi polygon'' (ErrInvalidType ''multipolygon'' (tyPolygon + WKBSRID))))"
    if "fits (MultiPolygon (y # ys))"
    using that marked [of tyPolygon y ys "polygon_bytes LittleEndian srid" _ "''multipolygon''" dePolygon]
    by (simp add: rr deMultiPolygon_def polygon_bytes_def)
  show "\<exists>typ. reread srid (Collection (g # gs))
      = Some (Inl (DecodeFailed ''collection'' (ErrInvalidType ''collection'' (typ + WKBSRID))))" if "fits (Collection (g # gs))"
    using members_marked [OF assms, of "flat g" "map flat gs" LittleEndian "[]"] that by (force simp: rr deCollection_def)
qed (simp_all add: EncodeBytes_def EncodeWithByteOrder_def conti_def)

theorem wkb_srid_witness:
  "reread 4326 (Point (0, 0)) = Some (Inr (PointS 4326 (0, 0)))
   \<and> reread 4326 (MultiPoint [(0, 0)]) = Some (Inl (DecodeFailed ''multi point'' (ErrInvalidType ''multipoint'' (tyPoint + WKBSRID))))"
  using wkb_srid [of 4326 "(0, 0)" "[]" "[]" "[]"] by simp

text \<open>
  C27. Decoding ends on every input, however it nests and whatever counts it claims, with a geometry or with an error.
\<close>

theorem Decode_total: "\<exists>r. DecodeBytes bs = Some r"
proof -
  have "\<exists>r. deCollection bom bs = Some r" for bom bs
    using deMembers_total by (auto simp: deCollection_def split: sum.splits) metis
  then have "\<exists>r. deGeometry bom ty srid bs = Some r" for bom ty srid bs by (simp add: deGeometry_def)
  then show ?thesis by (auto simp: DecodeBytes_def Decode_def split: sum.splits)
qed

end
