(* ===== verification/Bing.thy ===== *)
theory Bing
  imports Byte_Order
begin

text \<open>
  Tiles and quad keys (\<^verbatim>\<open>internal/legacy/bing\<close>): the integer part of the tile system.  The conversions between degrees and pixels go through
  the sine, the logarithm and the arc tangent of the standard library and are not modelled.
\<close>

type_synonym int64 = "64 word"

section \<open>Definitions\<close>

definition MapSize :: "nat \<Rightarrow> 64 word" where
  "MapSize levelOfDetail = push_bit levelOfDetail 256"

definition clip :: "float64 \<Rightarrow> float64 \<Rightarrow> float64 \<Rightarrow> float64" where
  "clip n minValue maxValue = (if f_lt n minValue then minValue else if f_lt maxValue n then maxValue else n)"

text \<open>The shift to the right of a signed integer keeps the sign.\<close>

definition PixelXYToTileXY :: "int64 \<Rightarrow> int64 \<Rightarrow> int64 \<times> int64" where
  "PixelXYToTileXY pixelX pixelY = (signed_drop_bit 8 pixelX, signed_drop_bit 8 pixelY)"

definition TileXYToPixelXY :: "int64 \<Rightarrow> int64 \<Rightarrow> int64 \<times> int64" where
  "TileXYToPixelXY tileX tileY = (push_bit 8 tileX, push_bit 8 tileY)"

text \<open>For level 0 the code shifts by the greatest unsigned integer, which leaves 0.\<close>

definition tileMask :: "nat \<Rightarrow> int64" where
  "tileMask i = (if i = 0 then 0 else push_bit (i - 1) 1)"

definition quadDigit :: "int64 \<Rightarrow> int64 \<Rightarrow> nat \<Rightarrow> byte" where
  "quadDigit tileX tileY i =
     (let mask = tileMask i in
      if tileX AND mask \<noteq> 0 then (if tileY AND mask \<noteq> 0 then 51 else 49)
      else if tileY AND mask \<noteq> 0 then 50 else 48)"

primrec quadKeyLoop :: "int64 \<Rightarrow> int64 \<Rightarrow> nat \<Rightarrow> gostring" where
  "quadKeyLoop tileX tileY 0 = []"
| "quadKeyLoop tileX tileY (Suc i) = quadDigit tileX tileY (Suc i) # quadKeyLoop tileX tileY i"

definition TileXYToQuadKey :: "int64 \<Rightarrow> int64 \<Rightarrow> nat \<Rightarrow> gostring" where
  "TileXYToQuadKey tileX tileY levelOfDetail = quadKeyLoop tileX tileY levelOfDetail"

definition partForTileXY :: "int64 \<Rightarrow> int64 \<Rightarrow> nat \<Rightarrow> int" where
  "partForTileXY tileX tileY levelOfDetail =
     (let mask = tileMask levelOfDetail in
      if tileX AND mask \<noteq> 0 then (if tileY AND mask \<noteq> 0 then 3 else 1)
      else if tileY AND mask \<noteq> 0 then 2 else 0)"

text \<open>A digit that is none ends the conversion.\<close>

datatype quad_error = InvalidQuadKey

definition quadStep :: "byte \<Rightarrow> nat \<Rightarrow> int64 \<times> int64 \<Rightarrow> quad_error + (int64 \<times> int64)" where
  "quadStep c i = (\<lambda>(tileX, tileY).
     let mask = tileMask i in
     if c = 48 then Inr (tileX, tileY)
     else if c = 49 then Inr (tileX OR mask, tileY)
     else if c = 50 then Inr (tileX, tileY OR mask)
     else if c = 51 then Inr (tileX OR mask, tileY OR mask)
     else Inl InvalidQuadKey)"

fun tileLoop :: "gostring \<Rightarrow> int64 \<times> int64 \<Rightarrow> quad_error + (int64 \<times> int64)" where
  "tileLoop [] t = Inr t"
| "tileLoop (c # key) t = bindE (quadStep c (Suc (length key)) t) (tileLoop key)"

definition QuadKeyToTileXY :: "gostring \<Rightarrow> quad_error + (int64 \<times> int64 \<times> nat)" where
  "QuadKeyToTileXY quadKey = bindE (tileLoop quadKey (0, 0)) (\<lambda>(x, y). Inr (x, y, length quadKey))"

section \<open>Quad keys and tiles\<close>

lemma bit_tileMask: "bit (tileMask (Suc i)) j \<longleftrightarrow> j = i \<and> i < 64"
  by (auto simp: tileMask_def bit_simps)

lemma and_tileMask: "i < 64 \<Longrightarrow> x AND tileMask (Suc i) = 0 \<longleftrightarrow> \<not> bit x i"
  by (simp add: tileMask_def and_exp_eq_0_iff_not_bit)

lemma digit_distinct: "\<not> iszero (take_bit (Suc (Suc (Suc (Suc (Suc (Suc (Suc (Suc 0)))))))) (3 :: int))"
  by (simp add: iszero_def take_bit_Suc)

lemma take_bit_tileMask:
  "i < 64 \<Longrightarrow> take_bit (Suc i) (x :: int64) = (if bit x i then take_bit i x OR tileMask (Suc i) else take_bit i x)"
  by (rule bit_word_eqI) (auto simp: bit_simps bit_tileMask less_Suc_eq)

lemma quadDigit_bits:
  "i < 64 \<Longrightarrow> quadDigit x y (Suc i) = (if bit x i then if bit y i then 51 else 49 else if bit y i then 50 else 48)"
  by (simp add: quadDigit_def and_tileMask Let_def)

lemma parts_quadKeyLoop: "map (\<lambda>i. 48 + of_int (partForTileXY x y i)) (rev [1..<Suc n]) = quadKeyLoop x y n"
  by (induction n) (simp_all add: quadDigit_def partForTileXY_def Let_def)

lemma length_quadKeyLoop [simp]: "length (quadKeyLoop x y n) = n"
  by (induction n) simp_all

lemma tileLoop_quadKey:
  "n \<le> 64 \<Longrightarrow> tileLoop (quadKeyLoop x y n) (a, b) = Inr (a OR take_bit n x, b OR take_bit n y)"
  by (induction n arbitrary: a b) (simp_all add: quadStep_def quadDigit_bits take_bit_tileMask digit_distinct ac_simps Let_def)

lemma quadKey_tileLoop:
  assumes "length key \<le> 64" and "set key \<subseteq> {48, 49, 50, 51}"
  shows "\<exists>x y. tileLoop key (a, b) = Inr (a OR x, b OR y) \<and> quadKeyLoop x y (length key) = key
    \<and> take_bit (length key) x = x \<and> take_bit (length key) y = y"
  using assms
proof (induction key arbitrary: a b)
  case (Cons c key)
  let ?n = "length key" and ?m = "tileMask (Suc (length key))"
  let ?bx = "c = 49 \<or> c = 51" and ?by = "c = 50 \<or> c = 51"
  define a' where "a' = (if ?bx then a OR ?m else a)"
  define b' where "b' = (if ?by then b OR ?m else b)"
  have n: "?n < 64" using Cons.prems by simp
  obtain x y where xy: "tileLoop key (a', b') = Inr (a' OR x, b' OR y)" "quadKeyLoop x y ?n = key"
      "take_bit ?n x = x" "take_bit ?n y = y"
    using Cons.IH [of a' b'] Cons.prems by auto
  define x' where "x' = (if ?bx then ?m OR x else x)"
  define y' where "y' = (if ?by then ?m OR y else y)"
  have low: "bit x i \<Longrightarrow> i < ?n" "bit y i \<Longrightarrow> i < ?n" for i
    using xy(3,4) by (metis bit_take_bit_iff)+
  have bits: "bit x' i \<longleftrightarrow> ?bx \<and> i = ?n \<or> bit x i" "bit y' i \<longleftrightarrow> ?by \<and> i = ?n \<or> bit y i" for i
    using n by (auto simp: x'_def y'_def bit_simps bit_tileMask)
  have same: "quadKeyLoop x' y' k = quadKeyLoop x y k" if "k \<le> ?n" for k
    using that n by (induction k) (auto simp: quadDigit_bits bits)
  have "quadKeyLoop x' y' (length (c # key)) = c # key"
    using Cons.prems(2) n same [of ?n] xy(2) by (auto simp: quadDigit_bits bits dest: low)
  moreover have "tileLoop (c # key) (a, b) = Inr (a OR x', b OR y')"
    using Cons.prems(2) xy(1) by (auto simp: quadStep_def a'_def b'_def x'_def y'_def digit_distinct ac_simps Let_def)
  moreover have "take_bit (length (c # key)) x' = x'" "take_bit (length (c # key)) y' = y'"
    using bits by (auto intro!: bit_word_eqI simp: bit_take_bit_iff dest: low [THEN less_SucI])
  ultimately show ?case by blast
qed simp

lemma pixel_tile:
  assumes "sint x \<in> {- (2 ^ 55)..<2 ^ 55}"
  shows "signed_drop_bit 8 (push_bit 8 x) = (x :: int64)"
proof -
  have "sint (push_bit 8 x) = sint x * 2 ^ 8"
  proof -
    have "sint (push_bit 8 x) = signed_take_bit 63 (sint x * 256)" by (simp add: push_bit_eq_mult sint_word_ariths)
    with assms show ?thesis by (simp add: signed_take_bit_int_eq_self)
  qed
  then have "sint (signed_drop_bit 8 (push_bit 8 x)) = sint x" by (simp add: sint_signed_drop_bit_eq drop_bit_eq_div)
  then show ?thesis by (rule signed_word_eqI)
qed

text \<open>
  C26. Tiles and quad keys determine each other. Up to level 64 the key of a tile gives back the lowest bits of its coordinates, all of them
  for a tile of that level; a key of digits from 0 to 3 gives a tile whose key it is; any other key is refused. The quads that lead to the
  tile, level by level, are the digits of its key. And a tile is the tile of its upper left pixel.
\<close>

theorem quadkey_roundtrip:
  "(levelOfDetail \<le> 64 \<longrightarrow>
      QuadKeyToTileXY (TileXYToQuadKey x y levelOfDetail) = Inr (take_bit levelOfDetail x, take_bit levelOfDetail y, levelOfDetail))
   \<and> (length key \<le> 64 \<and> set key \<subseteq> {48, 49, 50, 51} \<longrightarrow>
      (\<exists>x y. QuadKeyToTileXY key = Inr (x, y, length key) \<and> TileXYToQuadKey x y (length key) = key))
   \<and> (\<not> set key \<subseteq> {48, 49, 50, 51} \<longrightarrow> QuadKeyToTileXY key = Inl InvalidQuadKey)
   \<and> map (\<lambda>i. 48 + of_int (partForTileXY x y i)) (rev [1..<Suc levelOfDetail]) = TileXYToQuadKey x y levelOfDetail
   \<and> (sint x \<in> {- (2 ^ 55)..<2 ^ 55} \<and> sint y \<in> {- (2 ^ 55)..<2 ^ 55} \<longrightarrow>
      (case TileXYToPixelXY x y of (px, py) \<Rightarrow> PixelXYToTileXY px py) = (x, y))"
proof (intro conjI impI)
  show "QuadKeyToTileXY (TileXYToQuadKey x y levelOfDetail) = Inr (take_bit levelOfDetail x, take_bit levelOfDetail y, levelOfDetail)"
    if "levelOfDetail \<le> 64"
    using tileLoop_quadKey [OF that, of x y 0 0] by (simp add: QuadKeyToTileXY_def TileXYToQuadKey_def)
  show "\<exists>x y. QuadKeyToTileXY key = Inr (x, y, length key) \<and> TileXYToQuadKey x y (length key) = key"
    if "length key \<le> 64 \<and> set key \<subseteq> {48, 49, 50, 51}"
    using quadKey_tileLoop [of key 0 0] that by (auto simp: QuadKeyToTileXY_def TileXYToQuadKey_def)
  have "tileLoop key t = Inl InvalidQuadKey" if "\<not> set key \<subseteq> {48, 49, 50, 51}" for t
    using that by (induction key arbitrary: t) (auto simp: quadStep_def go_simps Let_def split: prod.splits)
  then show "QuadKeyToTileXY key = Inl InvalidQuadKey" if "\<not> set key \<subseteq> {48, 49, 50, 51}"
    using that by (simp add: QuadKeyToTileXY_def)
  show "map (\<lambda>i. 48 + of_int (partForTileXY x y i)) (rev [1..<Suc levelOfDetail]) = TileXYToQuadKey x y levelOfDetail"
    by (simp only: TileXYToQuadKey_def parts_quadKeyLoop)
  show "(case TileXYToPixelXY x y of (px, py) \<Rightarrow> PixelXYToTileXY px py) = (x, y)"
    if "sint x \<in> {- (2 ^ 55)..<2 ^ 55} \<and> sint y \<in> {- (2 ^ 55)..<2 ^ 55}"
    using that by (simp add: TileXYToPixelXY_def PixelXYToTileXY_def pixel_tile)
qed

theorem quadkey_roundtrip_witness:
  "QuadKeyToTileXY (TileXYToQuadKey 3 5 3) = Inr (3, 5, 3)"
proof -
  have "take_bit 3 (3 :: int64) = 3" "take_bit 3 (5 :: int64) = 5" by code_simp+
  with quadkey_roundtrip [of 3 3 5] show ?thesis by simp
qed

end
