(* ===== verification/Spec2Isabelle.thy ===== *)
theory Spec2Isabelle
  imports Job_Lifecycle Job_Tasks Glob_Match Packed_RTree_IO Field_List_Properties Collection_Properties
    Server_Durability Wkb_Roundtrip Bing
begin

text \<open>
  A verification library of the spatial database engine.

  \<^bold>\<open>The program.\<close>  The engine is written in Go.  The part that stores and serves objects is a server in the manner
  of Redis (\<^verbatim>\<open>internal/legacy\<close>): a client sends a command, the server takes a lock, changes or reads collections of
  objects under their keys, answers, and writes what changed the data to a log file.  A collection
  keeps its objects by identifier, by value, by expiration and by place; an object carries a list of fields in
  a packed binary form whose names are shared in one table of the process.  Patterns of identifiers, keys and
  hook names go through one glob matcher.  Beside the server, the raster catalogue runs jobs as state
  machines (\<^verbatim>\<open>internal/raster/geocube\<close>), the reader of FlatGeobuf files finds features by a packed R-tree
  (\<^verbatim>\<open>internal/formats/flatgeobuf/packedrtree\<close>), geometries travel in well-known binary form
  (\<^verbatim>\<open>internal/geom/encoding/wkb\<close>) and map tiles are named by quad keys (\<^verbatim>\<open>internal/legacy/bing\<close>).

  \<^bold>\<open>How the code is modelled.\<close>  Structs are records, enumerations are datatypes, one HOL function stands for one Go function.
  A Go string is a list of bytes, a machine integer is a word wherever its width matters, a \<^verbatim>\<open>float64\<close> is its 64 bits with
  the comparisons, roundings and conversions of IEEE 754 written out.  State is passed explicitly; a returned error, a
  panic and an index out of range are values of a sum type (\<open>Inl\<close>).  A loop that need not end is a
  \<open>partial_function (option)\<close> and the theorems prove that it does end.  Packages that are not part of the sources (trees,
  the R-tree, geojson, geohash, gjson, sjson, redcon, the hash map) are records of functions, passed as arguments;
  what the code relies on is stated as a predicate on such a record (\<open>tree_laws\<close>, \<open>scan_laws\<close>, \<open>map_laws\<close>,
  \<open>btree_laws\<close>, \<open>geo_laws\<close>, \<open>hashmap_laws\<close>, \<open>redcon_laws\<close>), and every theorem that assumes one has a witness with a concrete library
  that satisfies it.

  \<^bold>\<open>The theories.\<close>
  \<^item> \<^verbatim>\<open>Prelude\<close>: byte strings, \<open>bindE\<close> and \<open>foldE\<close>, the collections of simplification rules.
  \<^item> \<^verbatim>\<open>Float64\<close>, \<^verbatim>\<open>Float_Ops\<close>, \<^verbatim>\<open>Strconv\<close>, \<^verbatim>\<open>Varint\<close>, \<^verbatim>\<open>Byte_Order\<close>, \<^verbatim>\<open>Go_Format\<close>: what the sources use of the language's numbers and of its
    standard library.
  \<^item> \<^verbatim>\<open>Jobs\<close> (\<^verbatim>\<open>job.go\<close>, \<^verbatim>\<open>task.go\<close>, \<^verbatim>\<open>state.go\<close>, \<^verbatim>\<open>geocubeerrors.go\<close>): jobs with their states, tasks, locks and counters.
    \<^verbatim>\<open>Job_Lifecycle\<close> shows that \<open>Trigger\<close> implements the two automata of consolidation and deletion and what follows for
    all sequences of events; \<^verbatim>\<open>Job_Tasks\<close> shows that the counters always count the tasks.
  \<^item> \<^verbatim>\<open>Glob\<close> (\<^verbatim>\<open>glob/match.go\<close>, \<^verbatim>\<open>glob.go\<close>) and \<^verbatim>\<open>Glob_Match\<close>: the matcher decides the grammar of patterns although it
    never backtracks over more than one star, and exactly which matches lie in the range that \<open>Parse\<close> computes.
  \<^item> \<^verbatim>\<open>Packed_RTree\<close> and \<^verbatim>\<open>Packed_RTree_Build\<close>, \<^verbatim>\<open>_Search\<close>, \<^verbatim>\<open>_Order\<close>, \<^verbatim>\<open>_IO\<close> (\<^verbatim>\<open>packedrtree.go\<close>): layout of the levels, construction,
    search over an interface of a bag of tickets and a source of nodes, interpreted for the stack, the heap, the tree in memory and the
    tree in a file; exactness, order, and the round trip of the serialized form.
  \<^item> \<^verbatim>\<open>Field_Values\<close>, \<^verbatim>\<open>Field_List\<close> (\<^verbatim>\<open>field.go\<close>, \<^verbatim>\<open>list_binary.go\<close>, \<^verbatim>\<open>sstring.go\<close>) and \<^verbatim>\<open>Field_List_Refine\<close>, \<^verbatim>\<open>_Properties\<close>: the operations
    on bytes implement an association list sorted by name and never run out of their bytes.
  \<^item> \<^verbatim>\<open>Objects\<close>, \<^verbatim>\<open>Collections\<close> (\<^verbatim>\<open>object_binary.go\<close>, \<^verbatim>\<open>collection.go\<close>) and \<^verbatim>\<open>Collection_Invariant\<close>, \<^verbatim>\<open>_Scan\<close>, \<^verbatim>\<open>_Properties\<close>: the indexes
    and counters describe exactly the objects; what the scans and the searches by area hand over.
  \<^item> \<^verbatim>\<open>Server_Json\<close> (\<^verbatim>\<open>json.go\<close>), \<^verbatim>\<open>Hook_Groups\<close> (\<^verbatim>\<open>group.go\<close>), \<^verbatim>\<open>Server_State\<close> (\<^verbatim>\<open>server.go\<close>, \<^verbatim>\<open>hooks.go\<close>, \<^verbatim>\<open>token.go\<close>), \<^verbatim>\<open>Server_Read\<close>,
    \<^verbatim>\<open>Server_Write\<close>, \<^verbatim>\<open>Server_Set\<close> (\<^verbatim>\<open>crud.go\<close>, \<^verbatim>\<open>keys.go\<close>, \<^verbatim>\<open>expire.go\<close>, \<^verbatim>\<open>json.go\<close>), \<^verbatim>\<open>Server_Dispatch\<close> (\<^verbatim>\<open>server.go\<close>): the commands.
    \<^verbatim>\<open>Server_Invariant\<close>, \<^verbatim>\<open>Server_Refine\<close>, \<^verbatim>\<open>Server_Commands\<close>, \<^verbatim>\<open>Server_Reach\<close> prove, command by command, that the invariant of the server
    is kept and what the command does to the abstract database \<open>lookup\<close>, a map from keys and identifiers to
    objects. \<^verbatim>\<open>Server_Demo\<close> is a concrete server, \<^verbatim>\<open>Server_Properties\<close> states the results.
  \<^item> \<^verbatim>\<open>Server_Log\<close> (\<^verbatim>\<open>aof.go\<close>): appending to the log file and loading it. \<^verbatim>\<open>Server_Replay\<close> shows, command by command, that a logged command has the
    same effect on a server with the same contents at another time; \<^verbatim>\<open>Server_Durability\<close> concludes, by a simulation between the run and the
    replay of its log, that loading restores the contents. \<^verbatim>\<open>Server_Silent\<close> shows for each command that what it does not mark as an update it
    leaves unchanged, so that no change goes unlogged.
  \<^item> \<^verbatim>\<open>Wkb\<close> (\<^verbatim>\<open>wkb.go\<close>, \<^verbatim>\<open>encode.go\<close>, \<^verbatim>\<open>decode.go\<close>) and \<^verbatim>\<open>Wkb_Roundtrip\<close>: the two directions against one description of the bytes
    of a geometry, the round trip, its failure for nested geometries with a reference system, and that decoding ends.
  \<^item> \<^verbatim>\<open>Bing\<close> (\<^verbatim>\<open>bing.go\<close>, \<^verbatim>\<open>ext.go\<close>): tiles, pixels and quad keys determine each other.

  \<^bold>\<open>Bounds.\<close>  No proof uses fuel.  Lengths are bounded only where the code keeps them in a machine integer: a
  collection has fewer than \<open>2\<^sup>6\<^sup>4\<close> objects in the theorems about scans, and a packed R-tree has as many references as \<open>Size\<close> accepts,
  and the lists of a geometry in well-known binary form have fewer than \<open>2\<^sup>3\<^sup>2\<close> elements, the width of its counters.

  \<^bold>\<open>Not modelled.\<close>  The network loop, authentication and output formats of the server, the scripts, the searches with their
  tokens and live fences, the shrinking of the log file and replication, webhooks and their queues: they are goroutines over sockets,
  files and embedded interpreters.  The rest of the geometry packages (\<^verbatim>\<open>internal/geom\<close>, \<^verbatim>\<open>internal/geometry\<close>) and \<open>Nearby\<close> compute with
  trigonometric functions and square roots in floating point, whose results the standard library
  does not specify.  The remaining raster packages talk to databases, clouds and GDAL; \<^verbatim>\<open>core\<close>, \<^verbatim>\<open>cpp\<close> and \<^verbatim>\<open>internal/cbridge\<close> are
  generated tables and a bridge to C++.
\<close>

end
